(* ===== verification/Prelude.thy ===== *)
theory Prelude
  imports Main "HOL-Library.Word" "HOL-Library.Finite_Map" "HOL-Library.Sublist"
begin

section \<open>Prelude: outcomes, loops and effects shared by every component\<close>

text \<open>
  What every component of the model shares: Go's two ways of not returning a result (an
  error value and a panic) as one sum type, nil-able pointers, slices and maps, the
  early-return sequencing of Go functions, the loop that returns from inside its body, and
  the same sequencing for functions that change the world outside the program (the kernel,
  the API server). The collections \<open>outcome\<close>, \<open>failure\<close> and \<open>effect\<close> hold the rules that take such
  functions apart.
\<close>

named_theorems outcome \<open>inversion rules for results of pure functions\<close>
named_theorems failure \<open>inversion rules for errors of pure functions\<close>
named_theorems effect \<open>inversion rules for results of functions on the world\<close>

subsection \<open>Results\<close>

text \<open>
  A Go function that returns \<open>(T, error)\<close> returns \<open>Inr\<close> of the value or
  \<open>Inl (Error e)\<close>; a nil pointer dereference or a \<open>Must\<close> function that fails is a
  panic, \<open>Inl (Panic why)\<close>, which no caller of the program recovers from.
\<close>

datatype 'e fault = Panic string | Error 'e

type_synonym ('e, 'a) outcome = "'e fault + 'a"

fun and_then :: "'e + 'a \<Rightarrow> ('a \<Rightarrow> 'e + 'b) \<Rightarrow> 'e + 'b" where
  "and_then (Inl e) k = Inl e"
| "and_then (Inr x) k = k x"

definition panics :: "('e, 'a) outcome \<Rightarrow> bool" where
  "panics r \<longleftrightarrow> (case r of Inl (Panic _) \<Rightarrow> True | _ \<Rightarrow> False)"

definition succeeds :: "'e + 'a \<Rightarrow> bool" where
  "succeeds r \<longleftrightarrow> (case r of Inl _ \<Rightarrow> False | Inr _ \<Rightarrow> True)"

lemma panics_simps [simp]:
  "panics (Inl (Panic s))" "\<not> panics (Inl (Error e))" "\<not> panics (Inr x)"
  by (simp_all add: panics_def)

lemma succeeds_simps [simp]: "\<not> succeeds (Inl e)" "succeeds (Inr x)"
  by (simp_all add: succeeds_def)

lemma succeeds_iff: "succeeds r \<longleftrightarrow> (\<exists>x. r = Inr x)"
  by (cases r) simp_all

lemma and_then_Inr_iff [outcome]:
  "and_then m k = Inr y \<longleftrightarrow> (\<exists>x. m = Inr x \<and> k x = Inr y)"
  by (cases m) auto

lemma and_then_Inl_iff [failure]:
  "and_then m k = Inl e \<longleftrightarrow> m = Inl e \<or> (\<exists>x. m = Inr x \<and> k x = Inl e)"
  by (cases m) auto

lemma and_then_panics_iff [outcome]:
  "panics (and_then m k) \<longleftrightarrow> panics m \<or> (\<exists>x. m = Inr x \<and> panics (k x))"
  by (cases m) (auto simp: panics_def)

text \<open>The same for a check that returns an error, and for a call whose error is wrapped.\<close>

lemma check_Inr_iff [outcome]: "(if b then Inl e else m) = Inr y \<longleftrightarrow> \<not> b \<and> m = Inr y"
  by simp

lemma check_panics_iff [outcome]:
  "panics (if b then m else m') \<longleftrightarrow> (if b then panics m else panics m')"
  by simp

lemma wrap_Inr_iff [outcome]:
  "(case m of Inl e \<Rightarrow> Inl (h e) | Inr x \<Rightarrow> k x) = Inr y \<longleftrightarrow> (\<exists>x. m = Inr x \<and> k x = Inr y)"
  by (cases m) auto

lemma check_Inl_iff [failure]:
  "(if b then Inl e else m) = Inl f \<longleftrightarrow> b \<and> e = f \<or> \<not> b \<and> m = Inl f"
  by simp

lemma wrap_Inl_iff [failure]:
  "(case m of Inl e \<Rightarrow> Inl (h e) | Inr x \<Rightarrow> k x) = Inl f \<longleftrightarrow>
     (\<exists>e. m = Inl e \<and> h e = f) \<or> (\<exists>x. m = Inr x \<and> k x = Inl f)"
  by (cases m) auto

lemma wrap_panics_iff [outcome]:
  "panics (case m of Inl e \<Rightarrow> Inl (h e) | Inr x \<Rightarrow> k x) \<longleftrightarrow>
     (\<exists>e s. m = Inl e \<and> h e = Panic s) \<or> (\<exists>x. m = Inr x \<and> panics (k x))"
  by (cases m) (auto simp: panics_def split: fault.splits)

lemma and_then_cong [fundef_cong]:
  "m = m' \<Longrightarrow> (\<And>x. m' = Inr x \<Longrightarrow> k x = k' x) \<Longrightarrow> and_then m k = and_then m' k'"
  by (cases m') auto

subsection \<open>Pointers, slices and maps that may be nil\<close>

text \<open>
  A pointer to a value is an option, \<open>None\<close> for nil. A slice is an option of a list: the
  nil slice has no elements, as the empty one, but \<open>reflect.DeepEqual\<close> tells them apart.
  A map is an option of a finite map for the same reason; a lookup in the nil map finds
  nothing.
\<close>

type_synonym 'a slice = "'a list option"
type_synonym ('k, 'v) gomap = "('k, 'v) fmap option"

definition deref :: "'a option \<Rightarrow> ('e, 'a) outcome" where
  "deref p = (case p of None \<Rightarrow> Inl (Panic ''nil pointer dereference'') | Some v \<Rightarrow> Inr v)"

lemma deref_simps [simp]:
  "deref None = Inl (Panic ''nil pointer dereference'')" "deref (Some v) = Inr v"
  by (simp_all add: deref_def)

lemma deref_Inr_iff [outcome]: "deref p = Inr v \<longleftrightarrow> p = Some v"
  by (cases p) auto

lemma deref_Error [simp]: "deref p \<noteq> Inl (Error e)"
  by (cases p) auto

lemma deref_panics_iff [outcome]: "panics (deref p) \<longleftrightarrow> p = None"
  by (cases p) auto

definition elems :: "'a slice \<Rightarrow> 'a list" where
  "elems s = (case s of None \<Rightarrow> [] | Some xs \<Rightarrow> xs)"

lemma elems_simps [simp]: "elems None = []" "elems (Some xs) = xs"
  by (simp_all add: elems_def)

definition map_get :: "('k, 'v) gomap \<Rightarrow> 'k \<Rightarrow> 'v option" where
  "map_get m k = (case m of None \<Rightarrow> None | Some f \<Rightarrow> fmlookup f k)"

lemma map_get_simps [simp]: "map_get None k = None" "map_get (Some f) k = fmlookup f k"
  by (simp_all add: map_get_def)

subsection \<open>Loops\<close>

text \<open>A \<open>for range\<close> loop whose body returns the first error.\<close>

fun each :: "('a \<Rightarrow> 'e + unit) \<Rightarrow> 'a list \<Rightarrow> 'e + unit" where
  "each f [] = Inr ()"
| "each f (x # xs) = and_then (f x) (\<lambda>_. each f xs)"

lemma each_Inr_iff [outcome]: "each f xs = Inr u \<longleftrightarrow> (\<forall>x \<in> set xs. f x = Inr ())"
  by (induction xs) (auto simp: and_then_Inr_iff)

lemma each_InlE:
  assumes "each f xs = Inl e"
  obtains ys x zs where "xs = ys @ x # zs" "f x = Inl e" "\<forall>y \<in> set ys. f y = Inr ()"
  using assms
proof (induction xs arbitrary: thesis)
  case Nil
  then show ?case by simp
next
  case (Cons x xs)
  from Cons.prems(2) consider "f x = Inl e" | "f x = Inr ()" "each f xs = Inl e"
    by (auto simp: and_then_Inl_iff)
  then show ?case
  proof cases
    case 1
    with Cons.prems(1) [of "[]" x xs] show ?thesis by simp
  next
    case 2
    from Cons.IH [OF _ 2(2)] obtain ys x' zs
      where "xs = ys @ x' # zs" "f x' = Inl e" "\<forall>y \<in> set ys. f y = Inr ()"
      by blast
    with 2(1) Cons.prems(1) [of "x # ys" x' zs] show ?thesis by simp
  qed
qed

lemma each_no_panic: "(\<And>x. x \<in> set xs \<Longrightarrow> \<not> panics (f x)) \<Longrightarrow> \<not> panics (each f xs)"
  by (induction xs) (auto simp: and_then_panics_iff)

subsection \<open>Effects on the world\<close>

text \<open>
  A function that calls the kernel or the API server takes the world and returns a result
  with the world it leaves. An error does not undo what was done before it.
\<close>

type_synonym ('w, 'e, 'a) eff = "'w \<Rightarrow> ('e + 'a) \<times> 'w"

definition give :: "'a \<Rightarrow> ('w, 'e, 'a) eff" where
  "give x = (\<lambda>w. (Inr x, w))"

definition raise :: "'e \<Rightarrow> ('w, 'e, 'a) eff" where
  "raise e = (\<lambda>w. (Inl e, w))"

text \<open>
  \<open>x, err := m(); if err != nil { return h(err) }; k(x)\<close>: the shape of most of the
  program's statements.
\<close>

definition attempt :: "('w, 'e, 'a) eff \<Rightarrow> ('e \<Rightarrow> 'f) \<Rightarrow> ('a \<Rightarrow> ('w, 'f, 'b) eff) \<Rightarrow> ('w, 'f, 'b) eff" where
  "attempt m h k = (\<lambda>w. case m w of (Inl e, w') \<Rightarrow> (Inl (h e), w') | (Inr x, w') \<Rightarrow> k x w')"

text \<open>\<open>x, err := m(); if err != nil { k1(err) } else { k2(x) }\<close>.\<close>

definition branch :: "('w, 'e, 'a) eff \<Rightarrow> ('e \<Rightarrow> ('w, 'f, 'b) eff) \<Rightarrow> ('a \<Rightarrow> ('w, 'f, 'b) eff) \<Rightarrow> ('w, 'f, 'b) eff" where
  "branch m k1 k2 = (\<lambda>w. case m w of (Inl e, w') \<Rightarrow> k1 e w' | (Inr x, w') \<Rightarrow> k2 x w')"

lemma give_apply [simp]: "give x w = (Inr x, w)"
  by (simp add: give_def)

lemma raise_apply [simp]: "raise e w = (Inl e, w)"
  by (simp add: raise_def)

lemma attempt_Inr_iff [effect]:
  "attempt m h k w = (Inr y, w'') \<longleftrightarrow> (\<exists>x w'. m w = (Inr x, w') \<and> k x w' = (Inr y, w''))"
  by (auto simp: attempt_def split: prod.splits sum.splits)

lemma attempt_Inl_iff [effect]:
  "attempt m h k w = (Inl f, w'') \<longleftrightarrow>
     (\<exists>e. m w = (Inl e, w'') \<and> f = h e) \<or> (\<exists>x w'. m w = (Inr x, w') \<and> k x w' = (Inl f, w''))"
  by (auto simp: attempt_def split: prod.splits sum.splits)

lemma attempt_of_Inr [simp]: "m w = (Inr x, w') \<Longrightarrow> attempt m h k w = k x w'"
  by (simp add: attempt_def)

lemma attempt_of_Inl [simp]: "m w = (Inl e, w') \<Longrightarrow> attempt m h k w = (Inl (h e), w')"
  by (simp add: attempt_def)

lemma branch_of_Inr [simp]: "m w = (Inr x, w') \<Longrightarrow> branch m k1 k2 w = k2 x w'"
  by (simp add: branch_def)

lemma branch_of_Inl [simp]: "m w = (Inl e, w') \<Longrightarrow> branch m k1 k2 w = k1 e w'"
  by (simp add: branch_def)

end
