(* ===== verification/GoStrings.thy ===== *)
theory GoStrings
  imports Prelude
begin

section \<open>The Go string operations the program uses\<close>

text \<open>
  A Go string is its bytes, here a list of \<open>char\<close>. The program calls
  \<open>strings.HasPrefix\<close>, \<open>strings.ReplaceAll\<close> with an empty replacement,
  \<open>strings.TrimSpace\<close>, \<open>fmt.Sprint\<close> and \<open>%v\<close> on integers, and \<open>path.Join\<close> (on Linux the
  same as \<open>filepath.Join\<close>). These are functions of Go's standard library, written out from
  its documented behaviour; they carry no source line of the repository.
\<close>

subsection \<open>Prefixes\<close>

definition HasPrefix :: "string \<Rightarrow> string \<Rightarrow> bool" where
  "HasPrefix s p \<longleftrightarrow> length p \<le> length s \<and> take (length p) s = p"

lemma HasPrefix_iff: "HasPrefix s p \<longleftrightarrow> (\<exists>t. s = p @ t)"
proof
  assume "HasPrefix s p"
  then have "s = p @ drop (length p) s"
    by (metis HasPrefix_def append_take_drop_id)
  then show "\<exists>t. s = p @ t" ..
qed (auto simp: HasPrefix_def)

lemma HasPrefix_append [simp]: "HasPrefix (p @ t) p"
  by (simp add: HasPrefix_def)

lemma HasPrefix_sublist: "HasPrefix s p \<Longrightarrow> sublist p s"
  by (auto simp: HasPrefix_iff)

subsection \<open>Deleting every occurrence of a substring\<close>

text \<open>
  \<open>strings.ReplaceAll(s, old, "")\<close>: the leftmost occurrence first, then on from its end.
  With an empty \<open>old\<close> Go replaces the empty string by itself, which is \<open>s\<close>.
\<close>

function remove_all :: "string \<Rightarrow> string \<Rightarrow> string" where
  "remove_all old s =
     (if old = [] then s
      else case s of
        [] \<Rightarrow> []
      | c # cs \<Rightarrow>
          (if HasPrefix s old then remove_all old (drop (length old) s)
           else c # remove_all old cs))"
  by pat_completeness auto
termination
  by (relation "measure (\<lambda>(old, s). length s)") auto

declare remove_all.simps [simp del]

lemma remove_all_prefix:
  assumes "old \<noteq> []"
  shows "remove_all old (old @ s) = remove_all old s"
proof -
  obtain c cs where e: "old @ s = c # cs"
    using assms by (cases "old @ s") auto
  then have "HasPrefix (c # cs) old" and "drop (length old) (c # cs) = s"
    by (metis HasPrefix_append, metis append_eq_conv_conj)
  with assms e show ?thesis by (subst remove_all.simps) simp
qed

lemma length_remove_all: "length (remove_all old s) \<le> length s"
proof (induction old s rule: remove_all.induct)
  case (1 old s)
  show ?case
  proof (cases "old = [] \<or> s = []")
    case True
    then show ?thesis by (subst remove_all.simps) auto
  next
    case False
    then obtain c cs where s: "s = c # cs" and old: "old \<noteq> []"
      by (cases s) auto
    show ?thesis
    proof (cases "HasPrefix s old")
      case True
      with "1.IH"(1) [OF old s] s old show ?thesis
        by (subst remove_all.simps) (fastforce intro: le_trans)
    next
      case False
      with "1.IH"(2) [OF old s] s old show ?thesis
        by (subst remove_all.simps) simp
    qed
  qed
qed

lemma remove_all_id:
  assumes "\<not> sublist old s"
  shows "remove_all old s = s"
  using assms
proof (induction old s rule: remove_all.induct)
  case (1 old s)
  show ?case
  proof (cases s)
    case Nil
    then show ?thesis by (subst remove_all.simps) simp
  next
    case (Cons c cs)
    have old: "old \<noteq> []" using "1.prems" by auto
    have np: "\<not> HasPrefix s old" using "1.prems" HasPrefix_sublist by blast
    have "\<not> sublist old cs" using "1.prems" Cons by (auto simp: sublist_Cons_right)
    with "1.IH"(2) [OF old Cons np] have "remove_all old cs = cs" .
    with old np Cons show ?thesis by (subst remove_all.simps) simp
  qed
qed

lemma remove_all_shrinks:
  assumes "old \<noteq> []" and "sublist old s"
  shows "length (remove_all old s) < length s"
  using assms
proof (induction old s rule: remove_all.induct)
  case (1 old s)
  then obtain c cs where s: "s = c # cs"
    by (cases s) auto
  show ?case
  proof (cases "HasPrefix s old")
    case True
    then have eq: "remove_all old s = remove_all old (drop (length old) s)"
      using "1.prems" s by (subst remove_all.simps) simp
    have "length (remove_all old (drop (length old) s)) \<le> length s - length old"
      by (metis length_drop length_remove_all)
    moreover have "0 < length old" and "length old \<le> length s"
      using "1.prems" True by (auto simp: HasPrefix_def)
    ultimately show ?thesis unfolding eq by linarith
  next
    case False
    then have "sublist old cs"
      using "1.prems"(2) s by (auto simp: sublist_Cons_right HasPrefix_iff prefix_def)
    with "1.IH"(2) [OF "1.prems"(1) s False "1.prems"(1)] False s "1.prems"(1)
    show ?thesis by (subst remove_all.simps) simp
  qed
qed

text \<open>Deleting a substring is the identity exactly when it does not occur.\<close>

lemma remove_all_id_iff: "old \<noteq> [] \<Longrightarrow> remove_all old s = s \<longleftrightarrow> \<not> sublist old s"
  using remove_all_id remove_all_shrinks by fastforce

subsection \<open>White space\<close>

text \<open>
  \<open>unicode.IsSpace\<close> on the UTF-8 bytes: the number of bytes of the white-space rune a string
  begins with, 0 for none. Besides the six ASCII characters these are U+0085 and U+00A0,
  U+1680, U+2000 to U+200A, U+2028, U+2029, U+202F, U+205F and U+3000.
\<close>

definition space_rune :: "nat list \<Rightarrow> bool" where
  "space_rune bs \<longleftrightarrow>
     (case bs of
       [a] \<Rightarrow> a \<in> {9, 10, 11, 12, 13, 32}
     | [a, b] \<Rightarrow> a = 0xC2 \<and> b \<in> {0x85, 0xA0}
     | [a, b, c] \<Rightarrow>
         a = 0xE1 \<and> b = 0x9A \<and> c = 0x80 \<or>
         a = 0xE2 \<and> b = 0x80 \<and> (0x80 \<le> c \<and> c \<le> 0x8A \<or> c \<in> {0xA8, 0xA9, 0xAF}) \<or>
         a = 0xE2 \<and> b = 0x81 \<and> c = 0x9F \<or>
         a = 0xE3 \<and> b = 0x80 \<and> c = 0x80
     | _ \<Rightarrow> False)"

definition is_space_rune :: "string \<Rightarrow> bool" where
  "is_space_rune s = space_rune (map of_char s)"

definition leading_space :: "string \<Rightarrow> nat" where
  "leading_space s =
     (if is_space_rune (take 1 s) then 1
      else if is_space_rune (take 2 s) then 2
      else if is_space_rune (take 3 s) then 3 else 0)"

function trim_left :: "string \<Rightarrow> string" where
  "trim_left s =
     (if leading_space s = 0 \<or> s = [] then s else trim_left (drop (leading_space s) s))"
  by pat_completeness auto
termination
  by (relation "measure length") auto

declare trim_left.simps [simp del]

text \<open>From the other end, on the reversed string: the same runes, read backwards.\<close>

definition trailing_space :: "string \<Rightarrow> nat" where
  "trailing_space r =
     (if is_space_rune (rev (take 1 r)) then 1
      else if is_space_rune (rev (take 2 r)) then 2
      else if is_space_rune (rev (take 3 r)) then 3 else 0)"

function trim_right_rev :: "string \<Rightarrow> string" where
  "trim_right_rev r =
     (if trailing_space r = 0 \<or> r = [] then r else trim_right_rev (drop (trailing_space r) r))"
  by pat_completeness auto
termination
  by (relation "measure length") auto

declare trim_right_rev.simps [simp del]

definition TrimSpace :: "string \<Rightarrow> string" where
  "TrimSpace s = rev (trim_right_rev (rev (trim_left s)))"

text \<open>A string is blank when it is white-space runes one after another.\<close>

inductive blank :: "string \<Rightarrow> bool" where
  blank_Nil: "blank []"
| blank_rune: "is_space_rune r \<Longrightarrow> blank s \<Longrightarrow> blank (r @ s)"

lemma is_space_rune_length: "is_space_rune r \<Longrightarrow> length r \<in> {1, 2, 3}"
  by (auto simp: is_space_rune_def space_rune_def split: list.splits)

text \<open>The first byte tells the length of a rune, so no white-space rune begins another.\<close>

lemma is_space_rune_prefix_free:
  assumes "is_space_rune (r @ t)" and "is_space_rune r"
  shows "t = []"
proof -
  from assms(2) consider a where "r = [a]" | a b where "r = [a, b]" | a b c where "r = [a, b, c]"
    by (auto simp: is_space_rune_def space_rune_def map_eq_Cons_conv split: list.splits)
  then show ?thesis
    using assms by cases (auto simp: is_space_rune_def space_rune_def split: list.splits)
qed

lemma leading_space_rune:
  assumes "is_space_rune r"
  shows "leading_space (r @ s) = length r"
proof -
  have short: "\<not> is_space_rune (take n r)" if "n < length r" for n
    using is_space_rune_prefix_free [of "take n r" "drop n r"] assms that by auto
  have "length r = 1 \<or> length r = 2 \<or> length r = 3"
    using is_space_rune_length [OF assms] by auto
  then show ?thesis
    using assms short [of 1] short [of 2] by (auto simp: leading_space_def)
qed

lemma leading_spaceE:
  assumes "leading_space s \<noteq> 0"
  obtains r t where "s = r @ t" "is_space_rune r" "leading_space s = length r"
proof -
  define n where "n = leading_space s"
  have n: "is_space_rune (take n s)"
    using assms by (auto simp: n_def leading_space_def split: if_splits)
  have "n = length (take n s)"
    using leading_space_rune [OF n, of "drop n s"] by (simp add: n_def)
  with n show ?thesis
    by (intro that [of "take n s" "drop n s"]) (simp_all add: n_def)
qed

lemma trailing_spaceE:
  assumes "trailing_space q \<noteq> 0" and "q \<noteq> []"
  obtains r where "rev q = rev (drop (trailing_space q) q) @ r" "is_space_rune r"
proof -
  define n where "n = trailing_space q"
  have n: "is_space_rune (rev (take n q))"
    using assms by (auto simp: n_def trailing_space_def split: if_splits)
  have "rev q = rev (drop n q) @ rev (take n q)"
    by (metis append_take_drop_id rev_append)
  with n show ?thesis
    unfolding n_def by (rule that [rotated])
qed

lemma trim_left_rune: "is_space_rune r \<Longrightarrow> trim_left (r @ s) = trim_left s"
  using is_space_rune_length [of r]
  by (subst trim_left.simps) (auto simp: leading_space_rune)

lemma trim_left_blank: "blank s \<Longrightarrow> trim_left s = []"
proof (induction rule: blank.induct)
  case blank_Nil
  show ?case by (subst trim_left.simps) simp
next
  case (blank_rune r s)
  then show ?case by (simp add: trim_left_rune)
qed

lemma not_blankI: "leading_space s = 0 \<Longrightarrow> s \<noteq> [] \<Longrightarrow> \<not> blank s"
  using trim_left_blank [of s] by (auto simp: trim_left.simps)

lemma trim_left_suffix: "\<exists>u. blank u \<and> s = u @ trim_left s \<and> leading_space (trim_left s) = 0"
proof (induction s rule: trim_left.induct)
  case (1 s)
  show ?case
  proof (cases "leading_space s = 0 \<or> s = []")
    case True
    then have "leading_space s = 0"
      by (cases s) (simp_all add: leading_space_def is_space_rune_def space_rune_def)
    with True show ?thesis
      by (auto simp: trim_left.simps [of s] intro: blank.intros)
  next
    case False
    then obtain r t where s: "s = r @ t" and r: "is_space_rune r" "leading_space s = length r"
      using leading_spaceE by blast
    with "1.IH" [OF False] obtain u where "blank u" "t = u @ trim_left t" "leading_space (trim_left t) = 0"
      by auto
    with s r show ?thesis
      by (auto simp: trim_left_rune intro!: exI [of _ "r @ u"] intro: blank.intros)
  qed
qed

lemma blank_append: "blank s \<Longrightarrow> blank t \<Longrightarrow> blank (s @ t)"
  by (induction rule: blank.induct) (auto intro: blank.intros)

lemma blank_snoc: "blank s \<Longrightarrow> is_space_rune r \<Longrightarrow> blank (s @ r)"
  using blank.intros(2) [OF _ blank.intros(1)] blank_append by fastforce

lemma trim_right_rev_Nil: "trim_right_rev q = [] \<Longrightarrow> blank (rev q)"
proof (induction q rule: trim_right_rev.induct)
  case (1 q)
  show ?case
  proof (cases "trailing_space q = 0 \<or> q = []")
    case True
    with "1.prems" show ?thesis
      by (simp add: trim_right_rev.simps [of q] blank.intros)
  next
    case False
    then obtain r where r: "rev q = rev (drop (trailing_space q) q) @ r" "is_space_rune r"
      using trailing_spaceE by blast
    from False "1.prems" have "trim_right_rev (drop (trailing_space q) q) = []"
      by (simp add: trim_right_rev.simps [of q])
    with "1.IH" [OF False] have "blank (rev (drop (trailing_space q) q))" .
    with r blank_snoc show ?thesis by metis
  qed
qed

text \<open>\<open>strings.TrimSpace(s) == ""\<close> tests that \<open>s\<close> is all white space.\<close>

lemma TrimSpace_empty_iff: "TrimSpace s = [] \<longleftrightarrow> blank s"
proof
  assume "TrimSpace s = []"
  then have b: "blank (trim_left s)"
    using trim_right_rev_Nil [of "rev (trim_left s)"] by (simp add: TrimSpace_def)
  obtain u where "blank u" "s = u @ trim_left s"
    using trim_left_suffix by blast
  with b show "blank s" using blank_append by metis
next
  assume "blank s"
  then have "trim_left s = []" by (rule trim_left_blank)
  then show "TrimSpace s = []" by (simp add: TrimSpace_def trim_right_rev.simps)
qed

subsection \<open>Integers in decimal\<close>

text \<open>\<open>fmt.Sprint(s, n)\<close> is \<open>s @ show_int n\<close>: no space goes next to a string operand.\<close>

definition digit_char :: "nat \<Rightarrow> char" where
  "digit_char d = char_of (48 + d)"

fun show_nat :: "nat \<Rightarrow> string" where
  "show_nat n = (if n < 10 then [digit_char n] else show_nat (n div 10) @ [digit_char (n mod 10)])"

declare show_nat.simps [simp del]

definition show_int :: "int \<Rightarrow> string" where
  "show_int i = (if i < 0 then CHR ''-'' # show_nat (nat (- i)) else show_nat (nat i))"

definition read_nat :: "string \<Rightarrow> nat" where
  "read_nat s = foldl (\<lambda>v c. 10 * v + (of_char c - 48)) 0 s"

lemma of_digit_char: "d < 10 \<Longrightarrow> of_char (digit_char d) = (48 + d :: nat)"
  by (simp add: digit_char_def)

lemma read_show_nat: "read_nat (show_nat n) = n"
proof (induction n rule: show_nat.induct)
  case (1 n)
  show ?case
  proof (cases "n < 10")
    case True
    then show ?thesis by (simp add: show_nat.simps [of n] read_nat_def of_digit_char)
  next
    case False
    with 1 have "read_nat (show_nat (n div 10)) = n div 10" by simp
    with False show ?thesis
      by (simp add: show_nat.simps [of n] read_nat_def of_digit_char)
  qed
qed

lemma show_nat_no_minus: "CHR ''-'' \<notin> set (show_nat n)"
proof (induction n rule: show_nat.induct)
  case (1 n)
  have d: "CHR ''-'' \<noteq> digit_char d" if "d < 10" for d
  proof
    assume "CHR ''-'' = digit_char d"
    then have "(of_char (CHR ''-'') :: nat) = of_char (digit_char d)" by simp
    then show False by (simp add: of_digit_char [OF that])
  qed
  show ?case
    using 1 d by (subst show_nat.simps) auto
qed

lemma show_int_inj:
  assumes "show_int i = show_int j"
  shows "i = j"
proof -
  have neg: "(CHR ''-'' \<in> set (show_int k)) = (k < 0)" for k
    by (simp add: show_int_def show_nat_no_minus)
  have val: "read_nat (show_nat (nat \<bar>i\<bar>)) = read_nat (show_nat (nat \<bar>j\<bar>))"
    using assms neg [of i] neg [of j] by (auto simp: show_int_def split: if_splits)
  then have "\<bar>i\<bar> = \<bar>j\<bar>" by (simp add: read_show_nat)
  moreover have "(i < 0) = (j < 0)" using assms neg by metis
  ultimately show ?thesis by linarith
qed

subsection \<open>Joining paths\<close>

text \<open>
  \<open>path.Join(dir, name)\<close> for an absolute \<open>dir\<close>: the two joined by a slash, then cleaned
  lexically. Empty components and \<open>.\<close> disappear, \<open>..\<close> takes the component before it
  away, and at the root \<open>..\<close> is dropped.
\<close>

fun split_slash :: "string \<Rightarrow> string list" where
  "split_slash [] = [[]]"
| "split_slash (c # cs) =
     (if c = CHR ''/'' then [] # split_slash cs
      else case split_slash cs of [] \<Rightarrow> [[c]] | w # ws \<Rightarrow> (c # w) # ws)"

fun clean_step :: "string \<Rightarrow> string list \<Rightarrow> string list" where
  "clean_step c st = (if c = [] \<or> c = ''.'' then st else if c = ''..'' then tl st else c # st)"

definition path_components :: "string \<Rightarrow> string list" where
  "path_components p = rev (fold clean_step (split_slash p) [])"

definition clean_rooted :: "string \<Rightarrow> string" where
  "clean_rooted p =
     (let cs = path_components p
      in if cs = [] then ''/'' else concat (map (\<lambda>c. CHR ''/'' # c) cs))"

definition path_join :: "string \<Rightarrow> string \<Rightarrow> string" where
  "path_join dir name = clean_rooted (if name = [] then dir else dir @ ''/'' @ name)"

lemma split_slash_plain: "CHR ''/'' \<notin> set s \<Longrightarrow> split_slash s = [s]"
  by (induction s) auto

end
