(* ===== verification/Netip.thy ===== *)
theory Netip
  imports GoStrings "HOL-Library.Char_ord" "HOL-Library.List_Lexorder" "HOL-Library.Product_Lexorder"
begin

section \<open>Addresses: the part of \<open>net/netip\<close> the program uses\<close>

text \<open>
  \<open>netip.ParseAddr\<close>, \<open>netip.MustParseAddr\<close>, \<open>Addr.IsMulticast\<close>, \<open>Addr.Compare\<close> and \<open>Addr.AsSlice\<close> of Go 1.24's standard library, the version the build
  uses. The validator and the interface code of the program call them on the VxLAN group of a
  LAN. Every error of the parser is kept as a constructor.
\<close>

unbundle bit_operations_syntax

subsection \<open>Addresses and parse errors\<close>

type_synonym byte = "8 word"

text \<open>An IPv4 address of 4 bytes, or an IPv6 address of 16 bytes with its zone.\<close>

datatype addr = Addr4 "byte list" | Addr6 "byte list" string

datatype parse_error =
    MissingIPv6Address | UnableToParse
  | LeadingZero | OctetTooBig | OctetNoDigit | IPv4TooLong | IPv4TooShort | UnexpectedChar
  | EmptyZone | GroupTooLong | FieldTooBig | FieldNoDigit | IPv4NotAtEnd | NoRoomForIPv4
  | WantColon | ColonAtEnd | MultipleEllipsis | TrailingGarbage | IPv6TooShort | EllipsisEmpty

definition wf_addr :: "addr \<Rightarrow> bool" where
  "wf_addr a \<longleftrightarrow> (case a of Addr4 bs \<Rightarrow> length bs = 4 | Addr6 bs _ \<Rightarrow> length bs = 16)"

subsection \<open>IPv4 fields\<close>

definition dec_digit :: "char \<Rightarrow> nat option" where
  "dec_digit c = (let n = of_char c in if 48 \<le> n \<and> n \<le> 57 then Some (n - 48) else None)"

text \<open>
  \<open>parseIPv4Fields\<close>: \<open>val\<close> and \<open>dl\<close> are the value and the number of digits of the octet being
  read (\<open>dl = 0\<close> exactly at the start and right after a dot), \<open>fs\<close> the octets before it.
\<close>

fun ipv4_fields :: "string \<Rightarrow> nat \<Rightarrow> nat \<Rightarrow> byte list \<Rightarrow> parse_error + byte list" where
  "ipv4_fields [] val dl fs =
     (if length fs < 3 then Inl IPv4TooShort else Inr (fs @ [of_nat val]))"
| "ipv4_fields (c # cs) val dl fs =
     (case dec_digit c of
       Some d \<Rightarrow>
         (if dl = 1 \<and> val = 0 then Inl LeadingZero
          else if val * 10 + d > 255 then Inl OctetTooBig
          else ipv4_fields cs (val * 10 + d) (dl + 1) fs)
     | None \<Rightarrow>
         (if c = CHR ''.'' then
            (if dl = 0 \<or> cs = [] then Inl OctetNoDigit
             else if length fs = 3 then Inl IPv4TooLong
             else ipv4_fields cs 0 0 (fs @ [of_nat val]))
          else Inl UnexpectedChar))"

definition parse_ipv4 :: "string \<Rightarrow> parse_error + addr" where
  "parse_ipv4 s = and_then (ipv4_fields s 0 0 []) (\<lambda>fs. Inr (Addr4 fs))"

subsection \<open>IPv6\<close>

definition hex_digit :: "char \<Rightarrow> nat option" where
  "hex_digit c =
     (let n = of_char c
      in if 48 \<le> n \<and> n \<le> 57 then Some (n - 48)
         else if 97 \<le> n \<and> n \<le> 102 then Some (n - 87)
         else if 65 \<le> n \<and> n \<le> 70 then Some (n - 55) else None)"

text \<open>One group: the number of its digits, its value, and what follows it.\<close>

fun hex_group :: "string \<Rightarrow> nat \<Rightarrow> nat \<Rightarrow> parse_error + (nat \<times> nat \<times> string)" where
  "hex_group [] off acc = Inr (off, acc, [])"
| "hex_group (c # cs) off acc =
     (case hex_digit c of
       None \<Rightarrow> Inr (off, acc, c # cs)
     | Some d \<Rightarrow>
         (if off > 3 then Inl GroupTooLong
          else if acc * 16 + d > 65535 then Inl FieldTooBig
          else hex_group cs (off + 1) (acc * 16 + d)))"

text \<open>
  The main loop of \<open>parseIPv6\<close>: \<open>ip\<close> holds the bytes written so far (the source's \<open>i\<close> is
  its length) and \<open>ell\<close> the position of the ellipsis. The result is what is left of the
  string with the two.
\<close>

function ipv6_loop :: "string \<Rightarrow> byte list \<Rightarrow> nat option \<Rightarrow> parse_error + (string \<times> byte list \<times> nat option)" where
  "ipv6_loop s ip ell =
     (if 16 \<le> length ip then Inr (s, ip, ell)
      else case hex_group s 0 0 of
        Inl e \<Rightarrow> Inl e
      | Inr (off, acc, rest) \<Rightarrow>
          if off = 0 then Inl FieldNoDigit
          else if rest \<noteq> [] \<and> hd rest = CHR ''.'' then
            (if ell = None \<and> length ip \<noteq> 12 then Inl IPv4NotAtEnd
             else if length ip + 4 > 16 then Inl NoRoomForIPv4
             else and_then (ipv4_fields s 0 0 []) (\<lambda>fs. Inr ([], ip @ fs, ell)))
          else
            (case rest of
              [] \<Rightarrow> Inr ([], ip @ [of_nat (acc div 256), of_nat acc], ell)
            | c # s1 \<Rightarrow>
                if c \<noteq> CHR '':'' then Inl WantColon
                else (case s1 of
                    [] \<Rightarrow> Inl ColonAtEnd
                  | d # s2 \<Rightarrow>
                      if d = CHR '':'' then
                        (if ell \<noteq> None then Inl MultipleEllipsis
                         else if s2 = [] then
                           Inr ([], ip @ [of_nat (acc div 256), of_nat acc], Some (length ip + 2))
                         else ipv6_loop s2 (ip @ [of_nat (acc div 256), of_nat acc]) (Some (length ip + 2)))
                      else ipv6_loop s1 (ip @ [of_nat (acc div 256), of_nat acc]) ell)))"
  by pat_completeness auto
termination
  by (relation "measure (\<lambda>(s, ip, ell). 16 - length ip)") auto

declare ipv6_loop.simps [simp del]

text \<open>The end of \<open>parseIPv6\<close>: nothing may be left, and an ellipsis is filled with zeros.\<close>

definition ipv6_finish :: "string \<times> byte list \<times> nat option \<Rightarrow> string \<Rightarrow> parse_error + addr" where
  "ipv6_finish r zone =
     (case r of (s, ip, ell) \<Rightarrow>
       if s \<noteq> [] then Inl TrailingGarbage
       else if length ip < 16 then
         (case ell of
           None \<Rightarrow> Inl IPv6TooShort
         | Some e \<Rightarrow> Inr (Addr6 (take e ip @ replicate (16 - length ip) 0 @ drop e ip) zone))
       else if ell \<noteq> None then Inl EllipsisEmpty
       else Inr (Addr6 ip zone))"

definition parse_ipv6 :: "string \<Rightarrow> parse_error + addr" where
  "parse_ipv6 s0 =
     (let s = takeWhile (\<lambda>c. c \<noteq> CHR ''%'') s0; z = dropWhile (\<lambda>c. c \<noteq> CHR ''%'') s0;
          zone = tl z
      in if z \<noteq> [] \<and> zone = [] then Inl EmptyZone
         else if HasPrefix s ''::'' then
           (if drop 2 s = [] then Inr (Addr6 (replicate 16 0) zone)
            else and_then (ipv6_loop (drop 2 s) [] (Some 0)) (\<lambda>r. ipv6_finish r zone))
         else and_then (ipv6_loop s [] None) (\<lambda>r. ipv6_finish r zone))"

subsection \<open>ParseAddr and the questions asked of an address\<close>

text \<open>The first of \<open>.\<close>, \<open>:\<close> and \<open>%\<close> in the string decides what it is parsed as.\<close>

definition ParseAddr :: "string \<Rightarrow> parse_error + addr" where
  "ParseAddr s =
     (case dropWhile (\<lambda>c. c \<notin> {CHR ''.'', CHR '':'', CHR ''%''}) s of
       [] \<Rightarrow> Inl UnableToParse
     | c # _ \<Rightarrow>
         if c = CHR ''.'' then parse_ipv4 s
         else if c = CHR '':'' then parse_ipv6 s
         else Inl MissingIPv6Address)"

definition MustParseAddr :: "string \<Rightarrow> ('e, addr) outcome" where
  "MustParseAddr s = (case ParseAddr s of Inl _ \<Rightarrow> Inl (Panic ''ParseAddr'') | Inr a \<Rightarrow> Inr a)"

fun Is4In6 :: "addr \<Rightarrow> bool" where
  "Is4In6 (Addr4 _) = False"
| "Is4In6 (Addr6 bs _) = (take 12 bs = replicate 10 0 @ [255, 255])"

text \<open>\<open>IsMulticast\<close>: an IPv4 address inside an IPv6 one counts as the IPv4 address.\<close>

fun IsMulticast :: "addr \<Rightarrow> bool" where
  "IsMulticast (Addr4 bs) = (hd bs AND 0xF0 = 0xE0)"
| "IsMulticast (Addr6 bs z) =
     (if Is4In6 (Addr6 bs z) then bs ! 12 AND 0xF0 = 0xE0 else hd bs = 0xFF)"

fun AsSlice :: "addr \<Rightarrow> byte list" where
  "AsSlice (Addr4 bs) = bs"
| "AsSlice (Addr6 bs _) = bs"

fun BitLen :: "addr \<Rightarrow> nat" where
  "BitLen (Addr4 _) = 32"
| "BitLen (Addr6 _ _) = 128"

fun Zone :: "addr \<Rightarrow> string" where
  "Zone (Addr4 _) = []"
| "Zone (Addr6 _ z) = z"

text \<open>\<open>Compare\<close>: by length, then by the bytes, then by the zone.\<close>

definition Compare :: "addr \<Rightarrow> addr \<Rightarrow> int" where
  "Compare a b =
     (if BitLen a < BitLen b then -1 else if BitLen a > BitLen b then 1
      else if AsSlice a < AsSlice b then -1 else if AsSlice a > AsSlice b then 1
      else if Zone a < Zone b then -1 else if Zone a > Zone b then 1 else 0)"

definition addr_key :: "addr \<Rightarrow> nat \<times> byte list \<times> string" where
  "addr_key a = (BitLen a, AsSlice a, Zone a)"

lemma addr_key_inj: "addr_key a = addr_key b \<longleftrightarrow> a = b"
  by (cases a; cases b) (auto simp: addr_key_def)

text \<open>It is a linear order on addresses.\<close>

instantiation addr :: linorder
begin

definition less_eq_addr_def: "a \<le> b \<longleftrightarrow> addr_key a \<le> addr_key b"
definition less_addr_def: "a < b \<longleftrightarrow> addr_key a < addr_key b"

instance
  by standard (auto simp: less_eq_addr_def less_addr_def addr_key_inj less_le_not_le [of "addr_key x" "addr_key y" for x y]
      dest: order_antisym)

end

lemma Compare_order: "Compare a b = (if a < b then -1 else if b < a then 1 else 0)"
  by (auto simp: Compare_def less_addr_def addr_key_def less_prod_def)

lemma Compare_eq_0 [simp]: "Compare a b = 0 \<longleftrightarrow> a = b"
  by (auto simp: Compare_order)

subsection \<open>Printing: \<open>net.IP.String\<close>\<close>

text \<open>
  \<open>net.IP\<close> is a byte slice. Its text is dotted decimal for 4 bytes and for the 16 bytes of an
  IPv4 address inside an IPv6 one, and otherwise the eight groups in lower-case hexadecimal
  with the first longest run of at least two zero groups left out.
\<close>

definition hex_char :: "nat \<Rightarrow> char" where
  "hex_char d = (if d < 10 then char_of (48 + d) else char_of (87 + d))"

fun show_hex :: "nat \<Rightarrow> string" where
  "show_hex n = (if n < 16 then [hex_char n] else show_hex (n div 16) @ [hex_char (n mod 16)])"

declare show_hex.simps [simp del]

fun join_with :: "string \<Rightarrow> string list \<Rightarrow> string" where
  "join_with sep [] = []"
| "join_with sep [s] = s"
| "join_with sep (s # t # ts) = s @ sep @ join_with sep (t # ts)"

definition string4 :: "byte list \<Rightarrow> string" where
  "string4 bs = join_with ''.'' (map (\<lambda>b. show_nat (unat b)) bs)"

fun groups_of :: "byte list \<Rightarrow> nat list" where
  "groups_of (a # b # bs) = (unat a * 256 + unat b) # groups_of bs"
| "groups_of _ = []"

definition zero_run :: "nat list \<Rightarrow> nat \<Rightarrow> nat" where
  "zero_run gs i = length (takeWhile (\<lambda>g. g = 0) (drop i gs))"

text \<open>The start and the length of the run to leave out; length 0 for none.\<close>

definition best_run :: "nat list \<Rightarrow> nat \<times> nat" where
  "best_run gs =
     fold (\<lambda>i (st, len). let l = zero_run gs i in if 2 \<le> l \<and> len < l then (i, l) else (st, len))
       [0..<8] (255, 0)"

definition string6 :: "byte list \<Rightarrow> string" where
  "string6 bs =
     (let gs = groups_of bs
      in case best_run gs of (st, len) \<Rightarrow>
        if len = 0 then join_with '':'' (map show_hex gs)
        else join_with '':'' (map show_hex (take st gs)) @ ''::'' @
             join_with '':'' (map show_hex (drop (st + len) gs)))"

definition hex_byte :: "byte \<Rightarrow> string" where
  "hex_byte b = [hex_char (unat b div 16), hex_char (unat b mod 16)]"

definition IP_String :: "byte list \<Rightarrow> string" where
  "IP_String ip =
     (if ip = [] then ''<nil>''
      else if length ip \<noteq> 4 \<and> length ip \<noteq> 16 then ''?'' @ concat (map hex_byte ip)
      else if length ip = 4 then string4 ip
      else if take 12 ip = replicate 10 0 @ [255, 255] then string4 (drop 12 ip)
      else string6 ip)"

subsection \<open>What the parser returns\<close>

lemma MustParseAddr_Inr_iff [outcome]: "MustParseAddr s = Inr a \<longleftrightarrow> ParseAddr s = Inr a"
  by (simp add: MustParseAddr_def split: sum.splits)

lemma MustParseAddr_panics_iff [outcome]: "panics (MustParseAddr s) \<longleftrightarrow> (\<exists>e. ParseAddr s = Inl e)"
  by (simp add: MustParseAddr_def split: sum.splits)

lemma ipv4_fields_length: "ipv4_fields s val dl fs = Inr gs \<Longrightarrow> length fs \<le> 3 \<Longrightarrow> length gs = 4"
  by (induction s val dl fs rule: ipv4_fields.induct) (auto split: option.splits if_splits)

definition loop_inv :: "byte list \<Rightarrow> nat option \<Rightarrow> bool" where
  "loop_inv ip ell \<longleftrightarrow>
     even (length ip) \<and> length ip \<le> 16 \<and> (case ell of None \<Rightarrow> True | Some e \<Rightarrow> e \<le> length ip)"

lemma loop_inv_group:
  assumes "loop_inv ip ell" and "length ip < 16"
  shows "loop_inv (ip @ [a, b]) ell" and "loop_inv (ip @ [a, b]) (Some (length ip + 2))"
  using assms by (auto simp: loop_inv_def elim!: evenE split: option.splits)

lemma ipv6_loop_inv:
  "ipv6_loop s ip ell = Inr (s', ip', ell') \<Longrightarrow> loop_inv ip ell \<Longrightarrow> loop_inv ip' ell'"
proof (induction s ip ell rule: ipv6_loop.induct)
  case (1 s ip ell)
  show ?case
  proof (cases "16 \<le> length ip")
    case True
    with "1.prems" show ?thesis by (simp add: ipv6_loop.simps [of s])
  next
    case room: False
    with "1.prems"(1) obtain off acc rest where g: "hex_group s 0 0 = Inr (off, acc, rest)"
      by (auto simp: ipv6_loop.simps [of s] split: sum.splits)
    from room "1.prems"(1) g have off: "off \<noteq> 0"
      by (cases "off = 0") (simp_all add: ipv6_loop.simps [of s])
    show ?thesis
    proof (cases "rest \<noteq> [] \<and> hd rest = CHR ''.''")
      case True
      with room "1.prems" g off show ?thesis
        by (auto simp: ipv6_loop.simps [of s] and_then_Inr_iff loop_inv_def
            dest!: ipv4_fields_length split: if_splits option.splits)
    next
      case nodot: False
      note IH = "1.IH" [OF room g refl refl off nodot]
      note inv = loop_inv_group [OF "1.prems"(2)]
      show ?thesis
      proof (cases rest)
        case Nil
        with room nodot off g inv(1) "1.prems"(1) show ?thesis
          by (auto simp: ipv6_loop.simps [of s])
      next
        case (Cons c s1)
        with room nodot off g "1.prems"(1) have c: "c = CHR '':''" and s1: "s1 \<noteq> []"
          by (auto simp: ipv6_loop.simps [of s] split: if_splits)
        then obtain d s2 where s2: "s1 = d # s2" by (cases s1) auto
        have unf: "ipv6_loop s ip ell =
            (if d = CHR '':'' then
               (if ell \<noteq> None then Inl MultipleEllipsis
                else if s2 = [] then
                  Inr ([], ip @ [of_nat (acc div 256), of_nat acc], Some (length ip + 2))
                else ipv6_loop s2 (ip @ [of_nat (acc div 256), of_nat acc]) (Some (length ip + 2)))
             else ipv6_loop s1 (ip @ [of_nat (acc div 256), of_nat acc]) ell)"
          using room g off nodot Cons c s2 by (subst ipv6_loop.simps) simp
        show ?thesis
          using "1.prems"(1) inv IH(1) [OF Cons _ s2] IH(2) [OF Cons _ s2] c room
          unfolding unf by (auto split: if_splits)
      qed
    qed
  qed
qed

lemma ipv6_finish_wf: "ipv6_finish (s, ip, ell) zone = Inr a \<Longrightarrow> loop_inv ip ell \<Longrightarrow> wf_addr a"
  by (auto simp: ipv6_finish_def loop_inv_def wf_addr_def split: if_splits option.splits)

lemma parse_ipv6_wf:
  assumes "parse_ipv6 s = Inr a"
  shows "wf_addr a"
proof -
  have inv: "loop_inv [] None" "loop_inv [] (Some 0)" by (simp_all add: loop_inv_def)
  have wf: "wf_addr a"
    if "and_then (ipv6_loop t [] ell) (\<lambda>r. ipv6_finish r zone) = Inr a" "loop_inv [] ell" for t ell zone
    using that ipv6_loop_inv ipv6_finish_wf by (fastforce simp: and_then_Inr_iff)
  show ?thesis
    using assms inv wf by (auto simp: parse_ipv6_def Let_def wf_addr_def split: if_splits)
qed

lemma ParseAddr_wf: "ParseAddr s = Inr a \<Longrightarrow> wf_addr a"
  by (auto simp: ParseAddr_def parse_ipv4_def and_then_Inr_iff wf_addr_def
      dest: parse_ipv6_wf ipv4_fields_length split: list.splits if_splits)

subsection \<open>No zone in a printed address\<close>

lemma ParseAddr_no_zone:
  assumes "CHR ''%'' \<notin> set s" and "ParseAddr s = Inr (Addr6 bs z)"
  shows "z = []"
proof -
  have drop: "dropWhile (\<lambda>c. c \<noteq> CHR ''%'') s = []" using assms(1) by (auto simp: dropWhile_eq_Nil_conv)
  have fin: "z = []" if "ipv6_finish r [] = Inr (Addr6 bs z)" for r
    using that by (auto simp: ipv6_finish_def split: prod.splits if_splits option.splits)
  from assms(2) have "parse_ipv6 s = Inr (Addr6 bs z)"
    by (auto simp: ParseAddr_def parse_ipv4_def outcome split: list.splits if_splits)
  then show ?thesis
    using fin by (auto simp: parse_ipv6_def drop Let_def outcome split: if_splits)
qed

lemma show_nat_chars: "c \<in> set (show_nat n) \<Longrightarrow> \<exists>d < 10. c = digit_char d"
proof (induction n rule: show_nat.induct)
  case (1 n)
  have "\<exists>d < 10. digit_char (n mod 10) = digit_char d" by (intro exI [of _ "n mod 10"]) simp
  with 1 show ?case
    by (subst (asm) (2) show_nat.simps) (auto split: if_splits)
qed

lemma show_hex_chars: "c \<in> set (show_hex n) \<Longrightarrow> \<exists>d < 16. c = hex_char d"
proof (induction n rule: show_hex.induct)
  case (1 n)
  have "\<exists>d < 16. hex_char (n mod 16) = hex_char d" by (intro exI [of _ "n mod 16"]) simp
  with 1 show ?case
    by (subst (asm) (2) show_hex.simps) (auto split: if_splits)
qed

lemma digit_not_percent: "d < 10 \<Longrightarrow> digit_char d \<noteq> CHR ''%''"
proof
  assume d: "d < 10" and "digit_char d = CHR ''%''"
  then have "of_char (digit_char d) = (of_char (CHR ''%'') :: nat)" by simp
  with of_digit_char [OF d] show False by simp
qed

lemma hex_not_percent: "d < 16 \<Longrightarrow> hex_char d \<noteq> CHR ''%''"
proof
  assume d: "d < 16" and "hex_char d = CHR ''%''"
  then have "of_char (hex_char d) = (of_char (CHR ''%'') :: nat)" by simp
  with d show False by (auto simp: hex_char_def split: if_splits)
qed

lemma set_join_with: "set (join_with sep xs) \<subseteq> set sep \<union> (\<Union>x \<in> set xs. set x)"
  by (induction sep xs rule: join_with.induct) auto

lemma string6_no_percent: "CHR ''%'' \<notin> set (string6 bs)"
proof -
  have "CHR ''%'' \<notin> set (join_with '':'' (map show_hex gs))" for gs
    using set_join_with [of "'':''" "map show_hex gs"] show_hex_chars hex_not_percent by fastforce
  then show ?thesis by (auto simp: string6_def Let_def split: prod.splits)
qed

lemma IP_String_no_percent: "CHR ''%'' \<notin> set (IP_String ip)"
proof -
  have four: "CHR ''%'' \<notin> set (string4 bs)" for bs
    using set_join_with [of "''.''" "map (\<lambda>b. show_nat (unat b)) bs"] show_nat_chars digit_not_percent
    by (fastforce simp: string4_def)
  have byte: "CHR ''%'' \<notin> set (hex_byte b)" for b
  proof -
    have "unat b < 256" using unsigned_less [of b] by simp
    then have "unat b div 16 < 16" by simp
    then show ?thesis using hex_not_percent [of "unat b div 16"] hex_not_percent [of "unat b mod 16"]
      by (auto simp: hex_byte_def)
  qed
  show ?thesis using four string6_no_percent byte by (auto simp: IP_String_def)
qed

end
