(* ===== verification/LanTypes.thy ===== *)
theory LanTypes
  imports Netip
begin

section \<open>The LAN resource: its type, validation, naming and attachment definitions\<close>

text \<open>
  Models \<open>api/v1beta1/lan_types.go\<close>. First the resource as the Go structs have it, then
  \<open>Validate\<close> with its checks in source order, then the names of the device-plugin resources
  derived from a spoke, and last \<open>GetNADs\<close>. The contract of the naming functions, on which
  the controller, the device plugin and its lister rely, is the locale
  \<open>resource_naming\<close>.
\<close>

subsection \<open>Kubernetes metadata\<close>

text \<open>
  The fields of \<open>metav1.TypeMeta\<close>, \<open>metav1.ObjectMeta\<close> and \<open>metav1.OwnerReference\<close> the program
  reads or writes. A deletion timestamp that is nil, or the zero time, means that the object
  is not being deleted.
\<close>

record TypeMeta =
  APIVersion :: string
  Kind :: string

record OwnerReference =
  OwnerAPIVersion :: string
  OwnerKind :: string
  OwnerName :: string
  IsController :: bool

record ObjectMeta =
  Name :: string
  Namespace :: string
  Annotations :: "(string, string) gomap"
  Finalizers :: "string list"
  DeletionTimestamp :: "nat option"
  OwnerReferences :: "OwnerReference list"

definition IsZero :: "nat option \<Rightarrow> bool" where
  "IsZero t \<longleftrightarrow> (case t of None \<Rightarrow> True | Some n \<Rightarrow> n = 0)"

definition empty_meta :: ObjectMeta where
  "empty_meta = \<lparr>Name = '''', Namespace = '''', Annotations = None, Finalizers = [],
     DeletionTimestamp = None, OwnerReferences = []\<rparr>"

subsection \<open>The resource\<close>

type_synonym int32 = "32 word"

definition DefaultVxPort :: int32 where
  "DefaultVxPort = 4789"

definition DefaultVxGrp :: string where
  "DefaultVxGrp = ''FF02:0:0:0:0:0:0:14''"

record LANSpec =
  NS :: "string option"
  BridgeName :: "string option"
  VxLANName :: "string option"
  VNI :: "int32 option"
  VxLANGrp :: "string option"
  DefaultVxDev :: string
  VxDevMap :: "(string, string) gomap"
  VxPort :: "int32 option"
  SpokeList :: "string slice"

text \<open>\<open>metav1.Condition\<close> is a type the program never looks into.\<close>

typedecl Condition

record LANStatus =
  Conditions :: "Condition slice"

record LAN =
  LANType :: TypeMeta
  LANMeta :: ObjectMeta
  Spec :: LANSpec
  Status :: LANStatus

definition maxLinuxIfNameLen :: nat where
  "maxLinuxIfNameLen = 13"

definition FinalizerPrefix :: string where
  "FinalizerPrefix = ''finalizer.k8slan.io''"

subsection \<open>Validation\<close>

datatype lan_error =
    BadIfNameLength string
  | NSNotSpecified
  | InvalidVNI int32
  | NotAnAddress string parse_error
  | NotMulticast string
  | BadSpokeCount nat

definition checkInterfaceName :: "string \<Rightarrow> (lan_error, unit) outcome" where
  "checkInterfaceName ifname =
     (let nlen = length ifname
      in if nlen = 0 \<or> nlen > maxLinuxIfNameLen then Inl (Error (BadIfNameLength ifname))
         else Inr ())"

definition Validate :: "LANSpec \<Rightarrow> (lan_error, unit) outcome" where
  "Validate spec =
     and_then (deref (BridgeName spec)) (\<lambda>bridge.
     and_then (checkInterfaceName bridge) (\<lambda>_.
     and_then (deref (VxLANName spec)) (\<lambda>vxlan.
     and_then (checkInterfaceName vxlan) (\<lambda>_.
     and_then (deref (NS spec)) (\<lambda>ns.
     if TrimSpace ns = '''' then Inl (Error NSNotSpecified) else
     and_then (deref (VNI spec)) (\<lambda>vni.
     if sint vni \<le> 0 \<or> sint vni > 0xFFFFFF then Inl (Error (InvalidVNI vni)) else
     and_then (deref (VxLANGrp spec)) (\<lambda>grp.
     case ParseAddr grp of
       Inl e \<Rightarrow> Inl (Error (NotAnAddress grp e))
     | Inr addr \<Rightarrow>
         if \<not> IsMulticast addr then Inl (Error (NotMulticast grp))
         else if length (elems (SpokeList spec)) = 0 \<or> length (elems (SpokeList spec)) > 4095
         then Inl (Error (BadSpokeCount (length (elems (SpokeList spec)))))
         else each checkInterfaceName (elems (SpokeList spec)))))))))"

text \<open>What a specification that passes looks like.\<close>

definition ifname_ok :: "string \<Rightarrow> bool" where
  "ifname_ok s \<longleftrightarrow> 1 \<le> length s \<and> length s \<le> 13"

definition valid_spec :: "LANSpec \<Rightarrow> bool" where
  "valid_spec spec \<longleftrightarrow>
     (\<exists>bridge. BridgeName spec = Some bridge \<and> ifname_ok bridge) \<and>
     (\<exists>vxlan. VxLANName spec = Some vxlan \<and> ifname_ok vxlan) \<and>
     (\<exists>ns. NS spec = Some ns \<and> \<not> blank ns) \<and>
     (\<exists>vni. VNI spec = Some vni \<and> 1 \<le> sint vni \<and> sint vni \<le> 16777215) \<and>
     (\<exists>grp a. VxLANGrp spec = Some grp \<and> ParseAddr grp = Inr a \<and> IsMulticast a) \<and>
     1 \<le> length (elems (SpokeList spec)) \<and> length (elems (SpokeList spec)) \<le> 4095 \<and>
     (\<forall>s \<in> set (elems (SpokeList spec)). ifname_ok s)"

text \<open>Every field the API server requires is there (the \<open>required\<close> list of the CRD).\<close>

definition required_set :: "LANSpec \<Rightarrow> bool" where
  "required_set spec \<longleftrightarrow>
     BridgeName spec \<noteq> None \<and> VxLANName spec \<noteq> None \<and> NS spec \<noteq> None \<and> VNI spec \<noteq> None \<and>
     VxLANGrp spec \<noteq> None"

lemma checkInterfaceName_Inr_iff [outcome]: "checkInterfaceName s = Inr u \<longleftrightarrow> ifname_ok s"
  by (auto simp: checkInterfaceName_def ifname_ok_def maxLinuxIfNameLen_def Let_def Suc_le_eq)

lemma checkInterfaceName_Inl_iff [failure]:
  "checkInterfaceName s = Inl f \<longleftrightarrow> \<not> ifname_ok s \<and> f = Error (BadIfNameLength s)"
  by (auto simp: checkInterfaceName_def ifname_ok_def maxLinuxIfNameLen_def Let_def Suc_le_eq)

lemma checkInterfaceName_no_panic [simp]: "\<not> panics (checkInterfaceName s)"
  by (auto simp: checkInterfaceName_def Let_def)

lemma Validate_Inr: "Validate spec = Inr () \<longleftrightarrow> valid_spec spec"
  unfolding Validate_def valid_spec_def outcome TrimSpace_empty_iff
  by (auto simp: not_le not_less Suc_le_eq)

lemma Validate_no_panic: "required_set spec \<Longrightarrow> \<not> panics (Validate spec)"
  by (auto simp: Validate_def required_set_def outcome each_no_panic)

lemma valid_required: "valid_spec spec \<Longrightarrow> required_set spec"
  by (auto simp: valid_spec_def required_set_def)

text \<open>Which check speaks first: each error says that every check before it passed.\<close>

lemma Validate_InvalidVNI_iff:
  "Validate spec = Inl (Error (InvalidVNI v)) \<longleftrightarrow>
     (\<exists>bridge vxlan ns. BridgeName spec = Some bridge \<and> ifname_ok bridge \<and>
        VxLANName spec = Some vxlan \<and> ifname_ok vxlan \<and> NS spec = Some ns \<and> \<not> blank ns) \<and>
     VNI spec = Some v \<and> (sint v \<le> 0 \<or> 16777215 < sint v)"
proof -
  have loop: "each checkInterfaceName xs \<noteq> Inl (Error (InvalidVNI v))" for xs
    by (auto simp: checkInterfaceName_Inl_iff elim!: each_InlE)
  show ?thesis
    unfolding Validate_def failure outcome TrimSpace_empty_iff
    using loop by auto
qed

lemma each_checkInterfaceName_first:
  assumes "\<forall>y \<in> set ys. ifname_ok y" and "\<not> ifname_ok x"
  shows "each checkInterfaceName (ys @ x # zs) = Inl (Error (BadIfNameLength x))"
  using assms
proof (induction ys)
  case Nil
  then have "checkInterfaceName x = Inl (Error (BadIfNameLength x))"
    by (simp add: checkInterfaceName_Inl_iff)
  then show ?case by simp
next
  case (Cons y ys)
  then have "checkInterfaceName y = Inr ()" by (simp add: checkInterfaceName_Inr_iff)
  with Cons show ?case by simp
qed

subsection \<open>Names of device-plugin resources\<close>

definition ResourceNamespace :: string where
  "ResourceNamespace = ''macvtap.k8slan.io''"

definition MACVTAPPreffix :: string where
  "MACVTAPPreffix = ''k8slan-mac-''"

definition VETHPreffix :: string where
  "VETHPreffix = ''k8slan-veth-''"

definition IsMACVTAPResource :: "string \<Rightarrow> bool" where
  "IsMACVTAPResource resName = HasPrefix resName MACVTAPPreffix"

definition GetDPResouceName :: "string \<Rightarrow> bool \<Rightarrow> string" where
  "GetDPResouceName name isDummyMac =
     (if isDummyMac then VETHPreffix @ name else MACVTAPPreffix @ name)"

definition GetNADName :: "string \<Rightarrow> bool \<Rightarrow> string" where
  "GetNADName name isVeth = GetDPResouceName name isVeth"

definition GetSpokeNameFromResourceName :: "string \<Rightarrow> string" where
  "GetSpokeNameFromResourceName resName =
     (if HasPrefix resName VETHPreffix then remove_all VETHPreffix resName
      else if HasPrefix resName MACVTAPPreffix then remove_all MACVTAPPreffix resName
      else ''badname'')"

text \<open>
  What a component that handles resources relies on: the two names of a spoke tell the spoke
  and the kind of attachment, and the spoke can be read back. The code's functions give the
  last law only for spokes that do not contain a prefix themselves.
\<close>

locale resource_naming =
  fixes name_of :: "string \<Rightarrow> bool \<Rightarrow> string"
    and spoke_of :: "string \<Rightarrow> string"
    and is_mac :: "string \<Rightarrow> bool"
    and readable :: "string \<Rightarrow> bool \<Rightarrow> bool"
  assumes name_inj: "name_of s k = name_of s' k' \<Longrightarrow> s = s' \<and> k = k'"
    and is_mac_name: "is_mac (name_of s k) \<longleftrightarrow> \<not> k"
    and spoke_of_name: "readable s k \<Longrightarrow> spoke_of (name_of s k) = s"
begin

lemma name_eq_iff: "name_of s k = name_of s' k' \<longleftrightarrow> s = s' \<and> k = k'"
  using name_inj by blast

lemma names_distinct:
  "distinct spokes \<Longrightarrow> distinct (concat (map (\<lambda>s. [name_of s True, name_of s False]) spokes))"
  by (induction spokes) (auto simp: name_eq_iff)

lemma names_set:
  "n \<in> set (concat (map (\<lambda>s. [name_of s True, name_of s False]) spokes)) \<longleftrightarrow>
     (\<exists>s k. s \<in> set spokes \<and> n = name_of s k)"
proof -
  have "(\<exists>k. n = name_of s k) \<longleftrightarrow> n = name_of s True \<or> n = name_of s False" for s
    by (metis (full_types))
  then show ?thesis by auto
qed

text \<open>Resources of two LANs meet only where the LANs share a spoke.\<close>

lemma names_disjoint:
  assumes "set spokes \<inter> set spokes' = {}"
  shows "set (concat (map (\<lambda>s. [name_of s True, name_of s False]) spokes)) \<inter>
         set (concat (map (\<lambda>s. [name_of s True, name_of s False]) spokes')) = {}"
  using assms name_inj by (blast dest: names_set [THEN iffD1])

end

lemmas naming_defs = GetDPResouceName_def VETHPreffix_def MACVTAPPreffix_def

lemma GetDPResouceName_inj:
  "GetDPResouceName s k = GetDPResouceName s' k' \<Longrightarrow> s = s' \<and> k = k'"
  by (auto simp: naming_defs split: if_splits)

lemma IsMACVTAPResource_name: "IsMACVTAPResource (GetDPResouceName s k) \<longleftrightarrow> \<not> k"
  by (auto simp: IsMACVTAPResource_def HasPrefix_def naming_defs)

lemma IsVETHResource_name: "HasPrefix (GetDPResouceName s k) VETHPreffix \<longleftrightarrow> k"
  by (auto simp: HasPrefix_def naming_defs)

definition readable_spoke :: "string \<Rightarrow> bool \<Rightarrow> bool" where
  "readable_spoke s k \<longleftrightarrow> \<not> sublist (if k then VETHPreffix else MACVTAPPreffix) s"

lemma spoke_of_resource:
  "GetSpokeNameFromResourceName (GetDPResouceName s k) =
     remove_all (if k then VETHPreffix else MACVTAPPreffix) s"
proof -
  have "\<not> HasPrefix (MACVTAPPreffix @ s) VETHPreffix"
    using IsVETHResource_name [of s False] by (simp add: GetDPResouceName_def)
  moreover have "VETHPreffix \<noteq> []" "MACVTAPPreffix \<noteq> []"
    by (simp_all add: naming_defs)
  ultimately show ?thesis
    by (simp add: GetSpokeNameFromResourceName_def GetDPResouceName_def remove_all_prefix)
qed

lemma spoke_of_resource_iff:
  "GetSpokeNameFromResourceName (GetDPResouceName s k) = s \<longleftrightarrow> readable_spoke s k"
proof -
  have "VETHPreffix \<noteq> []" "MACVTAPPreffix \<noteq> []"
    by (simp_all add: naming_defs)
  then show ?thesis
    by (simp add: spoke_of_resource readable_spoke_def remove_all_id_iff)
qed

interpretation naming: resource_naming GetDPResouceName GetSpokeNameFromResourceName
  IsMACVTAPResource readable_spoke
  by unfold_locales
    (auto simp: IsMACVTAPResource_name spoke_of_resource_iff dest: GetDPResouceName_inj)

subsection \<open>Network attachment definitions\<close>

text \<open>The fields of the \<open>NetworkAttachmentDefinition\<close> the program fills in.\<close>

record NAD =
  NADType :: TypeMeta
  NADMeta :: ObjectMeta
  Config :: string

text \<open>A line of the JSON templates: the indentation, a key and its value in quotes.\<close>

definition json_field :: "string \<Rightarrow> string \<Rightarrow> string \<Rightarrow> string" where
  "json_field indent key v =
     [CHR 0x0A] @ indent @ [CHR 0x22] @ key @ [CHR 0x22] @ '': '' @ [CHR 0x22] @ v @ [CHR 0x22]"

definition macvtap_config :: "string \<Rightarrow> string" where
  "macvtap_config name =
     ''{'' @ json_field ''      '' ''cniVersion'' ''0.3.1'' @ '',''
          @ json_field ''      '' ''name'' name @ '',''
          @ json_field ''      '' ''type'' ''macvtap''
          @ [CHR 0x0A] @ ''    }''"

definition veth_config :: "string \<Rightarrow> string \<Rightarrow> string" where
  "veth_config name veth =
     ''{'' @ json_field ''      '' ''cniVersion'' ''0.3.1'' @ '',''
          @ json_field ''      '' ''name'' name @ '',''
          @ json_field ''      '' ''type'' ''k8slanveth'' @ '',''
          @ json_field (CHR 0x09 # ''  '') ''veth'' veth
          @ [CHR 0x0A] @ ''    }''"

definition resource_annotation :: string where
  "resource_annotation = ''k8s.v1.cni.cncf.io/resourceName''"

definition genNAD :: "string \<Rightarrow> string \<Rightarrow> NAD" where
  "genNAD name ns =
     (let cfgStr = (if \<not> IsMACVTAPResource name
                    then veth_config name (GetSpokeNameFromResourceName name)
                    else macvtap_config name)
      in \<lparr>NADType = \<lparr>APIVersion = ''k8s.cni.cncf.io/v1'', Kind = ''NetworkAttachmentDefinition''\<rparr>,
          NADMeta = empty_meta\<lparr>Name := name, Namespace := ns,
            Annotations := Some (fmap_of_list
              [(resource_annotation, ResourceNamespace @ ''/'' @ name)])\<rparr>,
          Config = cfgStr\<rparr>)"

fun nads_of_spokes :: "string list \<Rightarrow> string \<Rightarrow> NAD list" where
  "nads_of_spokes [] ns = []"
| "nads_of_spokes (spoke # spokes) ns =
     genNAD (GetDPResouceName spoke True) ns # genNAD (GetDPResouceName spoke False) ns #
     nads_of_spokes spokes ns"

definition GetNADs :: "LANSpec \<Rightarrow> string \<Rightarrow> NAD list" where
  "GetNADs lanspec ns = nads_of_spokes (elems (SpokeList lanspec)) ns"

abbreviation nad_name :: "NAD \<Rightarrow> string" where
  "nad_name n \<equiv> Name (NADMeta n)"

abbreviation nad_namespace :: "NAD \<Rightarrow> string" where
  "nad_namespace n \<equiv> Namespace (NADMeta n)"

definition nad_resource :: "NAD \<Rightarrow> string option" where
  "nad_resource n = map_get (Annotations (NADMeta n)) resource_annotation"

lemma genNAD_simps [simp]:
  "nad_name (genNAD name ns) = name"
  "nad_namespace (genNAD name ns) = ns"
  "OwnerReferences (NADMeta (genNAD name ns)) = []"
  "nad_resource (genNAD name ns) = Some (ResourceNamespace @ ''/'' @ name)"
  by (simp_all add: genNAD_def nad_resource_def empty_meta_def)

text \<open>The resources of a list of spokes, in the order the code goes through them.\<close>

abbreviation resources_of :: "string list \<Rightarrow> string list" where
  "resources_of spokes \<equiv>
     concat (map (\<lambda>s. [GetDPResouceName s True, GetDPResouceName s False]) spokes)"

lemma nads_of_spokes_eq: "nads_of_spokes spokes ns = map (\<lambda>n. genNAD n ns) (resources_of spokes)"
  by (induction spokes) auto

lemma GetNADs_eq: "GetNADs spec ns = map (\<lambda>n. genNAD n ns) (resources_of (elems (SpokeList spec)))"
  by (simp add: GetNADs_def nads_of_spokes_eq)

lemma GetNADs_names: "map nad_name (GetNADs spec ns) = resources_of (elems (SpokeList spec))"
  by (simp add: GetNADs_eq comp_def)

lemma GetNADs_in_iff:
  "n \<in> set (GetNADs spec ns) \<longleftrightarrow>
     (\<exists>s k. s \<in> set (elems (SpokeList spec)) \<and> n = genNAD (GetDPResouceName s k) ns)"
  unfolding GetNADs_eq set_map image_iff bex_simps Bex_def naming.names_set by blast

lemma length_resources_of: "length (resources_of spokes) = 2 * length spokes"
  by (induction spokes) auto

subsection \<open>Properties\<close>

text \<open>A specification to compute with: two spokes, the default group and port.\<close>

definition sample_spec :: LANSpec where
  "sample_spec = \<lparr>NS = Some ''lab'', BridgeName = Some ''br0'', VxLANName = Some ''vx0'', VNI = Some 100,
     VxLANGrp = Some ''ff02::14'', DefaultVxDev = ''eth0'', VxDevMap = None, VxPort = Some 4789,
     SpokeList = Some [''s1'', ''s2'']\<rparr>"

lemma parse_ff02_14:
  "ParseAddr ''ff02::14'' = Inr (Addr6 [255, 2, 0, 0, 0, 0, 0, 0, 0, 0, 0, 0, 0, 0, 0, 20] [])"
proof -
  have "replicate 12 (0 :: byte) = [0, 0, 0, 0, 0, 0, 0, 0, 0, 0, 0, 0]"
    by (simp add: eval_nat_numeral)
  then show ?thesis
    by (simp add: ParseAddr_def parse_ipv6_def ipv6_loop.simps hex_digit_def ipv6_finish_def
        HasPrefix_def dec_digit_def)
qed

lemma not_blank: "\<not> blank ''lab''"
proof -
  have "TrimSpace ''lab'' \<noteq> []" by code_simp
  then show ?thesis by (simp add: TrimSpace_empty_iff)
qed

lemma sample_valid: "valid_spec sample_spec"
  by (simp add: valid_spec_def sample_spec_def ifname_ok_def not_blank parse_ff02_14)

text \<open>C17: \<open>Validate\<close> returns no error exactly for the specifications described by \<open>valid_spec\<close>: names of 1 to 13 characters, a namespace that is not blank, a VNI of 24 bits, a multicast group, 1 to 4095 spokes.\<close>

theorem Validate_exact: "Validate spec = Inr () \<longleftrightarrow> valid_spec spec"
  by (rule Validate_Inr)

text \<open>When everything else is valid, \<open>Validate\<close> reports the first spoke name that is empty or longer than 13 characters, whatever follows it.\<close>

lemma Validate_first_bad_spoke:
  assumes "valid_spec (spec\<lparr>SpokeList := Some good\<rparr>)" and "length (ys @ x # zs) \<le> 4095"
    and "SpokeList spec = Some (ys @ x # zs)" and "\<forall>y \<in> set ys. ifname_ok y" and "\<not> ifname_ok x"
  shows "Validate spec = Inl (Error (BadIfNameLength x))"
proof -
  from assms(1) obtain bridge vx ns vni grp a where fields:
    "BridgeName spec = Some bridge" "ifname_ok bridge" "VxLANName spec = Some vx" "ifname_ok vx"
    "NS spec = Some ns" "TrimSpace ns \<noteq> []" "VNI spec = Some vni" "1 \<le> sint vni" "sint vni \<le> 16777215"
    "VxLANGrp spec = Some grp" "ParseAddr grp = Inr a" "IsMulticast a"
    by (auto simp: valid_spec_def TrimSpace_empty_iff)
  have "checkInterfaceName bridge = Inr ()" "checkInterfaceName vx = Inr ()"
    using fields(2,4) by (simp_all add: checkInterfaceName_Inr_iff)
  with fields assms(2,3) each_checkInterfaceName_first [OF assms(4,5), of zs] show ?thesis
    by (simp add: Validate_def)
qed

lemma Validate_first_bad_spoke_witness:
  "Validate (sample_spec\<lparr>SpokeList := Some [''s1'', ''a-name-too-long'', []]\<rparr>) =
     Inl (Error (BadIfNameLength ''a-name-too-long''))"
  by (rule Validate_first_bad_spoke [where good = "[''s1'', ''s2'']" and ys = "[''s1'']" and zs = "[[]]"])
    (use sample_valid in \<open>simp_all add: sample_spec_def ifname_ok_def\<close>)

text \<open>C33: reading the spoke back from a resource name gives the spoke exactly when the prefix of that name does not occur in the spoke again; otherwise every occurrence is taken out of it.\<close>

theorem spoke_read_back:
  "GetSpokeNameFromResourceName (GetDPResouceName s k) = s \<longleftrightarrow>
     \<not> sublist (if k then VETHPreffix else MACVTAPPreffix) s"
  using spoke_of_resource_iff [of s k] by (simp only: readable_spoke_def)

end
