(* ===== verification/NetHost.thy ===== *)
theory NetHost
  imports LanTypes
begin

section \<open>The host the node agent works on: links, namespaces, mounts\<close>

text \<open>
  The netlink library, the CNI namespace library and the system calls are not part of the
  repository. What the program calls of them is the record \<open>host\<close>, an argument of every
  definition that uses it; the state of the kernel is the type variable \<open>'w\<close>. This theory
  holds the data those calls exchange: link objects as \<open>netlink.Link\<close> has them, namespaces
  and errors.
\<close>

subsection \<open>Errors\<close>

text \<open>
  \<open>Wrap\<close> is \<open>fmt.Errorf\<close> with \<open>%w\<close>, which \<open>errors.Is\<close> looks through; \<open>Note\<close> is
  \<open>fmt.Errorf\<close> with \<open>%v\<close> or \<open>%q\<close>, which it does not.
\<close>

datatype go_error =
    LinkNotFound
  | EEXIST
  | EINVAL
  | OtherErr string
  | Wrap string go_error
  | Note string go_error
  | NotABridge string
  | NotAVxlan string
  | UnknownMode string
  | GroupNotMulticast

text \<open>\<open>errors.Is(err, syscall.EEXIST)\<close>.\<close>

fun is_EEXIST :: "go_error \<Rightarrow> bool" where
  "is_EEXIST EEXIST = True"
| "is_EEXIST (Wrap _ e) = is_EEXIST e"
| "is_EEXIST _ = False"

fun map_error :: "('e \<Rightarrow> 'f) \<Rightarrow> 'e fault \<Rightarrow> 'f fault" where
  "map_error h (Panic s) = Panic s"
| "map_error h (Error e) = Error (h e)"

lemma map_error_id [simp]: "map_error (\<lambda>e. e) f = f"
  by (cases f) simp_all

type_synonym 'a verdict = "go_error fault + 'a"
type_synonym ('w, 'a) call = "('w, go_error, 'a) eff"
type_synonym ('w, 'a) act = "('w, go_error fault, 'a) eff"

text \<open>A library call whose error is wrapped and returned; a program call likewise.\<close>

definition calling :: "('w, 'a) call \<Rightarrow> (go_error \<Rightarrow> go_error) \<Rightarrow> ('a \<Rightarrow> ('w, 'b) act) \<Rightarrow> ('w, 'b) act" where
  "calling m h k = attempt m (\<lambda>e. Error (h e)) k"

definition running :: "('w, 'a) act \<Rightarrow> (go_error \<Rightarrow> go_error) \<Rightarrow> ('a \<Rightarrow> ('w, 'b) act) \<Rightarrow> ('w, 'b) act" where
  "running m h k = attempt m (map_error h) k"

text \<open>An evaluation that may panic, such as a dereference.\<close>

definition evaluating :: "'a verdict \<Rightarrow> ('a \<Rightarrow> ('w, 'b) act) \<Rightarrow> ('w, 'b) act" where
  "evaluating v k = (case v of Inl f \<Rightarrow> raise f | Inr x \<Rightarrow> k x)"

text \<open>A call whose error is dropped; a panic is not.\<close>

definition ignoring_error :: "('w, unit) act \<Rightarrow> ('w, 'b) act \<Rightarrow> ('w, 'b) act" where
  "ignoring_error m k =
     (\<lambda>w. case m w of
        (Inl (Panic s), w') \<Rightarrow> (Inl (Panic s), w')
      | (Inl (Error _), w') \<Rightarrow> k w'
      | (Inr _, w') \<Rightarrow> k w')"

text \<open>A query of the world that leaves it as it is.\<close>

definition reading :: "('w \<Rightarrow> 'a) \<Rightarrow> ('a \<Rightarrow> ('w, 'b) act) \<Rightarrow> ('w, 'b) act" where
  "reading f k = (\<lambda>w. k (f w) w)"

text \<open>A deferred call whose result is dropped.\<close>

definition deferred :: "('w, 'a) act \<Rightarrow> ('w, unit) call \<Rightarrow> ('w, 'a) act" where
  "deferred m cleanup = (\<lambda>w. case m w of (r, w') \<Rightarrow> (r, snd (cleanup w')))"

subsection \<open>Links\<close>

datatype MacvlanMode = MODE_PRIVATE | MODE_VEPA | MODE_BRIDGE | MODE_PASSTHRU

record vxlan =
  VxlanId :: int
  VtepDevIndex :: int
  Group :: "byte list"
  Learning :: bool
  Proxy :: bool
  Age :: int
  Port :: int

datatype link_kind =
    Bridge
  | Vxlan vxlan
  | Veth (peer_name: string)
  | Macvtap MacvlanMode
  | Dummy
  | OtherKind string

fun kind_name :: "link_kind \<Rightarrow> string" where
  "kind_name Bridge = ''bridge''"
| "kind_name (Vxlan _) = ''vxlan''"
| "kind_name (Veth _) = ''veth''"
| "kind_name (Macvtap _) = ''macvtap''"
| "kind_name Dummy = ''dummy''"
| "kind_name (OtherKind t) = t"

text \<open>A link object: \<open>netlink.LinkAttrs\<close> and the fields of its kind.\<close>

record link =
  LName :: string
  LIndex :: int
  LMTU :: int
  LTxQLen :: int
  LNumTxQueues :: int
  LNumRxQueues :: int
  LParentIndex :: int
  LKind :: link_kind

definition no_attrs :: link where
  "no_attrs = \<lparr>LName = '''', LIndex = 0, LMTU = 0, LTxQLen = 0,
     LNumTxQueues = 0, LNumRxQueues = 0, LParentIndex = 0, LKind = Dummy\<rparr>"

text \<open>The namespace the process started in, or one opened by a descriptor.\<close>

datatype netns = HostNS | NS_FD nat

subsection \<open>Calls\<close>

datatype mount_op = MakeShared | BindRec | BindMount
datatype umount_flag = UmountPlain | UmountDetach

text \<open>
  \<open>EnterNS\<close> is what \<open>NetNS.Do\<close> does before it calls its argument, \<open>SetNS\<close> and \<open>CloseNS\<close> the
  methods of those names. Link calls take the namespace the thread is in. \<open>LinkAdd\<close> returns
  the link object with the index the kernel gave it; its third argument is the namespace
  descriptor in the link's attributes, for a link that is to appear in another namespace.
\<close>

record 'w host =
  Stat :: "string \<Rightarrow> ('w, unit) call"
  MkdirAll :: "string \<Rightarrow> ('w, unit) call"
  CreateFile :: "string \<Rightarrow> ('w, unit) call"
  RemoveFile :: "string \<Rightarrow> ('w, unit) call"
  RemoveAll :: "string \<Rightarrow> ('w, unit) call"
  Mount :: "mount_op \<Rightarrow> string \<Rightarrow> string \<Rightarrow> ('w, unit) call"
  Unmount :: "string \<Rightarrow> umount_flag \<Rightarrow> ('w, unit) call"
  Unshare :: "('w, unit) call"
  Getpid :: "'w \<Rightarrow> int"
  Gettid :: "'w \<Rightarrow> int"
  GetNS :: "string \<Rightarrow> ('w, netns) call"
  SetNS :: "netns \<Rightarrow> ('w, unit) call"
  CloseNS :: "netns \<Rightarrow> ('w, unit) call"
  EnterNS :: "netns \<Rightarrow> ('w, unit) call"
  LinkByName :: "netns \<Rightarrow> string \<Rightarrow> ('w, link) call"
  LinkAdd :: "netns \<Rightarrow> link \<Rightarrow> netns option \<Rightarrow> ('w, link) call"
  LinkDel :: "netns \<Rightarrow> link \<Rightarrow> ('w, unit) call"
  LinkSetUp :: "netns \<Rightarrow> link \<Rightarrow> ('w, unit) call"
  LinkSetMaster :: "netns \<Rightarrow> link \<Rightarrow> link \<Rightarrow> ('w, unit) call"
  LinkSetFwdMask :: "netns \<Rightarrow> link \<Rightarrow> int \<Rightarrow> ('w, unit) call"
  LinkSetNsFd :: "netns \<Rightarrow> link \<Rightarrow> netns \<Rightarrow> ('w, unit) call"
  LinkSetName :: "netns \<Rightarrow> link \<Rightarrow> string \<Rightarrow> ('w, unit) call"

text \<open>\<open>NetNS.Do\<close>: enter the namespace, or fail without running the body.\<close>

definition do_in :: "'w host \<Rightarrow> netns \<Rightarrow> ('w, 'a) act \<Rightarrow> ('w, 'a) act" where
  "do_in h ns body = calling (EnterNS h ns) (\<lambda>e. e) (\<lambda>_. body)"

subsection \<open>Inversion rules\<close>

lemma calling_Inr_iff [effect]:
  "calling m h k w = (Inr y, w'') \<longleftrightarrow> (\<exists>x w'. m w = (Inr x, w') \<and> k x w' = (Inr y, w''))"
  by (simp add: calling_def attempt_Inr_iff)

lemma running_Inr_iff [effect]:
  "running m h k w = (Inr y, w'') \<longleftrightarrow> (\<exists>x w'. m w = (Inr x, w') \<and> k x w' = (Inr y, w''))"
  by (simp add: running_def attempt_Inr_iff)

lemma evaluating_Inr_iff [effect]:
  "evaluating v k w = (Inr y, w'') \<longleftrightarrow> (\<exists>x. v = Inr x \<and> k x w = (Inr y, w''))"
  by (simp add: evaluating_def split: sum.splits)

lemma evaluating_Inr [simp]: "evaluating (Inr x) k = k x"
  by (simp add: evaluating_def)

lemma ignoring_error_Inr_iff [effect]:
  "ignoring_error m k w = (Inr y, w'') \<longleftrightarrow>
     (\<exists>r w'. m w = (r, w') \<and> \<not> panics r \<and> k w' = (Inr y, w''))"
  by (auto simp: ignoring_error_def split: prod.splits sum.splits fault.splits)

lemma do_in_Inr_iff [effect]:
  "do_in h ns body w = (Inr y, w'') \<longleftrightarrow> (\<exists>w'. EnterNS h ns w = (Inr (), w') \<and> body w' = (Inr y, w''))"
  by (simp add: do_in_def calling_Inr_iff)

lemma branch_eq_iff [effect]:
  "branch m k1 k2 w = r \<longleftrightarrow>
     (\<exists>e w'. m w = (Inl e, w') \<and> k1 e w' = r) \<or> (\<exists>x w'. m w = (Inr x, w') \<and> k2 x w' = r)"
  by (auto simp: branch_def split: prod.splits sum.splits)

lemma deferred_Inr_iff [effect]:
  "deferred m k w = (Inr y, w'') \<longleftrightarrow> (\<exists>w'. m w = (Inr y, w') \<and> snd (k w') = w'')"
  by (auto simp: deferred_def split: prod.splits)

lemma reading_iff [effect]: "reading f k w = r \<longleftrightarrow> k (f w) w = r"
  by (simp add: reading_def)

lemma vxlan_case_Inr_iff [effect]:
  "(case k of Vxlan vx \<Rightarrow> f vx | _ \<Rightarrow> raise e) w = (Inr y, w') \<longleftrightarrow>
     (\<exists>vx. k = Vxlan vx \<and> f vx w = (Inr y, w'))"
  by (cases k) simp_all

lemma fault_case_Inr_iff [effect]:
  "(case f of Panic s \<Rightarrow> raise (Panic s) | Error e \<Rightarrow> k e) w = (Inr y, w') \<longleftrightarrow>
     (\<exists>e. f = Error e \<and> k e w = (Inr y, w'))"
  by (cases f) simp_all

lemma if_raise_Inr_iff [effect]:
  "(if b then raise e else m) w = (Inr y, w') \<longleftrightarrow> \<not> b \<and> m w = (Inr y, w')"
  by simp

text \<open>Both ways out of a call, for what holds however it ends.\<close>

lemma calling_iff:
  "calling m h k w = (r, w'') \<longleftrightarrow>
     (\<exists>e. m w = (Inl e, w'') \<and> r = Inl (Error (h e))) \<or>
     (\<exists>x w'. m w = (Inr x, w') \<and> k x w' = (r, w''))"
  by (auto simp: calling_def attempt_def split: prod.splits sum.splits)

lemma evaluating_iff:
  "evaluating v k w = (r, w'') \<longleftrightarrow>
     (\<exists>f. v = Inl f \<and> r = Inl f \<and> w'' = w) \<or> (\<exists>x. v = Inr x \<and> k x w = (r, w''))"
  by (cases v) (auto simp: evaluating_def)

lemma give_iff: "give x w = (r, w') \<longleftrightarrow> r = Inr x \<and> w' = w"
  by auto

lemma raise_iff: "raise f w = (r, w') \<longleftrightarrow> r = Inl f \<and> w' = w"
  by auto

lemma do_in_iff:
  "do_in h ns body w = (r, w'') \<longleftrightarrow>
     (\<exists>e. EnterNS h ns w = (Inl e, w'') \<and> r = Inl (Error e)) \<or>
     (\<exists>w'. EnterNS h ns w = (Inr (), w') \<and> body w' = (r, w''))"
  by (auto simp: do_in_def calling_iff)

lemmas both_ways = calling_iff evaluating_iff give_iff raise_iff do_in_iff

text \<open>Panics, for the functions built from these.\<close>

definition crashes :: "('w, 'a) act \<Rightarrow> 'w \<Rightarrow> bool" where
  "crashes m w \<longleftrightarrow> panics (fst (m w))"

lemma crashes_give [simp]: "\<not> crashes (give x) w"
  by (simp add: crashes_def)

lemma crashes_raise [simp]: "crashes (raise f) w \<longleftrightarrow> (\<exists>s. f = Panic s)"
  by (cases f) (simp_all add: crashes_def)

lemma crashes_calling:
  "crashes (calling m h k) w \<longleftrightarrow> (\<exists>x w'. m w = (Inr x, w') \<and> crashes (k x) w')"
  by (auto simp: crashes_def calling_def attempt_def split: prod.splits sum.splits)

lemma map_error_panics [simp]: "panics (Inl (map_error h f)) \<longleftrightarrow> panics (Inl f)"
  by (cases f) simp_all

lemma crashes_running:
  "crashes (running m h k) w \<longleftrightarrow>
     crashes m w \<or> (\<exists>x w'. m w = (Inr x, w') \<and> crashes (k x) w')"
  by (auto simp: crashes_def running_def attempt_def split: prod.splits sum.splits)

lemma crashes_evaluating:
  "crashes (evaluating v k) w \<longleftrightarrow> panics v \<or> (\<exists>x. v = Inr x \<and> crashes (k x) w)"
  by (cases v) (auto simp: crashes_def evaluating_def panics_def split: fault.splits)

lemma crashes_ignoring_error:
  "crashes (ignoring_error m k) w \<longleftrightarrow> crashes m w \<or> (\<not> crashes m w \<and> crashes k (snd (m w)))"
  by (cases "m w") (auto simp: crashes_def ignoring_error_def split: sum.splits fault.splits)

lemma crashes_branch:
  "crashes (branch m k1 k2) w \<longleftrightarrow>
     (\<exists>e w'. m w = (Inl e, w') \<and> crashes (k1 e) w') \<or> (\<exists>x w'. m w = (Inr x, w') \<and> crashes (k2 x) w')"
  by (cases "m w") (auto simp: crashes_def branch_def split: sum.splits)

lemma crashes_do_in:
  "crashes (do_in h ns body) w \<longleftrightarrow> (\<exists>w'. EnterNS h ns w = (Inr (), w') \<and> crashes body w')"
  by (simp add: do_in_def crashes_calling)

lemma crashes_reading: "crashes (reading f k) w \<longleftrightarrow> crashes (k (f w)) w"
  by (simp add: crashes_def reading_def)

lemma crashes_deferred: "crashes (deferred m k) w \<longleftrightarrow> crashes m w"
  by (simp add: crashes_def deferred_def split: prod.split)

lemmas crashes_rules = crashes_reading crashes_deferred crashes_calling crashes_running crashes_evaluating crashes_ignoring_error
  crashes_branch crashes_do_in

subsection \<open>Framing\<close>

text \<open>An action, or a call, that leaves an observation of the world as it is.\<close>

definition keeps :: "('w \<Rightarrow> 'o) \<Rightarrow> ('w \<Rightarrow> 'r \<times> 'w) \<Rightarrow> bool" where
  "keeps f m \<longleftrightarrow> (\<forall>w. f (snd (m w)) = f w)"

named_theorems framing \<open>what leaves an observation as it is\<close>

lemma keepsD: "keeps f m \<Longrightarrow> m w = (r, w') \<Longrightarrow> f w' = f w"
  unfolding keeps_def by (metis snd_conv)

lemma keeps_give [framing]: "keeps f (give x)" and keeps_raise [framing]: "keeps f (raise e)"
  by (simp_all add: keeps_def)

lemma keeps_calling [framing]: "keeps f m \<Longrightarrow> (\<And>x. keeps f (k x)) \<Longrightarrow> keeps f (calling m h k)"
  by (auto simp: keeps_def calling_def attempt_def split: prod.split sum.split) (metis snd_conv)+

lemma keeps_running [framing]: "keeps f m \<Longrightarrow> (\<And>x. keeps f (k x)) \<Longrightarrow> keeps f (running m h k)"
  by (auto simp: keeps_def running_def attempt_def split: prod.split sum.split) (metis snd_conv)+

lemma keeps_evaluating [framing]: "(\<And>x. keeps f (k x)) \<Longrightarrow> keeps f (evaluating v k)"
  by (cases v) (auto simp: keeps_def evaluating_def)

lemma keeps_ignoring [framing]: "keeps f m \<Longrightarrow> keeps f k \<Longrightarrow> keeps f (ignoring_error m k)"
  by (auto simp: keeps_def ignoring_error_def split: prod.split sum.split fault.split) (metis snd_conv)+

lemma keeps_branch [framing]:
  "keeps f m \<Longrightarrow> (\<And>e. keeps f (k1 e)) \<Longrightarrow> (\<And>x. keeps f (k2 x)) \<Longrightarrow> keeps f (branch m k1 k2)"
  by (auto simp: keeps_def branch_def split: prod.split sum.split) (metis snd_conv)+

lemma keeps_do_in [framing]: "keeps f (EnterNS h ns) \<Longrightarrow> keeps f m \<Longrightarrow> keeps f (do_in h ns m)"
  by (simp add: do_in_def keeps_calling)

text \<open>One call of a sequence that keeps the observation: it failed there, or the rest ran.\<close>

lemma calling_keeps:
  assumes "calling m h k w = (r, w'')" and "keeps f m"
    and "\<And>e. r = Inl (Error (h e)) \<Longrightarrow> f w'' = f w \<Longrightarrow> P"
    and "\<And>x w'. m w = (Inr x, w') \<Longrightarrow> f w' = f w \<Longrightarrow> k x w' = (r, w'') \<Longrightarrow> P"
  shows P
  using assms(1) unfolding calling_iff by (elim disjE exE conjE) (use assms(2-4) keepsD in metis)+

lemma running_keeps:
  assumes "running m h k w = (r, w'')" and "keeps f m"
    and "\<And>e. r = Inl (map_error h e) \<Longrightarrow> f w'' = f w \<Longrightarrow> P"
    and "\<And>x w'. m w = (Inr x, w') \<Longrightarrow> f w' = f w \<Longrightarrow> k x w' = (r, w'') \<Longrightarrow> P"
  shows P
proof (cases "m w")
  case (Pair r' w')
  from keepsD [OF assms(2) Pair] assms(1,3,4) Pair show ?thesis
    by (cases r') (auto simp: running_def)
qed


text \<open>
  Rules to follow a predicate of the world through a sequence, however it ends: one for each
  way of sequencing.
\<close>

lemma calling_rule:
  assumes "\<And>e w'. m w = (Inl e, w') \<Longrightarrow> P w'" and "\<And>x w'. m w = (Inr x, w') \<Longrightarrow> P (snd (k x w'))"
  shows "P (snd (calling m h k w))"
  using assms by (cases "m w"; cases "fst (m w)") (auto simp: calling_def attempt_def)

lemma running_rule:
  assumes "P (snd (m w))" and "\<And>x w'. m w = (Inr x, w') \<Longrightarrow> P (snd (k x w'))"
  shows "P (snd (running m h k w))"
  using assms by (cases "m w"; cases "fst (m w)") (auto simp: running_def attempt_def)

lemma evaluating_rule:
  assumes "P w" and "\<And>x. v = Inr x \<Longrightarrow> P (snd (k x w))"
  shows "P (snd (evaluating v k w))"
  using assms by (cases v) (auto simp: evaluating_def)

lemma branch_rule:
  assumes "\<And>e w'. m w = (Inl e, w') \<Longrightarrow> P (snd (k1 e w'))" and "\<And>x w'. m w = (Inr x, w') \<Longrightarrow> P (snd (k2 x w'))"
  shows "P (snd (branch m k1 k2 w))"
  using assms by (cases "m w"; cases "fst (m w)") (auto simp: branch_def)

lemma ignoring_rule:
  assumes "P (snd (m w))" and "P (snd (k (snd (m w))))"
  shows "P (snd (ignoring_error m k w))"
  using assms by (cases "m w") (auto simp: ignoring_error_def split: sum.split fault.split)

lemma do_in_rule:
  assumes "P (snd (EnterNS h ns w))" and "P (snd (body (snd (EnterNS h ns w))))"
  shows "P (snd (do_in h ns body w))"
  unfolding do_in_def using assms by (intro calling_rule [where P = P]) (auto dest: arg_cong [where f = snd])

lemma calling_step:
  assumes "S (snd (m w))" and "\<And>w'. S w' \<Longrightarrow> P w'" and "\<And>x w'. m w = (Inr x, w') \<Longrightarrow> S w' \<Longrightarrow> P (snd (k x w'))"
  shows "P (snd (calling m h k w))"
  using assms by (intro calling_rule [where P = P]) (auto dest: arg_cong [where f = snd])

lemma running_step:
  assumes "S (snd (m w))" and "\<And>w'. S w' \<Longrightarrow> P w'" and "\<And>x w'. S w' \<Longrightarrow> P (snd (k x w'))"
  shows "P (snd (running m h k w))"
  using assms by (intro running_rule [where P = P]) (auto dest: arg_cong [where f = snd])

lemma calling_give [simp]:
  "snd (calling m h give w) = snd (m w)" "snd (calling m h (\<lambda>_. give x) w) = snd (m w)"
  by (cases "m w"; cases "fst (m w)"; auto simp: calling_def attempt_def)+

lemma running_give [simp]:
  "snd (running m h give w) = snd (m w)" "snd (running m h (\<lambda>_. give x) w) = snd (m w)"
  by (cases "m w"; cases "fst (m w)"; auto simp: running_def attempt_def)+

end
