(* ===== verification/Namespaces.thy ===== *)
theory Namespaces
  imports NetHost
begin

section \<open>Network namespaces of the LANs\<close>

text \<open>
  Models \<open>pkg/interfaces/ns.go\<close> and \<open>pkg/interfaces/del.go\<close>: creating a named, bind-mounted
  network namespace, and removing one.
\<close>

definition getNsRunDir :: string where
  "getNsRunDir = ''/var/run/netns''"

definition nsPath :: "string \<Rightarrow> string" where
  "nsPath name = path_join getNsRunDir name"

definition getCurrentThreadNetNSPath :: "'w host \<Rightarrow> 'w \<Rightarrow> string" where
  "getCurrentThreadNetNSPath h w =
     ''/proc/'' @ show_int (Getpid h w) @ ''/task/'' @ show_int (Gettid h w) @ ''/ns/net''"

text \<open>
  The goroutine of \<open>NewNS\<close>: remember the thread's namespace, unshare a new one, bind it to
  the mount point, and put the thread back. Its errors reach the caller through \<open>err\<close>.
\<close>

definition bind_new_ns :: "'w host \<Rightarrow> string \<Rightarrow> ('w, unit) act" where
  "bind_new_ns h path =
     reading (getCurrentThreadNetNSPath h) (\<lambda>thread.
     calling (GetNS h thread) (\<lambda>e. e) (\<lambda>origNS.
       deferred
         (calling (Unshare h) (\<lambda>e. e) (\<lambda>_.
            deferred
              (reading (getCurrentThreadNetNSPath h) (\<lambda>thread'.
               calling (Mount h BindMount thread' path) (Note ''failed to bind mount ns'') give))
              (SetNS h origNS)))
         (CloseNS h origNS)))"

text \<open>The part of \<open>NewNS\<close> after the directory is a shared mount.\<close>

definition create_mounted_ns :: "'w host \<Rightarrow> string \<Rightarrow> ('w, netns) act" where
  "create_mounted_ns h path =
     calling (CreateFile h path) (\<lambda>e. e) (\<lambda>_.
       deferred
         (running (bind_new_ns h path) (Note ''failed to create namespace'') (\<lambda>_.
            calling (GetNS h path) (\<lambda>e. e) give))
         (RemoveAll h path))"

definition NewNS :: "'w host \<Rightarrow> string \<Rightarrow> ('w, netns) act" where
  "NewNS h nsname =
     calling (MkdirAll h getNsRunDir) (\<lambda>e. e) (\<lambda>_.
       branch (Mount h MakeShared '''' getNsRunDir)
         (\<lambda>err. if err \<noteq> EINVAL then raise (Error (Note ''mount --make-rshared failed'' err))
                else calling (Mount h BindRec getNsRunDir getNsRunDir) (Note ''mount --rbind failed'') (\<lambda>_.
                     calling (Mount h MakeShared '''' getNsRunDir) (Note ''mount --make-rshared failed'') (\<lambda>_.
                     create_mounted_ns h (nsPath nsname))))
         (\<lambda>_. create_mounted_ns h (nsPath nsname)))"

text \<open>\<open>UnmountNS\<close> on the path of the namespace object it is given.\<close>

definition UnmountNS :: "'w host \<Rightarrow> string \<Rightarrow> ('w, unit) act" where
  "UnmountNS h path =
     (if HasPrefix path getNsRunDir then
        calling (Unmount h path UmountPlain) (Note ''failed to unmount NS'') (\<lambda>_.
        calling (RemoveFile h path) (Note ''failed to remove ns path'') give)
      else give ())"

definition DeleteNamed :: "'w host \<Rightarrow> string \<Rightarrow> ('w, unit) act" where
  "DeleteNamed h name =
     calling (Unmount h (nsPath name) UmountDetach) (\<lambda>e. e) (\<lambda>_.
     calling (RemoveFile h (nsPath name)) (\<lambda>e. e) give)"

definition Remove :: "'w host \<Rightarrow> string \<Rightarrow> 'w \<Rightarrow> 'w" where
  "Remove h nsname w = snd (DeleteNamed h nsname w)"

subsection \<open>Where the mount points lie\<close>

text \<open>
  A name without a slash that is not empty, \<open>.\<close> or \<open>..\<close> lies directly in the run directory.
\<close>

definition plain_name :: "string \<Rightarrow> bool" where
  "plain_name s \<longleftrightarrow> CHR ''/'' \<notin> set s \<and> s \<noteq> '''' \<and> s \<noteq> ''.'' \<and> s \<noteq> ''..''"

lemma split_run_dir:
  "split_slash (getNsRunDir @ ''/'' @ s) = [''''] @ [''var'', ''run'', ''netns''] @ split_slash s"
  by (simp add: getNsRunDir_def)

lemma nsPath_plain: "plain_name s \<Longrightarrow> nsPath s = getNsRunDir @ ''/'' @ s"
  unfolding nsPath_def path_join_def plain_name_def clean_rooted_def path_components_def split_run_dir
  by (simp add: split_slash_plain getNsRunDir_def)

lemma nsPath_plain_inj: "plain_name s \<Longrightarrow> plain_name t \<Longrightarrow> nsPath s = nsPath t \<Longrightarrow> s = t"
  by (simp add: nsPath_plain)

text \<open>Three steps up from the run directory is the root, so any other path can be named.\<close>

definition absolute_path :: "string list \<Rightarrow> string" where
  "absolute_path cs = concat (map (\<lambda>c. ''/'' @ c) cs)"

lemma split_slash_segments:
  "CHR ''/'' \<notin> set s \<Longrightarrow> \<forall>c \<in> set cs. CHR ''/'' \<notin> set c \<Longrightarrow> split_slash (s @ absolute_path cs) = s # cs"
proof (induction cs arbitrary: s)
  case Nil
  then show ?case by (simp add: absolute_path_def split_slash_plain)
next
  case (Cons c cs)
  from Cons.IH [of c] Cons.prems(2) have "split_slash (c @ absolute_path cs) = c # cs" by simp
  then have "split_slash (absolute_path (c # cs)) = [] # c # cs" by (simp add: absolute_path_def)
  with Cons.prems(1) show ?case by (induction s) auto
qed

lemma fold_clean_plain: "\<forall>c \<in> set cs. plain_name c \<Longrightarrow> fold clean_step cs acc = rev cs @ acc"
  by (induction cs arbitrary: acc) (auto simp: plain_name_def)

lemma nsPath_upwards:
  assumes "cs \<noteq> []" and "\<forall>c \<in> set cs. plain_name c"
  shows "nsPath (''../../..'' @ absolute_path cs) = absolute_path cs"
proof -
  have "split_slash (''..'' @ absolute_path cs) = ''..'' # cs"
    by (rule split_slash_segments) (use assms(2) in \<open>auto simp: plain_name_def\<close>)
  then have "split_slash (''../../..'' @ absolute_path cs) = [''..'', ''..'', ''..''] @ cs" by simp
  then have "path_components (getNsRunDir @ ''/'' @ ''../../..'' @ absolute_path cs) = cs"
    unfolding path_components_def split_run_dir by (simp add: fold_clean_plain [OF assms(2)])
  with assms(1) show ?thesis
    by (simp add: nsPath_def path_join_def clean_rooted_def Let_def absolute_path_def)
qed

text \<open>No call of \<open>NewNS\<close>, \<open>DeleteNamed\<close> or \<open>UnmountNS\<close> panics.\<close>

lemma bind_new_ns_no_crash: "\<not> crashes (bind_new_ns h p) w"
  by (auto simp: bind_new_ns_def crashes_rules)

lemma create_mounted_ns_no_crash: "\<not> crashes (create_mounted_ns h p) w"
  by (auto simp: create_mounted_ns_def crashes_rules bind_new_ns_no_crash)

lemma NewNS_no_crash: "\<not> crashes (NewNS h s) w"
  by (auto simp: NewNS_def crashes_rules create_mounted_ns_no_crash)

lemma DeleteNamed_no_crash: "\<not> crashes (DeleteNamed h s) w"
  by (auto simp: DeleteNamed_def crashes_rules)

end
