(* ===== verification/Interfaces.thy ===== *)
theory Interfaces
  imports Namespaces
begin

section \<open>Interfaces of a LAN on a node\<close>

text \<open>
  Models \<open>pkg/interfaces/apply.go\<close> and \<open>pkg/interfaces/vxlan.go\<close>: \<open>Ensure\<close>, which makes the
  namespace, bridge, VxLAN, veth pair and macvtap of one attachment, cut into the stretches
  its comments mark, and the functions it calls. The one-second sleep has no effect on the
  model, and log output is left out.
\<close>

subsection \<open>Single links\<close>

definition BRSlaveGrpFwdMask :: int where
  "BRSlaveGrpFwdMask = 65533"

definition maxVxLANEncapOverhead :: int where
  "maxVxLANEncapOverhead = 74"

definition dummyIfName :: string where
  "dummyIfName = ''k8slan-dummy''"

definition getPeerVethName :: "string \<Rightarrow> string" where
  "getPeerVethName name = name @ ''p''"

definition LinkDelete :: "'w host \<Rightarrow> netns \<Rightarrow> string \<Rightarrow> ('w, unit) act" where
  "LinkDelete h ns name =
     branch (LinkByName h ns name)
       (\<lambda>err. if err = LinkNotFound then give () else raise (Error err))
       (\<lambda>l. calling (LinkDel h ns l) (\<lambda>e. e) give)"

definition ModeFromString :: "string \<Rightarrow> MacvlanMode verdict" where
  "ModeFromString s =
     (if s = '''' \<or> s = ''bridge'' then Inr MODE_BRIDGE
      else if s = ''private'' then Inr MODE_PRIVATE
      else if s = ''vepa'' then Inr MODE_VEPA
      else if s = ''passthru'' then Inr MODE_PASSTHRU
      else Inl (Error (UnknownMode s)))"

definition CreateMacvtap :: "'w host \<Rightarrow> string \<Rightarrow> string \<Rightarrow> string \<Rightarrow> ('w, int) act" where
  "CreateMacvtap h name lowerDevice mode =
     calling (LinkByName h HostNS lowerDevice) (Note ''failed to lookup lowerDevice'') (\<lambda>m.
     evaluating (ModeFromString mode) (\<lambda>nlmode.
     let mv = no_attrs\<lparr>LName := name, LParentIndex := LIndex m, LTxQLen := LTxQLen m,
                       LKind := Macvtap nlmode\<rparr>
     in calling (LinkAdd h HostNS mv None) (Note ''failed to create macvtap'') (\<lambda>mv'.
        calling (LinkSetUp h HostNS mv') (Note ''failed to set UP'') (\<lambda>_.
        give (LIndex mv')))))"

definition RecreateMacvtap :: "'w host \<Rightarrow> string \<Rightarrow> string \<Rightarrow> string \<Rightarrow> ('w, int) act" where
  "RecreateMacvtap h name lowerDevice mode =
     running (LinkDelete h HostNS name) (\<lambda>e. e) (\<lambda>_. CreateMacvtap h name lowerDevice mode)"

subsection \<open>The VxLAN link\<close>

definition vxlan_link :: "string \<Rightarrow> int \<Rightarrow> int \<Rightarrow> addr \<Rightarrow> 32 word \<Rightarrow> int \<Rightarrow> link" where
  "vxlan_link name devFD vni grp mtu port =
     no_attrs\<lparr>LName := name, LMTU := uint mtu, LTxQLen := 1024, LNumTxQueues := 1, LNumRxQueues := 1,
       LKind := Vxlan \<lparr>VxlanId = vni, VtepDevIndex = devFD, Group = AsSlice grp, Learning = True,
         Proxy = False, Age = 3600, Port = port\<rparr>\<rparr>"

definition ensureVXLANIf ::
    "'w host \<Rightarrow> string \<Rightarrow> int \<Rightarrow> netns \<Rightarrow> int \<Rightarrow> addr \<Rightarrow> 32 word \<Rightarrow> int \<Rightarrow> ('w, unit) act" where
  "ensureVXLANIf h name devFD ns vni grp mtu port =
     (if \<not> IsMulticast grp then raise (Error GroupNotMulticast)
      else calling (LinkAdd h HostNS (vxlan_link name devFD vni grp mtu port) (Some ns)) (\<lambda>e. e)
             (\<lambda>_. give ()))"

text \<open>\<open>uint32(mtu)\<close> wraps around.\<close>

definition CreateVXLANIF :: "'w host \<Rightarrow> LANSpec \<Rightarrow> int \<Rightarrow> netns \<Rightarrow> int \<Rightarrow> int \<Rightarrow> ('w, unit) act" where
  "CreateVXLANIF h lan devFD ns mtu port =
     evaluating (and_then (deref (VxLANGrp lan)) MustParseAddr) (\<lambda>grpAddr.
     evaluating (deref (VxLANName lan)) (\<lambda>name.
     evaluating (deref (VNI lan)) (\<lambda>vni.
     branch (ensureVXLANIf h name devFD ns (sint vni) grpAddr (word_of_int mtu) port)
       (\<lambda>f. case f of
          Panic s \<Rightarrow> raise (Panic s)
        | Error err \<Rightarrow> if \<not> is_EEXIST err then raise (Error err) else give ())
       give)))"

subsection \<open>The stretches of \<open>Ensure\<close>\<close>

text \<open>Make sure the namespace exists.\<close>

definition open_lan_ns :: "'w host \<Rightarrow> string \<Rightarrow> ('w, netns) act" where
  "open_lan_ns h ns =
     branch (Stat h (nsPath ns))
       (\<lambda>_. running (NewNS h ns) (Wrap ''failed to create ns'') give)
       (\<lambda>_. branch (GetNS h (nsPath ns))
              (\<lambda>_. ignoring_error (DeleteNamed h ns)
                     (running (NewNS h ns) (Wrap ''failed to recreate ns'') give))
              give)"

text \<open>Bring the loopback up.\<close>

definition lo_up :: "'w host \<Rightarrow> netns \<Rightarrow> ('w, unit) act" where
  "lo_up h lanNS =
     running (do_in h lanNS
       (calling (LinkByName h lanNS ''lo'') (\<lambda>e. e) (\<lambda>l.
        calling (LinkSetUp h lanNS l) (\<lambda>e. e) give))) (Wrap ''failed to bring lo up in ns'') give"

text \<open>The underlay device of this host.\<close>

definition vx_dev_name :: "LANSpec \<Rightarrow> string \<Rightarrow> string" where
  "vx_dev_name lan hostname =
     (case map_get (VxDevMap lan) hostname of None \<Rightarrow> DefaultVxDev lan | Some dev \<Rightarrow> dev)"

text \<open>
  The bridge: found, or created and looked up again with the error of that lookup dropped,
  which leaves a nil link.
\<close>

definition ensure_bridge :: "'w host \<Rightarrow> netns \<Rightarrow> LANSpec \<Rightarrow> int \<Rightarrow> ('w, link option) act" where
  "ensure_bridge h lanNS lan mtu =
     evaluating (deref (BridgeName lan)) (\<lambda>bridge.
     branch (LinkByName h lanNS bridge)
       (\<lambda>_. let la = no_attrs\<lparr>LName := bridge, LMTU := mtu, LTxQLen := -1, LKind := Bridge\<rparr>
            in calling (LinkAdd h lanNS la None) (Note ''failed to create bridge'') (\<lambda>br.
               calling (LinkSetUp h lanNS br) (Wrap ''failed to bring bridge up'') (\<lambda>_.
               branch (LinkByName h lanNS bridge) (\<lambda>_. give None) (\<lambda>br'. give (Some br')))))
       (\<lambda>br. if kind_name (LKind br) \<noteq> ''bridge'' then raise (Error (NotABridge bridge))
             else give (Some br)))"

text \<open>Does the VxLAN link that is there have another group, VNI, device or port?\<close>

definition vxlan_differs :: "LANSpec \<Rightarrow> addr \<Rightarrow> int \<Rightarrow> vxlan \<Rightarrow> bool verdict" where
  "vxlan_differs lan grpSpec devIndex vx =
     and_then (MustParseAddr (IP_String (Group vx))) (\<lambda>grp.
     and_then (deref (VNI lan)) (\<lambda>vni.
     and_then (deref (VxPort lan)) (\<lambda>port.
     Inr (Compare grpSpec grp \<noteq> 0 \<or> VxlanId vx \<noteq> sint vni \<or> VtepDevIndex vx \<noteq> devIndex \<or>
          Port vx \<noteq> sint port))))"

definition check_vxlan :: "'w host \<Rightarrow> netns \<Rightarrow> LANSpec \<Rightarrow> int \<Rightarrow> ('w, bool) act" where
  "check_vxlan h lanNS lan devIndex =
     evaluating (and_then (deref (VxLANGrp lan)) MustParseAddr) (\<lambda>grpSpec.
     evaluating (deref (VxLANName lan)) (\<lambda>vxname.
     branch (LinkByName h lanNS vxname)
       (\<lambda>_. give True)
       (\<lambda>vxLink. case LKind vxLink of
            Vxlan vx \<Rightarrow> evaluating (vxlan_differs lan grpSpec devIndex vx) give
          | _ \<Rightarrow> raise (Error (NotAVxlan vxname)))))"

text \<open>Delete a VxLAN link that must be rebuilt; the error is dropped.\<close>

definition drop_vxlan :: "'w host \<Rightarrow> netns \<Rightarrow> LANSpec \<Rightarrow> bool \<Rightarrow> ('w, bool) act" where
  "drop_vxlan h lanNS lan needToAdd =
     (if needToAdd then
        evaluating (deref (VxLANName lan)) (\<lambda>vxname.
        ignoring_error (LinkDelete h lanNS vxname) (give True))
      else give False)"

text \<open>The veth pair: the spoke and its peer, which joins the bridge; the spoke moves to the host.\<close>

definition make_spoke :: "'w host \<Rightarrow> netns \<Rightarrow> link option \<Rightarrow> string \<Rightarrow> int \<Rightarrow> ('w, unit) act" where
  "make_spoke h lanNS br spokeName mtu =
     (let peerName = getPeerVethName spokeName
      in ignoring_error (LinkDelete h lanNS peerName)
        (evaluating (deref br) (\<lambda>br.
         let la = no_attrs\<lparr>LParentIndex := LIndex br, LName := spokeName, LTxQLen := -1, LMTU := mtu,
                           LKind := Veth peerName\<rparr>
         in calling (LinkAdd h lanNS la None) (Note ''failed to create veth interface'') (\<lambda>vlink.
            calling (LinkSetUp h lanNS vlink) (Wrap ''failed to veth up'') (\<lambda>_.
            calling (LinkByName h lanNS peerName) (Wrap ''failed to find peer veth'') (\<lambda>peerLink.
            calling (LinkSetMaster h lanNS peerLink br) (Wrap ''failed to set veth to master'') (\<lambda>_.
            calling (LinkSetFwdMask h lanNS peerLink BRSlaveGrpFwdMask)
              (Wrap ''failed to set veth slave grp fwd mask'') (\<lambda>_.
            calling (LinkSetUp h lanNS peerLink) (Wrap ''failed to peer veth up'') (\<lambda>_.
            calling (LinkSetNsFd h lanNS vlink HostNS) (\<lambda>e. e) give)))))))))"

text \<open>The first function run inside the namespace; its result is \<open>needToAdd\<close>.\<close>

definition setup_lan_ns :: "'w host \<Rightarrow> netns \<Rightarrow> LANSpec \<Rightarrow> string \<Rightarrow> int \<Rightarrow> int \<Rightarrow> ('w, bool) act" where
  "setup_lan_ns h lanNS lan spokeName mtu devIndex =
     running (ensure_bridge h lanNS lan mtu) (\<lambda>e. e) (\<lambda>br.
     running (check_vxlan h lanNS lan devIndex) (\<lambda>e. e) (\<lambda>differs.
     running (drop_vxlan h lanNS lan differs) (\<lambda>e. e) (\<lambda>needToAdd.
     running (make_spoke h lanNS br spokeName mtu) (\<lambda>e. e) (\<lambda>_. give needToAdd))))"

text \<open>The second function run inside the namespace: the VxLAN link joins the bridge.\<close>

definition attach_vxlan :: "'w host \<Rightarrow> netns \<Rightarrow> LANSpec \<Rightarrow> ('w, unit) act" where
  "attach_vxlan h lanNS lan =
     evaluating (deref (VxLANName lan)) (\<lambda>vxname.
     calling (LinkByName h lanNS vxname) (\<lambda>e. e) (\<lambda>vxLink.
     evaluating (deref (BridgeName lan)) (\<lambda>bridge.
     calling (LinkByName h lanNS bridge) (\<lambda>e. e) (\<lambda>br.
     calling (LinkSetMaster h lanNS vxLink br) (Wrap ''failed to set master of vxlan interface'') (\<lambda>_.
     calling (LinkSetFwdMask h lanNS vxLink BRSlaveGrpFwdMask)
       (Wrap ''failed to set vxlan slave grp fwd mask'') (\<lambda>_.
     calling (LinkSetUp h lanNS vxLink) (\<lambda>e. e) give))))))"

text \<open>
  The error of the second function goes to an \<open>err\<close> declared inside the \<open>if\<close>; the check after
  it reads the outer one, which is nil there. So it is dropped.
\<close>

definition add_vxlan :: "'w host \<Rightarrow> netns \<Rightarrow> LANSpec \<Rightarrow> int \<Rightarrow> int \<Rightarrow> bool \<Rightarrow> ('w, unit) act" where
  "add_vxlan h lanNS lan devIndex mtu needToAdd =
     (if needToAdd then
        evaluating (deref (VxPort lan)) (\<lambda>port.
        running (CreateVXLANIF h lan devIndex lanNS mtu (sint port))
          (Wrap ''failed to create vxlan interface'') (\<lambda>_.
        ignoring_error (do_in h lanNS (attach_vxlan h lanNS lan)) (give ())))
      else give ())"

text \<open>Bring the spoke up in the host namespace.\<close>

definition spoke_up :: "'w host \<Rightarrow> string \<Rightarrow> ('w, unit) act" where
  "spoke_up h spokeName =
     calling (LinkByName h HostNS spokeName) (Wrap ''failed to get the created spoke link'') (\<lambda>vlink.
     calling (LinkSetUp h HostNS vlink) (Wrap ''failed to bring up spoke link'') give)"

text \<open>The dummy link that the macvtap of a veth attachment sits on.\<close>

definition ensure_dummy :: "'w host \<Rightarrow> ('w, unit) act" where
  "ensure_dummy h =
     branch (LinkByName h HostNS dummyIfName)
       (\<lambda>_. calling (LinkAdd h HostNS (no_attrs\<lparr>LName := dummyIfName, LKind := Dummy\<rparr>) None)
              (Wrap ''failed to create dummy link'') (\<lambda>_.
            calling (LinkByName h HostNS dummyIfName) (Wrap ''failed to get newly created dummy link'') (\<lambda>_.
            give ())))
       (\<lambda>_. give ())"

definition make_macvtap :: "'w host \<Rightarrow> string \<Rightarrow> string \<Rightarrow> string \<Rightarrow> bool \<Rightarrow> ('w, int) act" where
  "make_macvtap h macName spokeName macvtapMode dummyMacvtap =
     (if \<not> dummyMacvtap then RecreateMacvtap h macName spokeName macvtapMode
      else running (ensure_dummy h) (\<lambda>e. e) (\<lambda>_. RecreateMacvtap h macName dummyIfName ''private''))"

definition Ensure ::
    "'w host \<Rightarrow> string \<Rightarrow> string \<Rightarrow> LANSpec \<Rightarrow> string \<Rightarrow> string \<Rightarrow> bool \<Rightarrow> ('w, int) act" where
  "Ensure h macName spokeName lan hostname macvtapMode dummyMacvtap =
     evaluating (deref (NS lan)) (\<lambda>ns.
     running (open_lan_ns h ns) (\<lambda>e. e) (\<lambda>lanNS.
     running (lo_up h lanNS) (\<lambda>e. e) (\<lambda>_.
     calling (LinkByName h HostNS (vx_dev_name lan hostname)) (Wrap ''vxlan dev not found'') (\<lambda>vxDevLink.
     let mtu = LMTU vxDevLink - maxVxLANEncapOverhead; devIndex = LIndex vxDevLink
     in running (do_in h lanNS (setup_lan_ns h lanNS lan spokeName mtu devIndex)) (\<lambda>e. e) (\<lambda>needToAdd.
        running (add_vxlan h lanNS lan devIndex mtu needToAdd) (\<lambda>e. e) (\<lambda>_.
        running (spoke_up h spokeName) (\<lambda>e. e) (\<lambda>_.
        make_macvtap h macName spokeName macvtapMode dummyMacvtap)))))))"

subsection \<open>What can panic\<close>

text \<open>
  The functions dereference the optional fields of the specification, parse its group and the
  group of a VxLAN link that is there, and use the bridge link they looked up. The rules say
  which of these each stretch needs.
\<close>

lemma LinkDelete_no_crash: "\<not> crashes (LinkDelete h ns n) w"
  by (auto simp: LinkDelete_def crashes_rules split: if_splits)

lemma ModeFromString_no_panic [simp]: "\<not> panics (ModeFromString s)"
  by (simp add: ModeFromString_def)

lemma RecreateMacvtap_no_crash: "\<not> crashes (RecreateMacvtap h n lower mode) w"
  by (auto simp: RecreateMacvtap_def CreateMacvtap_def crashes_rules LinkDelete_no_crash Let_def)

lemma make_macvtap_no_crash: "\<not> crashes (make_macvtap h n spoke mode dummy) w"
  by (auto simp: make_macvtap_def ensure_dummy_def crashes_rules RecreateMacvtap_no_crash split: if_splits)

lemma spoke_up_no_crash: "\<not> crashes (spoke_up h n) w"
  by (auto simp: spoke_up_def crashes_rules)

lemma open_lan_ns_no_crash: "\<not> crashes (open_lan_ns h n) w"
  by (auto simp: open_lan_ns_def crashes_rules NewNS_no_crash DeleteNamed_no_crash)

lemma lo_up_no_crash: "\<not> crashes (lo_up h ns) w"
  by (auto simp: lo_up_def crashes_rules)

lemma ensureVXLANIf_no_crash: "\<not> crashes (ensureVXLANIf h n dev ns vni grp mtu port) w"
  by (auto simp: ensureVXLANIf_def crashes_rules split: if_splits)

lemma ensure_bridge_crashes: "crashes (ensure_bridge h ns lan mtu) w \<longleftrightarrow> BridgeName lan = None"
  by (auto simp: ensure_bridge_def crashes_rules deref_panics_iff deref_Inr_iff Let_def split: if_splits)

lemma vxlan_differs_panics:
  "panics (vxlan_differs lan grp idx vx) \<longleftrightarrow>
     (\<exists>e. ParseAddr (IP_String (Group vx)) = Inl e) \<or>
     ((\<exists>a. ParseAddr (IP_String (Group vx)) = Inr a) \<and> (VNI lan = None \<or> VxPort lan = None))"
  by (auto simp: vxlan_differs_def outcome)

text \<open>A specification whose dereferences and group are in order.\<close>

definition usable :: "LANSpec \<Rightarrow> bool" where
  "usable lan \<longleftrightarrow>
     NS lan \<noteq> None \<and> BridgeName lan \<noteq> None \<and> VxLANName lan \<noteq> None \<and> VNI lan \<noteq> None \<and> VxPort lan \<noteq> None \<and>
     (\<exists>grp a. VxLANGrp lan = Some grp \<and> ParseAddr grp = Inr a)"

lemma stored_usable: "valid_spec spec \<Longrightarrow> VxPort spec \<noteq> None \<Longrightarrow> usable spec"
  by (auto simp: valid_spec_def usable_def)

text \<open>
  The two things left: the VxLAN link that is there has a group whose text is no address, as
  that of a link without a group; and the bridge, just made and brought up, is not found.
\<close>

definition group_unreadable :: "'w host \<Rightarrow> netns \<Rightarrow> string \<Rightarrow> 'w \<Rightarrow> bool" where
  "group_unreadable h ns v w \<longleftrightarrow>
     (\<exists>l w' vx e. LinkByName h ns v w = (Inr l, w') \<and> LKind l = Vxlan vx \<and> ParseAddr (IP_String (Group vx)) = Inl e)"

definition bridge_lost :: "'w host \<Rightarrow> netns \<Rightarrow> string \<Rightarrow> int \<Rightarrow> 'w \<Rightarrow> 'w \<Rightarrow> bool" where
  "bridge_lost h ns b mtu w w' \<longleftrightarrow>
     (\<exists>e w1 l w2 w3 e'. LinkByName h ns b w = (Inl e, w1) \<and>
        LinkAdd h ns (no_attrs\<lparr>LName := b, LMTU := mtu, LTxQLen := -1, LKind := Bridge\<rparr>) None w1 = (Inr l, w2) \<and>
        LinkSetUp h ns l w2 = (Inr (), w3) \<and> LinkByName h ns b w3 = (Inl e', w'))"

lemma ensure_bridge_None_iff:
  assumes "BridgeName lan = Some b"
  shows "ensure_bridge h ns lan mtu w = (Inr None, w') \<longleftrightarrow> bridge_lost h ns b mtu w w'"
  using assms by (auto simp: ensure_bridge_def bridge_lost_def effect deref_Inr_iff Let_def split: if_splits)

lemma vxlan_case_crashes:
  "crashes (case k of Vxlan vx \<Rightarrow> f vx | _ \<Rightarrow> raise (Error e)) w \<longleftrightarrow> (\<exists>vx. k = Vxlan vx \<and> crashes (f vx) w)"
  by (cases k) simp_all

lemma check_vxlan_crashes:
  assumes "usable lan" and "VxLANName lan = Some v"
  shows "crashes (check_vxlan h ns lan idx) w \<longleftrightarrow> group_unreadable h ns v w"
proof -
  have "panics (vxlan_differs lan grp idx vx) \<longleftrightarrow> (\<exists>e. ParseAddr (IP_String (Group vx)) = Inl e)" for grp vx
    using assms(1) by (auto simp: vxlan_differs_panics usable_def)
  with assms show ?thesis
    by (auto simp: check_vxlan_def crashes_rules outcome usable_def group_unreadable_def vxlan_case_crashes)
qed

lemma drop_vxlan_no_crash: "VxLANName lan \<noteq> None \<Longrightarrow> \<not> crashes (drop_vxlan h ns lan x) w"
  by (auto simp: drop_vxlan_def crashes_rules outcome LinkDelete_no_crash split: if_splits)

lemma drop_vxlan_returns:
  assumes "VxLANName lan \<noteq> None"
  shows "\<exists>y w'. drop_vxlan h ns lan x w = (Inr y, w')"
proof -
  obtain v where v: "VxLANName lan = Some v" using assms by blast
  obtain r w' where run: "LinkDelete h ns v w = (r, w')" by (cases "LinkDelete h ns v w")
  with LinkDelete_no_crash [of h ns v w] have "\<not> panics r" by (simp add: crashes_def)
  with run v show ?thesis by (auto simp: drop_vxlan_def ignoring_error_Inr_iff outcome)
qed

lemma make_spoke_crashes: "crashes (make_spoke h ns br spoke mtu) w \<longleftrightarrow> br = None"
  by (auto simp: make_spoke_def crashes_rules LinkDelete_no_crash Let_def deref_panics_iff deref_Inr_iff)

lemma setup_lan_ns_crashes:
  assumes "usable lan" and "BridgeName lan = Some b" and "VxLANName lan = Some v"
  shows "crashes (setup_lan_ns h ns lan spoke mtu idx) w \<longleftrightarrow>
    (\<exists>br w'. ensure_bridge h ns lan mtu w = (Inr br, w') \<and>
       (group_unreadable h ns v w' \<or> bridge_lost h ns b mtu w w' \<and> (\<exists>x w''. check_vxlan h ns lan idx w' = (Inr x, w''))))"
proof -
  have "\<not> crashes (ensure_bridge h ns lan mtu) w" "\<not> crashes (drop_vxlan h ns lan x) w'" for x w'
    using assms(2,3) by (simp_all add: ensure_bridge_crashes drop_vxlan_no_crash)
  then have "crashes (setup_lan_ns h ns lan spoke mtu idx) w \<longleftrightarrow>
    (\<exists>br w'. ensure_bridge h ns lan mtu w = (Inr br, w') \<and>
       (group_unreadable h ns v w' \<or> br = None \<and> (\<exists>x w''. check_vxlan h ns lan idx w' = (Inr x, w''))))"
    using drop_vxlan_returns [of lan h ns] assms(3)
    by (simp add: setup_lan_ns_def crashes_rules check_vxlan_crashes [OF assms(1,3)] make_spoke_crashes) blast
  then show ?thesis unfolding ensure_bridge_None_iff [OF assms(2), symmetric] by auto
qed

lemma attach_vxlan_no_crash: "usable lan \<Longrightarrow> \<not> crashes (attach_vxlan h ns lan) w"
  by (auto simp: attach_vxlan_def crashes_rules outcome usable_def)

lemma CreateVXLANIF_no_crash: "usable lan \<Longrightarrow> \<not> crashes (CreateVXLANIF h lan dev ns mtu port) w"
proof -
  assume u: "usable lan"
  have inner: "\<not> crashes (case f of Panic s \<Rightarrow> raise (Panic s)
        | Error err \<Rightarrow> if \<not> is_EEXIST err then raise (Error err) else give ()) w'"
    if "ensureVXLANIf h n dev ns vni grp mtu' port w0 = (Inl f, w')" for f n vni grp mtu' w0 w'
    using ensureVXLANIf_no_crash [of h n dev ns vni grp mtu' port w0] that
    by (cases f) (auto simp: crashes_def)
  from u inner show ?thesis
    by (auto simp: CreateVXLANIF_def crashes_rules outcome usable_def ensureVXLANIf_no_crash)
qed

lemma add_vxlan_no_crash: "usable lan \<Longrightarrow> \<not> crashes (add_vxlan h ns lan idx mtu x) w"
  using CreateVXLANIF_no_crash [of lan h] attach_vxlan_no_crash [of lan h]
  by (auto simp: add_vxlan_def crashes_rules outcome usable_def split: if_splits)

text \<open>So a usable specification makes \<open>Ensure\<close> panic in these two cases and in no other.\<close>

lemma Ensure_crashes:
  assumes "usable lan" and "NS lan = Some n" and "BridgeName lan = Some b" and "VxLANName lan = Some v"
  shows "crashes (Ensure h name spoke lan hostname mode dummy) w \<longleftrightarrow>
    (\<exists>ns w1 w2 dev w3 w4 br w5. open_lan_ns h n w = (Inr ns, w1) \<and> lo_up h ns w1 = (Inr (), w2) \<and>
       LinkByName h HostNS (vx_dev_name lan hostname) w2 = (Inr dev, w3) \<and> EnterNS h ns w3 = (Inr (), w4) \<and>
       ensure_bridge h ns lan (LMTU dev - maxVxLANEncapOverhead) w4 = (Inr br, w5) \<and>
       (group_unreadable h ns v w5 \<or>
        bridge_lost h ns b (LMTU dev - maxVxLANEncapOverhead) w4 w5 \<and>
          (\<exists>x w6. check_vxlan h ns lan (LIndex dev) w5 = (Inr x, w6))))"
  using assms
  by (simp add: Ensure_def crashes_rules Let_def open_lan_ns_no_crash lo_up_no_crash setup_lan_ns_crashes
      add_vxlan_no_crash spoke_up_no_crash make_macvtap_no_crash deref_panics_iff)

end
