(* ===== verification/DevicePlugin.thy ===== *)
theory DevicePlugin
  imports Interfaces
begin

section \<open>The device plugin of one resource\<close>

text \<open>
  Models \<open>pkg/deviceplugin/plugin.go\<close>: the plugin the kubelet talks to for one resource of a
  LAN. Requests and responses are the lists of the protocol's messages; the kubelet itself is
  outside. \<open>os.Hostname\<close> is an argument.
\<close>

subsection \<open>State and construction\<close>

definition tapPath :: string where
  "tapPath = ''/dev/tap''"

definition macvtapSuffix :: string where
  "macvtapSuffix = ''M''"

definition vethSuffix :: string where
  "vethSuffix = ''V''"

definition DefaultMode :: string where
  "DefaultMode = ''passthru''"

text \<open>\<open>stopped\<close> is the state of the channel \<open>stopWatcher\<close>: whether it has been closed.\<close>

record macvtapDevicePlugin =
  PluginName :: string
  PluginHost :: string
  Lan :: LANSpec
  Capacity :: int
  PluginMode :: string
  stopped :: bool
  dummyMACVTAP :: bool

definition NewMacvtapDevicePlugin ::
    "go_error + string \<Rightarrow> string \<Rightarrow> LANSpec \<Rightarrow> macvtapDevicePlugin verdict" where
  "NewMacvtapDevicePlugin hostname name lanspec =
     (case hostname of
       Inl err \<Rightarrow> Inl (Panic ''os.Hostname'')
     | Inr hname \<Rightarrow> Inr
         \<lparr>PluginName = GetSpokeNameFromResourceName name, PluginHost = hname, Lan = lanspec,
          Capacity = 0, PluginMode = DefaultMode, stopped = False,
          dummyMACVTAP = HasPrefix name VETHPreffix\<rparr>)"

subsection \<open>Devices\<close>

record device =
  ID :: string
  Health :: string

text \<open>The loop runs for \<open>i\<close> from 0 to the constant capacity of 1.\<close>

fun device_loop :: "macvtapDevicePlugin \<Rightarrow> nat \<Rightarrow> nat \<Rightarrow> device list" where
  "device_loop mdp i 0 = []"
| "device_loop mdp i (Suc n) =
     \<lparr>ID = PluginName mdp @ (if dummyMACVTAP mdp then vethSuffix else macvtapSuffix) @ show_int (int i),
      Health = ''Healthy''\<rparr> # device_loop mdp (Suc i) n"

definition generateMacvtapDevices :: "macvtapDevicePlugin \<Rightarrow> device list" where
  "generateMacvtapDevices mdp = device_loop mdp 0 1"

text \<open>
  \<open>ListAndWatch\<close> computes the devices once and then sends them every second, for ever; the
  errors of \<open>Send\<close> are dropped. These are the messages of its first \<open>n\<close> rounds.
\<close>

fun watch_rounds :: "nat \<Rightarrow> device list \<Rightarrow> device list list" where
  "watch_rounds 0 devs = []"
| "watch_rounds (Suc n) devs = devs # watch_rounds n devs"

definition ListAndWatch :: "nat \<Rightarrow> macvtapDevicePlugin \<Rightarrow> device list list" where
  "ListAndWatch n mdp = watch_rounds n (generateMacvtapDevices mdp)"

subsection \<open>Allocation\<close>

record device_spec =
  HostPath :: string
  ContainerPath :: string
  Permissions :: string

text \<open>The devices of one container: the first failing one ends the whole call.\<close>

fun allocate_container :: "'w host \<Rightarrow> macvtapDevicePlugin \<Rightarrow> string list \<Rightarrow> ('w, device_spec list) act" where
  "allocate_container h mdp [] = give []"
| "allocate_container h mdp (macVtapName # ids) =
     running (Ensure h macVtapName (PluginName mdp) (Lan mdp) (PluginHost mdp) (PluginMode mdp) (dummyMACVTAP mdp))
       (\<lambda>e. e) (\<lambda>index.
     let devPath = tapPath @ show_int index;
         dev = \<lparr>HostPath = devPath, ContainerPath = devPath, Permissions = ''rw''\<rparr>
     in running (allocate_container h mdp ids) (\<lambda>e. e) (\<lambda>devices. give (dev # devices)))"

fun Allocate :: "'w host \<Rightarrow> macvtapDevicePlugin \<Rightarrow> string list list \<Rightarrow> ('w, device_spec list list) act" where
  "Allocate h mdp [] = give []"
| "Allocate h mdp (req # reqs) =
     running (allocate_container h mdp req) (\<lambda>e. e) (\<lambda>devices.
     running (Allocate h mdp reqs) (\<lambda>e. e) (\<lambda>responses. give (devices # responses)))"

text \<open>\<open>Stop\<close> closes the channel; closing it again panics.\<close>

definition Stop :: "macvtapDevicePlugin \<Rightarrow> macvtapDevicePlugin verdict" where
  "Stop mdp = (if stopped mdp then Inl (Panic ''close of closed channel'') else Inr (mdp\<lparr>stopped := True\<rparr>))"

text \<open>The remaining calls of the protocol answer with nothing, or with no options set.\<close>

definition PreStartContainer :: "unit option verdict" where
  "PreStartContainer = Inr None"

definition GetDevicePluginOptions :: "(bool \<times> bool) option verdict" where
  "GetDevicePluginOptions = Inr (Some (False, False))"

definition GetPreferredAllocation :: "string list option verdict" where
  "GetPreferredAllocation = Inr None"

subsection \<open>Names\<close>

lemma show_int_0: "show_int 0 = ''0''"
  by code_simp

lemma generateMacvtapDevices_eq:
  "generateMacvtapDevices mdp =
     [\<lparr>ID = PluginName mdp @ (if dummyMACVTAP mdp then ''V0'' else ''M0''), Health = ''Healthy''\<rparr>]"
  by (simp add: generateMacvtapDevices_def vethSuffix_def macvtapSuffix_def show_int_0)

text \<open>The one device a plugin advertises.\<close>

definition device_id :: "string \<Rightarrow> bool \<Rightarrow> string" where
  "device_id spoke k = spoke @ (if k then ''V0'' else ''M0'')"

lemma device_id_inj: "device_id s k = device_id s' k' \<Longrightarrow> s = s' \<and> k = k'"
  by (auto simp: device_id_def split: if_splits)

lemma device_id_apart: "device_id s k \<noteq> s" "device_id s k \<noteq> getPeerVethName s"
  by (auto simp: device_id_def getPeerVethName_def)

lemma NewMacvtapDevicePlugin_resource:
  assumes "readable_spoke s k"
  shows "NewMacvtapDevicePlugin (Inr hname) (GetDPResouceName s k) spec = Inr
    \<lparr>PluginName = s, PluginHost = hname, Lan = spec, Capacity = 0, PluginMode = DefaultMode,
     stopped = False, dummyMACVTAP = k\<rparr>"
  by (simp add: NewMacvtapDevicePlugin_def naming.spoke_of_name [OF assms] IsVETHResource_name)

lemma allocate_container_length:
  "allocate_container h mdp ids w = (Inr devs, w') \<Longrightarrow> length devs = length ids"
  by (induction ids arbitrary: w devs w') (auto simp: effect Let_def)

lemma Allocate_lengths:
  "Allocate h mdp reqs w = (Inr resps, w') \<Longrightarrow> map length resps = map length reqs"
  by (induction reqs arbitrary: w resps w') (auto simp: effect dest: allocate_container_length)

end
