(* ===== verification/Lister.thy ===== *)
theory Lister
  imports DevicePlugin
begin

section \<open>The lister: which resources this node offers\<close>

text \<open>
  Models \<open>pkg/deviceplugin/lister.go\<close>: the table of resources a node offers, kept up to date
  from the two channels the daemon's reconciler sends on, and the lists of names sent to the
  device-plugin manager. The specifications the pointers denote are never changed after they
  are sent, so the table holds the specifications themselves. Go iterates over a map in any
  order: the order is the argument \<open>keys_of\<close>, a list of the keys of the map.
\<close>

subsection \<open>The table\<close>

record macvtapLister =
  DeviceList :: "(string, LANSpec) fmap"

definition NewMacvtapLister :: macvtapLister where
  "NewMacvtapLister = \<lparr>DeviceList = fmempty\<rparr>"

definition GetResourceNamespace :: string where
  "GetResourceNamespace = ResourceNamespace"

definition getCurrentPlugins :: "(string fset \<Rightarrow> string list) \<Rightarrow> macvtapLister \<Rightarrow> string list" where
  "getCurrentPlugins keys_of ml = keys_of (fmdom (DeviceList ml))"

text \<open>The bodies of the two cases of the \<open>select\<close>, without the report.\<close>

fun add_spokes :: "LANSpec \<Rightarrow> string list \<Rightarrow> (string, LANSpec) fmap \<Rightarrow> (string, LANSpec) fmap" where
  "add_spokes lan [] m = m"
| "add_spokes lan (spokeName # spokes) m =
     add_spokes lan spokes
       (fmupd (GetDPResouceName spokeName False) lan (fmupd (GetDPResouceName spokeName True) lan m))"

fun remove_spokes :: "string list \<Rightarrow> (string, LANSpec) fmap \<Rightarrow> (string, LANSpec) fmap" where
  "remove_spokes [] m = m"
| "remove_spokes (vlanName # spokes) m =
     remove_spokes spokes
       (fmdrop (GetDPResouceName vlanName False) (fmdrop (GetDPResouceName vlanName True) m))"

definition add_lan :: "LANSpec \<Rightarrow> macvtapLister \<Rightarrow> macvtapLister" where
  "add_lan lan ml = ml\<lparr>DeviceList := add_spokes lan (elems (SpokeList lan)) (DeviceList ml)\<rparr>"

definition remove_lan :: "LANSpec \<Rightarrow> macvtapLister \<Rightarrow> macvtapLister" where
  "remove_lan lan ml = ml\<lparr>DeviceList := remove_spokes (elems (SpokeList lan)) (DeviceList ml)\<rparr>"

text \<open>The list that is to be sent to the device-plugin manager: none when it is empty.\<close>

definition report :: "(string fset \<Rightarrow> string list) \<Rightarrow> macvtapLister \<Rightarrow> string list option" where
  "report keys_of ml =
     (let curList = getCurrentPlugins keys_of ml
      in if length curList > 0 then Some curList else None)"

text \<open>A lookup of a plugin; what is not in the table gives nil.\<close>

definition NewPlugin :: "go_error + string \<Rightarrow> macvtapLister \<Rightarrow> string \<Rightarrow> macvtapDevicePlugin option verdict" where
  "NewPlugin hostname ml name =
     (case fmlookup (DeviceList ml) name of
       None \<Rightarrow> Inr None
     | Some lan \<Rightarrow> and_then (NewMacvtapDevicePlugin hostname name lan) (\<lambda>p. Inr (Some p)))"

definition GetMainThreadNetNsPath :: "int \<Rightarrow> string" where
  "GetMainThreadNetNsPath pid = ''/proc/'' @ show_int pid @ ''/ns/net''"

subsection \<open>The loop\<close>

text \<open>
  \<open>Discover\<close> never returns. A round takes the head of a channel that is not empty, either one
  when both are not, and changes the table; with both empty it waits. Then \<open>report\<close> sends the
  list, and waits until the device-plugin manager takes it: meanwhile the loop reads no channel.
  The state is what is queued on the two channels, the table, the list that \<open>report\<close> waits to
  hand over, if any, and the lists the manager has taken, the last one at the end.
\<close>

record lister_state =
  AddChan :: "LANSpec list"
  RemovChan :: "LANSpec list"
  Lister :: macvtapLister
  Report :: "string list option"
  Sent :: "string list list"

inductive discover_step :: "(string fset \<Rightarrow> string list) \<Rightarrow> lister_state \<Rightarrow> lister_state \<Rightarrow> bool"
  for keys_of :: "string fset \<Rightarrow> string list" where
  take_add: "Report s = None \<Longrightarrow> AddChan s = lan # rest \<Longrightarrow> ml = add_lan lan (Lister s) \<Longrightarrow>
     discover_step keys_of s (s\<lparr>AddChan := rest, Lister := ml, Report := report keys_of ml\<rparr>)"
| take_remove: "Report s = None \<Longrightarrow> RemovChan s = lan # rest \<Longrightarrow> ml = remove_lan lan (Lister s) \<Longrightarrow>
     discover_step keys_of s (s\<lparr>RemovChan := rest, Lister := ml, Report := report keys_of ml\<rparr>)"
| hand_over: "Report s = Some names \<Longrightarrow>
     discover_step keys_of s (s\<lparr>Report := None, Sent := Sent s @ [names]\<rparr>)"

inductive_cases discover_stepE: "discover_step keys_of s t"

text \<open>The loop waits for its channels only when nothing is queued and nothing is to be handed over.\<close>

definition resting :: "lister_state \<Rightarrow> bool" where
  "resting s \<longleftrightarrow> AddChan s = [] \<and> RemovChan s = [] \<and> Report s = None"

lemma resting_iff: "resting s \<longleftrightarrow> (\<nexists>t. discover_step keys_of s t)"
proof
  show "resting s \<Longrightarrow> \<nexists>t. discover_step keys_of s t"
    by (auto simp: resting_def elim: discover_stepE)
  assume "\<nexists>t. discover_step keys_of s t"
  then show "resting s"
    unfolding resting_def by (metis discover_step.intros neq_Nil_conv not_Some_eq)
qed

text \<open>What is left to do: each specification is taken, and its list handed over.\<close>

definition queued :: "lister_state \<Rightarrow> nat" where
  "queued s = length (AddChan s) + length (RemovChan s)"

definition work :: "lister_state \<Rightarrow> nat" where
  "work s = 2 * queued s + (if Report s = None then 0 else 1)"

lemma discover_step_work: "discover_step keys_of s t \<Longrightarrow> work t < work s"
  by (auto simp: work_def queued_def elim!: discover_stepE)

lemma rounds_work: "(discover_step keys_of ^^ k) s t \<Longrightarrow> k + work t \<le> work s"
proof (induction k arbitrary: t)
  case (Suc k)
  then obtain u where "(discover_step keys_of ^^ k) s u" "discover_step keys_of u t" by auto
  with Suc.IH discover_step_work show ?case by fastforce
qed simp

lemma rest_reached: "\<exists>t. (discover_step keys_of)\<^sup>*\<^sup>* s t \<and> resting t"
proof (induction "work s" arbitrary: s rule: less_induct)
  case less
  show ?case
  proof (cases "resting s")
    case False
    then obtain u where u: "discover_step keys_of s u" using resting_iff by blast
    from less [OF discover_step_work [OF u]] u show ?thesis by (meson converse_rtranclp_into_rtranclp)
  qed auto
qed

subsection \<open>The registry contract\<close>

datatype lister_event = Added LANSpec | Removed LANSpec

fun event_lan :: "lister_event \<Rightarrow> LANSpec" where
  "event_lan (Added lan) = lan"
| "event_lan (Removed lan) = lan"

abbreviation lan_resources :: "LANSpec \<Rightarrow> string list" where
  "lan_resources lan \<equiv> resources_of (elems (SpokeList lan))"

fun replay :: "(LANSpec \<Rightarrow> 's \<Rightarrow> 's) \<Rightarrow> (LANSpec \<Rightarrow> 's \<Rightarrow> 's) \<Rightarrow> 's \<Rightarrow> lister_event list \<Rightarrow> 's" where
  "replay add remove s [] = s"
| "replay add remove s (Added lan # evs) = replay add remove (add lan s) evs"
| "replay add remove s (Removed lan # evs) = replay add remove (remove lan s) evs"

lemma replay_snoc:
  "replay add remove s (evs @ [ev]) =
     (case ev of Added lan \<Rightarrow> add lan (replay add remove s evs)
      | Removed lan \<Rightarrow> remove lan (replay add remove s evs))"
proof (induction evs arbitrary: s)
  case Nil
  then show ?case by (cases ev) simp_all
next
  case (Cons e evs)
  then show ?case by (cases e; cases ev) simp_all
qed

text \<open>The last event that concerns a resource, and what it leaves there.\<close>

definition concerns :: "string \<Rightarrow> lister_event \<Rightarrow> bool" where
  "concerns n ev \<longleftrightarrow> n \<in> set (lan_resources (event_lan ev))"

definition last_word :: "lister_event list \<Rightarrow> string \<Rightarrow> lister_event \<Rightarrow> bool" where
  "last_word evs n ev \<longleftrightarrow> (\<exists>ys zs. evs = ys @ ev # zs \<and> concerns n ev \<and> (\<forall>e \<in> set zs. \<not> concerns n e))"

definition settle :: "string \<Rightarrow> LANSpec option \<Rightarrow> lister_event list \<Rightarrow> LANSpec option" where
  "settle n v evs =
     foldl (\<lambda>v ev. if concerns n ev then (case ev of Added lan \<Rightarrow> Some lan | Removed lan \<Rightarrow> None) else v) v evs"

lemma last_word_Nil [simp]: "\<not> last_word [] n ev"
  by (simp add: last_word_def)

lemma last_word_snoc_here: "concerns n e \<Longrightarrow> last_word (evs @ [e]) n ev \<longleftrightarrow> ev = e"
proof
  assume e: "concerns n e"
  assume "last_word (evs @ [e]) n ev"
  then obtain ys zs where *: "evs @ [e] = ys @ ev # zs" "\<forall>x \<in> set zs. \<not> concerns n x"
    unfolding last_word_def by blast
  with e show "ev = e" by (cases zs rule: rev_cases) auto
next
  assume "concerns n e" "ev = e"
  then have "evs @ [e] = evs @ ev # [] \<and> concerns n ev \<and> (\<forall>x \<in> set []. \<not> concerns n x)" by simp
  then show "last_word (evs @ [e]) n ev" unfolding last_word_def by blast
qed

lemma last_word_snoc_skip: "\<not> concerns n e \<Longrightarrow> last_word (evs @ [e]) n ev \<longleftrightarrow> last_word evs n ev"
proof
  assume e: "\<not> concerns n e"
  assume "last_word (evs @ [e]) n ev"
  then obtain ys zs where *: "evs @ [e] = ys @ ev # zs" "concerns n ev" "\<forall>x \<in> set zs. \<not> concerns n x"
    unfolding last_word_def by blast
  with e show "last_word evs n ev" by (cases zs rule: rev_cases) (auto simp: last_word_def)
next
  assume e: "\<not> concerns n e"
  assume "last_word evs n ev"
  then obtain ys zs where "evs = ys @ ev # zs" "concerns n ev" "\<forall>x \<in> set zs. \<not> concerns n x"
    unfolding last_word_def by blast
  with e have "evs @ [e] = ys @ ev # (zs @ [e])" "concerns n ev" "\<forall>x \<in> set (zs @ [e]). \<not> concerns n x"
    by auto
  then show "last_word (evs @ [e]) n ev" unfolding last_word_def by blast
qed

locale plugin_registry =
  fixes lookup :: "'s \<Rightarrow> string \<Rightarrow> LANSpec option"
    and add :: "LANSpec \<Rightarrow> 's \<Rightarrow> 's"
    and remove :: "LANSpec \<Rightarrow> 's \<Rightarrow> 's"
    and start :: 's
  assumes lookup_start: "lookup start n = None"
    and lookup_add: "lookup (add lan s) n = (if n \<in> set (lan_resources lan) then Some lan else lookup s n)"
    and lookup_remove: "lookup (remove lan s) n = (if n \<in> set (lan_resources lan) then None else lookup s n)"
begin

text \<open>After any sequence of events the table holds what the last event on each resource said.\<close>

lemma lookup_replay:
  "lookup (replay add remove start evs) n = Some lan \<longleftrightarrow> last_word evs n (Added lan)"
proof (induction evs rule: rev_induct)
  case Nil
  show ?case by (simp add: lookup_start)
next
  case (snoc ev evs)
  show ?case
  proof (cases "concerns n ev")
    case True
    then show ?thesis
      by (cases ev) (auto simp: concerns_def replay_snoc last_word_snoc_here lookup_add lookup_remove simp del: set_concat)
  next
    case False
    with snoc show ?thesis
      by (cases ev) (auto simp: concerns_def replay_snoc last_word_snoc_skip lookup_add lookup_remove simp del: set_concat)
  qed
qed

text \<open>From any table on, each event settles the resources it concerns.\<close>

lemma lookup_settles: "lookup (replay add remove s evs) n = settle n (lookup s n) evs"
proof (induction evs arbitrary: s)
  case (Cons ev evs)
  then show ?case
    by (cases ev) (simp_all add: settle_def concerns_def lookup_add lookup_remove del: set_concat)
qed (simp add: settle_def)

text \<open>LANs without a common spoke do not disturb each other.\<close>

lemma lookup_add_apart:
  "set (elems (SpokeList lan)) \<inter> set (elems (SpokeList lan')) = {} \<Longrightarrow> n \<in> set (lan_resources lan) \<Longrightarrow>
     lookup (add lan' s) n = lookup s n"
  using naming.names_disjoint [of "elems (SpokeList lan)" "elems (SpokeList lan')"]
  by (auto simp: lookup_add simp del: set_concat)

lemma lookup_remove_apart:
  "set (elems (SpokeList lan)) \<inter> set (elems (SpokeList lan')) = {} \<Longrightarrow> n \<in> set (lan_resources lan) \<Longrightarrow>
     lookup (remove lan' s) n = lookup s n"
  using naming.names_disjoint [of "elems (SpokeList lan)" "elems (SpokeList lan')"]
  by (auto simp: lookup_remove simp del: set_concat)

end

subsection \<open>The lister is such a registry\<close>

definition plugin_lookup :: "macvtapLister \<Rightarrow> string \<Rightarrow> LANSpec option" where
  "plugin_lookup ml n = fmlookup (DeviceList ml) n"

lemma add_spokes_lookup:
  "fmlookup (add_spokes lan spokes m) n = (if n \<in> set (resources_of spokes) then Some lan else fmlookup m n)"
  by (induction spokes arbitrary: m) auto

lemma remove_spokes_lookup:
  "fmlookup (remove_spokes spokes m) n = (if n \<in> set (resources_of spokes) then None else fmlookup m n)"
  by (induction spokes arbitrary: m) auto

interpretation registry: plugin_registry plugin_lookup add_lan remove_lan NewMacvtapLister
  by unfold_locales
    (simp_all add: plugin_lookup_def add_lan_def remove_lan_def NewMacvtapLister_def
      add_spokes_lookup remove_spokes_lookup del: set_concat)

lemma fmdom_add_lan: "fset (fmdom (DeviceList (add_lan lan ml))) = fset (fmdom (DeviceList ml)) \<union> set (lan_resources lan)"
  by (auto simp: fset_eq_iff fmlookup_dom_iff add_lan_def add_spokes_lookup simp del: set_concat split: if_splits)

lemma fmdom_remove_lan: "fset (fmdom (DeviceList (remove_lan lan ml))) = fset (fmdom (DeviceList ml)) - set (lan_resources lan)"
  by (auto simp: fset_eq_iff fmlookup_dom_iff remove_lan_def remove_spokes_lookup simp del: set_concat split: if_splits)

subsection \<open>Runs of the loop\<close>

text \<open>An order of iteration: every key, once.\<close>

definition iterates :: "(string fset \<Rightarrow> string list) \<Rightarrow> bool" where
  "iterates keys_of \<longleftrightarrow> (\<forall>F. distinct (keys_of F) \<and> set (keys_of F) = fset F)"

text \<open>
  A run of the node's lister: rounds of the loop, and sends of the reconciler between them.
  The ghost argument is the sequence of events as the loop took them.
\<close>

inductive lister_run :: "(string fset \<Rightarrow> string list) \<Rightarrow> lister_event list \<Rightarrow> lister_state \<Rightarrow> bool"
  for keys_of :: "string fset \<Rightarrow> string list" where
  start: "lister_run keys_of [] \<lparr>AddChan = [], RemovChan = [], Lister = NewMacvtapLister, Report = None, Sent = []\<rparr>"
| send_add: "lister_run keys_of evs s \<Longrightarrow> lister_run keys_of evs (s\<lparr>AddChan := AddChan s @ [lan]\<rparr>)"
| send_remove: "lister_run keys_of evs s \<Longrightarrow> lister_run keys_of evs (s\<lparr>RemovChan := RemovChan s @ [lan]\<rparr>)"
| take_add: "lister_run keys_of evs s \<Longrightarrow> Report s = None \<Longrightarrow> AddChan s = lan # rest \<Longrightarrow> ml = add_lan lan (Lister s) \<Longrightarrow>
     lister_run keys_of (evs @ [Added lan]) (s\<lparr>AddChan := rest, Lister := ml, Report := report keys_of ml\<rparr>)"
| take_remove: "lister_run keys_of evs s \<Longrightarrow> Report s = None \<Longrightarrow> RemovChan s = lan # rest \<Longrightarrow> ml = remove_lan lan (Lister s) \<Longrightarrow>
     lister_run keys_of (evs @ [Removed lan]) (s\<lparr>RemovChan := rest, Lister := ml, Report := report keys_of ml\<rparr>)"
| hand_over: "lister_run keys_of evs s \<Longrightarrow> Report s = Some names \<Longrightarrow>
     lister_run keys_of evs (s\<lparr>Report := None, Sent := Sent s @ [names]\<rparr>)"

lemma lister_run_discover:
  assumes "lister_run keys_of evs s" and "discover_step keys_of s t"
  shows "\<exists>evs'. lister_run keys_of evs' t"
  using assms(2) by cases (use assms(1) lister_run.intros(4-6) in blast)+

lemma lister_run_table:
  "lister_run keys_of evs s \<Longrightarrow> Lister s = replay add_lan remove_lan NewMacvtapLister evs"
  by (induction rule: lister_run.induct) (simp_all add: replay_snoc)

text \<open>
  The list that waits to be handed over is exactly what is offered; when none waits, the last
  one taken is, unless nothing is offered.
\<close>

definition lists_table :: "string list \<Rightarrow> macvtapLister \<Rightarrow> bool" where
  "lists_table names ml \<longleftrightarrow> distinct names \<and> set names = fset (fmdom (DeviceList ml))"

definition report_exact :: "lister_state \<Rightarrow> bool" where
  "report_exact s \<longleftrightarrow>
     (case Report s of
        Some names \<Rightarrow> lists_table names (Lister s)
      | None \<Rightarrow> fmdom (DeviceList (Lister s)) = {||} \<or> Sent s \<noteq> [] \<and> lists_table (last (Sent s)) (Lister s))"

lemma report_Some:
  "iterates keys_of \<Longrightarrow> report keys_of ml = Some names \<Longrightarrow> lists_table names ml \<and> names \<noteq> []"
  by (auto simp: report_def getCurrentPlugins_def Let_def lists_table_def iterates_def split: if_splits)

lemma report_None: "iterates keys_of \<Longrightarrow> report keys_of ml = None \<longleftrightarrow> fmdom (DeviceList ml) = {||}"
  by (cases "keys_of (fmdom (DeviceList ml))")
    (auto simp: report_def getCurrentPlugins_def Let_def iterates_def fset_eq_iff, (metis list.set(1) empty_iff list.set_intros(1))+)

lemma report_exact_reported:
  assumes "iterates keys_of"
  shows "report_exact (s\<lparr>Lister := ml, Report := report keys_of ml\<rparr>)"
  using report_Some [OF assms, of ml] report_None [OF assms, of ml]
  by (auto simp: report_exact_def split: option.split)

lemma report_exact_queues [simp]:
  "report_exact (s\<lparr>AddChan := q\<rparr>) = report_exact s" "report_exact (s\<lparr>RemovChan := q\<rparr>) = report_exact s"
  by (simp_all add: report_exact_def split: option.split)

lemma report_exact_handed: "report_exact s \<Longrightarrow> Report s = Some names \<Longrightarrow> report_exact (s\<lparr>Report := None, Sent := Sent s @ [names]\<rparr>)"
  by (simp add: report_exact_def)

lemma lister_run_report:
  assumes "iterates keys_of"
  shows "lister_run keys_of evs s \<Longrightarrow> report_exact s"
proof (induction rule: lister_run.induct)
  case start
  show ?case by (simp add: report_exact_def NewMacvtapLister_def)
next
  case (take_add evs s lan rest ml)
  show ?case using report_exact_reported [OF assms, where s = "s\<lparr>AddChan := rest\<rparr>"] by simp
next
  case (take_remove evs s lan rest ml)
  show ?case using report_exact_reported [OF assms, where s = "s\<lparr>RemovChan := rest\<rparr>"] by simp
next
  case (hand_over evs s names)
  then show ?case by (simp add: report_exact_handed)
qed simp_all

text \<open>
  A LAN that is offered, while nothing that is queued shares a spoke with it: it is queued, or
  its resources are in the table; once the channels are drained, they are in the table.
\<close>

definition spokes_apart :: "LANSpec \<Rightarrow> LANSpec \<Rightarrow> bool" where
  "spokes_apart lan lan' \<longleftrightarrow> set (elems (SpokeList lan)) \<inter> set (elems (SpokeList lan')) = {}"

definition offering :: "LANSpec \<Rightarrow> lister_state \<Rightarrow> bool" where
  "offering spec s \<longleftrightarrow>
     (\<forall>lan \<in> set (RemovChan s). spokes_apart spec lan) \<and>
     (\<forall>lan \<in> set (AddChan s). lan = spec \<or> spokes_apart spec lan) \<and>
     (spec \<in> set (AddChan s) \<or> (\<forall>r \<in> set (lan_resources spec). plugin_lookup (Lister s) r = Some spec))"

lemma offering_step:
  assumes "discover_step keys_of s t" and "offering spec s"
  shows "offering spec t"
  using assms(1)
proof cases
  case (take_add lan rest ml)
  show ?thesis
  proof (cases "lan = spec")
    case True
    with take_add assms(2) show ?thesis
      by (auto simp: offering_def registry.lookup_add simp del: set_concat)
  next
    case False
    with take_add assms(2) have "spokes_apart spec lan" by (auto simp: offering_def)
    with False take_add assms(2) show ?thesis
      unfolding offering_def spokes_apart_def by (auto simp: registry.lookup_add_apart simp del: set_concat)
  qed
next
  case (take_remove lan rest ml)
  with assms(2) have "spokes_apart spec lan" by (auto simp: offering_def)
  with take_remove assms(2) show ?thesis
    unfolding offering_def spokes_apart_def by (auto simp: registry.lookup_remove_apart simp del: set_concat)
qed (use assms(2) in \<open>simp add: offering_def del: set_concat\<close>)

lemma offering_rounds: "(discover_step keys_of)\<^sup>*\<^sup>* s t \<Longrightarrow> offering spec s \<Longrightarrow> offering spec t"
  by (induction rule: rtranclp_induct) (auto dest: offering_step)

text \<open>Once a specification has been taken, the lists are those of the table.\<close>

lemma report_exact_rounds:
  assumes "iterates keys_of" and "(discover_step keys_of)\<^sup>*\<^sup>* s t"
  shows "AddChan t = AddChan s \<and> RemovChan t = RemovChan s \<or> report_exact t"
  using assms(2)
proof (induction rule: rtranclp_induct)
  case (step t u)
  from step(2) show ?case
  proof cases
    case (take_add lan rest ml)
    with report_exact_reported [OF assms(1), where s = "t\<lparr>AddChan := rest\<rparr>"] show ?thesis by simp
  next
    case (take_remove lan rest ml)
    with report_exact_reported [OF assms(1), where s = "t\<lparr>RemovChan := rest\<rparr>"] show ?thesis by simp
  next
    case (hand_over names)
    with step(3) report_exact_handed [of t names] show ?thesis by auto
  qed
qed simp

lemma drained_offer:
  assumes "iterates keys_of" and "offering spec s" and "spec \<in> set (AddChan s)"
    and "(discover_step keys_of)\<^sup>*\<^sup>* s t" and "resting t" and "r \<in> set (lan_resources spec)"
  shows "plugin_lookup (Lister t) r = Some spec \<and> Sent t \<noteq> [] \<and> r \<in> set (last (Sent t))"
proof -
  from offering_rounds [OF assms(4,2)] assms(5,6) have look: "plugin_lookup (Lister t) r = Some spec"
    by (auto simp: offering_def resting_def simp del: set_concat)
  then have r: "r \<in> fset (fmdom (DeviceList (Lister t)))" by (auto simp: plugin_lookup_def fmlookup_dom_iff)
  have "report_exact t" using report_exact_rounds [OF assms(1,4)] assms(3,5) by (auto simp: resting_def)
  with look r assms(5) show ?thesis by (auto simp: report_exact_def resting_def lists_table_def)
qed

subsection \<open>Draining the channels\<close>

text \<open>The order in which the loop takes what is queued is any merge of the two channels.\<close>

lemma rounds_replay:
  assumes "(discover_step keys_of)\<^sup>*\<^sup>* s t"
  shows "\<exists>as rs. AddChan s = as @ AddChan t \<and> RemovChan s = rs @ RemovChan t \<and>
    (\<exists>evs \<in> shuffles (map Added as) (map Removed rs). Lister t = replay add_lan remove_lan (Lister s) evs)"
  using assms
proof (induction rule: converse_rtranclp_induct)
  case base
  show ?case by (intro exI [of _ "[]"]) simp
next
  case (step s u)
  then obtain as rs evs where IH: "AddChan u = as @ AddChan t" "RemovChan u = rs @ RemovChan t"
    "evs \<in> shuffles (map Added as) (map Removed rs)" "Lister t = replay add_lan remove_lan (Lister u) evs"
    by blast
  from step(1) show ?case
  proof cases
    case (take_add lan rest ml)
    with IH show ?thesis
      by (intro exI [of _ "lan # as"] exI [of _ rs] conjI bexI [of _ "Added lan # evs"])
        (auto intro: Cons_in_shuffles_leftI)
  next
    case (take_remove lan rest ml)
    with IH show ?thesis
      by (intro exI [of _ as] exI [of _ "lan # rs"] conjI bexI [of _ "Removed lan # evs"])
        (auto intro: Cons_in_shuffles_rightI)
  next
    case (hand_over names)
    with IH show ?thesis by (intro exI [of _ as] exI [of _ rs]) auto
  qed
qed

lemma hand_over_first:
  "\<exists>u. (discover_step keys_of)\<^sup>*\<^sup>* s u \<and> Report u = None \<and> AddChan u = AddChan s \<and> RemovChan u = RemovChan s \<and> Lister u = Lister s"
proof (cases "Report s")
  case (Some names)
  from discover_step.hand_over [OF this, of keys_of] show ?thesis
    by (intro exI [of _ "s\<lparr>Report := None, Sent := Sent s @ [names]\<rparr>"]) auto
qed auto

lemma every_order:
  "evs \<in> shuffles (map Added (AddChan s)) (map Removed (RemovChan s)) \<Longrightarrow>
     \<exists>t. (discover_step keys_of)\<^sup>*\<^sup>* s t \<and> resting t \<and> Lister t = replay add_lan remove_lan (Lister s) evs"
proof (induction evs arbitrary: s)
  case Nil
  with hand_over_first [of keys_of s] show ?case by (auto simp: resting_def)
next
  case (Cons ev evs)
  obtain u where u: "(discover_step keys_of)\<^sup>*\<^sup>* s u" "Report u = None" "AddChan u = AddChan s"
    "RemovChan u = RemovChan s" "Lister u = Lister s" using hand_over_first by blast
  have "\<exists>v. discover_step keys_of u v \<and> evs \<in> shuffles (map Added (AddChan v)) (map Removed (RemovChan v)) \<and>
      replay add_lan remove_lan (Lister u) (ev # evs) = replay add_lan remove_lan (Lister v) evs"
  proof (cases "AddChan s \<noteq> [] \<and> ev = Added (hd (AddChan s)) \<and> evs \<in> shuffles (map Added (tl (AddChan s))) (map Removed (RemovChan s))")
    case True
    then obtain lan rest where q: "AddChan s = lan # rest" by (cases "AddChan s") auto
    from discover_step.take_add [OF u(2) q [folded u(3)] refl, of keys_of] True q u show ?thesis by auto
  next
    case False
    with Cons.prems have rem: "RemovChan s \<noteq> []" "ev = Removed (hd (RemovChan s))"
      "evs \<in> shuffles (map Added (AddChan s)) (map Removed (tl (RemovChan s)))"
      by (auto simp: Cons_in_shuffles_iff hd_map map_tl)
    then obtain lan rest where q: "RemovChan s = lan # rest" by (cases "RemovChan s") auto
    from discover_step.take_remove [OF u(2) q [folded u(4)] refl, of keys_of] rem q u show ?thesis by auto
  qed
  then obtain v where v: "discover_step keys_of u v"
    "evs \<in> shuffles (map Added (AddChan v)) (map Removed (RemovChan v))"
    "replay add_lan remove_lan (Lister u) (ev # evs) = replay add_lan remove_lan (Lister v) evs" by blast
  from Cons.IH [OF v(2)] obtain t where "(discover_step keys_of)\<^sup>*\<^sup>* v t" "resting t"
    "Lister t = replay add_lan remove_lan (Lister v) evs" by blast
  with u v show ?case by (metis converse_rtranclp_into_rtranclp rtranclp_trans)
qed

lemma drained_orders:
  assumes "(discover_step keys_of)\<^sup>*\<^sup>* s t" and "resting t"
  shows "\<exists>evs \<in> shuffles (map Added (AddChan s)) (map Removed (RemovChan s)). Lister t = replay add_lan remove_lan (Lister s) evs"
  using rounds_replay [OF assms(1)] assms(2) by (auto simp: resting_def)

subsection \<open>Properties\<close>

text \<open>An order of iteration to compute with, and a run: a LAN is added.\<close>

definition sorted_keys :: "string fset \<Rightarrow> string list" where
  "sorted_keys F = sorted_list_of_fset F"

lemma sorted_keys_iterates: "iterates sorted_keys"
  by (simp add: iterates_def sorted_keys_def sorted_list_of_fset.rep_eq)

definition one_added :: lister_state where
  "one_added =
     (let ml = add_lan sample_spec NewMacvtapLister
      in \<lparr>AddChan = [], RemovChan = [], Lister = ml, Report = None, Sent = [getCurrentPlugins sorted_keys ml]\<rparr>)"

lemma one_added_report:
  "report sorted_keys (add_lan sample_spec NewMacvtapLister) = Some (getCurrentPlugins sorted_keys (add_lan sample_spec NewMacvtapLister))"
proof -
  have "fset (fmdom (DeviceList (add_lan sample_spec NewMacvtapLister))) \<noteq> {}"
    by (simp add: fmdom_add_lan sample_spec_def)
  then have "report sorted_keys (add_lan sample_spec NewMacvtapLister) \<noteq> None"
    using report_None [OF sorted_keys_iterates] by auto
  then show ?thesis by (auto simp: report_def Let_def split: if_splits)
qed

lemma one_added_run: "lister_run sorted_keys [Added sample_spec] one_added"
proof -
  let ?s = "\<lparr>AddChan = [], RemovChan = [], Lister = NewMacvtapLister, Report = None, Sent = []\<rparr>"
  have "lister_run sorted_keys [] (?s\<lparr>AddChan := AddChan ?s @ [sample_spec]\<rparr>)"
    by (rule lister_run.send_add [OF lister_run.start])
  from lister_run.take_add [OF this, of sample_spec "[]"]
  have "lister_run sorted_keys [Added sample_spec] (?s\<lparr>Lister := add_lan sample_spec NewMacvtapLister,
      Report := report sorted_keys (add_lan sample_spec NewMacvtapLister)\<rparr>)" by simp
  from lister_run.hand_over [OF this] show ?thesis
    by (simp add: one_added_def Let_def one_added_report)
qed

text \<open>C13: whatever the loop has taken from its two channels, in whatever order, a resource is in the table with a specification exactly when the last event about that resource was the addition of a LAN with that specification.\<close>

theorem table_holds_last_word:
  assumes "lister_run keys_of evs s"
  shows "plugin_lookup (Lister s) n = Some spec \<longleftrightarrow> last_word evs n (Added spec)"
  unfolding lister_run_table [OF assms] by (rule registry.lookup_replay)

theorem table_holds_last_word_witness:
  "plugin_lookup (Lister one_added) ''k8slan-mac-s2'' = Some sample_spec"
  unfolding table_holds_last_word [OF one_added_run]
  using last_word_snoc_here [of "''k8slan-mac-s2''" "Added sample_spec" "[]" "Added sample_spec"]
  by (simp add: concerns_def sample_spec_def naming_defs)

text \<open>C29: nothing keeps two LANs from listing a spoke of one name, and their attachment definitions then name one resource: once both are added, a plugin made for it serves the LAN added last, also to the pods of the other one, and when that LAN is removed the resource is withdrawn although the other LAN is still there.\<close>

theorem shared_spoke_hijacked:
  assumes "s \<in> set (elems (SpokeList lan))" and "s \<in> set (elems (SpokeList lan'))" and "readable_spoke s k"
  shows "genNAD (GetDPResouceName s k) ns \<in> set (GetNADs lan ns) \<and> genNAD (GetDPResouceName s k) ns' \<in> set (GetNADs lan' ns') \<and>
    nad_resource (genNAD (GetDPResouceName s k) ns) = nad_resource (genNAD (GetDPResouceName s k) ns') \<and>
    (\<exists>p. NewPlugin (Inr hostname) (add_lan lan' (add_lan lan ml)) (GetDPResouceName s k) = Inr (Some p) \<and>
       PluginName p = s \<and> Lan p = lan') \<and>
    NewPlugin (Inr hostname) (remove_lan lan' (add_lan lan' (add_lan lan ml))) (GetDPResouceName s k) = Inr None \<and>
    GetDPResouceName s k \<notin> fset (fmdom (DeviceList (remove_lan lan' (add_lan lan' (add_lan lan ml)))))"
proof (intro conjI)
  let ?r = "GetDPResouceName s k" and ?both = "add_lan lan' (add_lan lan ml)"
  show "genNAD ?r ns \<in> set (GetNADs lan ns)" "genNAD ?r ns' \<in> set (GetNADs lan' ns')"
    using assms unfolding GetNADs_in_iff by blast+
  show "nad_resource (genNAD ?r ns) = nad_resource (genNAD ?r ns')" by simp
  have there: "?r \<in> set (lan_resources lan')" unfolding naming.names_set using assms(2) by blast
  have "plugin_lookup ?both ?r = Some lan'" unfolding registry.lookup_add using there by simp
  then show "\<exists>p. NewPlugin (Inr hostname) ?both ?r = Inr (Some p) \<and> PluginName p = s \<and> Lan p = lan'"
    using NewMacvtapDevicePlugin_resource [OF assms(3), of hostname lan'] by (simp add: NewPlugin_def plugin_lookup_def)
  show gone: "?r \<notin> fset (fmdom (DeviceList (remove_lan lan' ?both)))"
    unfolding fmdom_remove_lan using there by blast
  then show "NewPlugin (Inr hostname) (remove_lan lan' ?both) ?r = Inr None"
    by (simp add: NewPlugin_def fmlookup_dom_iff split: option.split)
qed

text \<open>Two valid LANs that have nothing in common but the name of a spoke.\<close>

definition other_spec :: LANSpec where
  "other_spec = sample_spec\<lparr>NS := Some ''lab2'', BridgeName := Some ''br1'', VxLANName := Some ''vx1'', VNI := Some 200,
     SpokeList := Some [''s1'']\<rparr>"

theorem shared_spoke_hijacked_witness:
  "valid_spec sample_spec \<and> valid_spec other_spec \<and>
   (\<exists>p. NewPlugin (Inr ''node1'') (add_lan other_spec (add_lan sample_spec NewMacvtapLister)) ''k8slan-veth-s1'' = Inr (Some p) \<and>
     Lan p = other_spec) \<and>
   NewPlugin (Inr ''node1'') (remove_lan other_spec (add_lan other_spec (add_lan sample_spec NewMacvtapLister)))
     ''k8slan-veth-s1'' = Inr None"
proof -
  have "leading_space ''lab2'' = 0" by code_simp
  then have "valid_spec other_spec"
    using sample_valid not_blankI by (simp add: valid_spec_def other_spec_def sample_spec_def ifname_ok_def)
  moreover have "''s1'' \<in> set (elems (SpokeList sample_spec))" "''s1'' \<in> set (elems (SpokeList other_spec))"
    by (simp_all add: other_spec_def sample_spec_def)
  moreover have "readable_spoke ''s1'' True"
    by (auto simp: readable_spoke_def naming_defs dest!: sublist_length_le)
  moreover have "GetDPResouceName ''s1'' True = ''k8slan-veth-s1''" by (simp add: naming_defs)
  ultimately show ?thesis
    using sample_valid shared_spoke_hijacked [of "''s1''" sample_spec other_spec True "''default''" "''default''" "''node1''" NewMacvtapLister]
    by auto
qed

text \<open>C37: when the loop takes a removal that leaves no resource, it sends nothing: the device-plugin manager keeps the list it was last given, with resources that are no longer offered.\<close>

theorem last_removal_unreported:
  assumes "iterates keys_of" and "RemovChan s = spec # rest" and "Report s = None"
    and "fset (fmdom (DeviceList (Lister s))) \<subseteq> set (lan_resources spec)"
  shows "\<exists>t. discover_step keys_of s t \<and> fmdom (DeviceList (Lister t)) = {||} \<and> Sent t = Sent s \<and> Report t = None"
proof -
  let ?ml = "remove_lan spec (Lister s)"
  have "fset (fmdom (DeviceList ?ml)) = {}"
    using assms(4) unfolding fmdom_remove_lan by blast
  then have none: "fmdom (DeviceList ?ml) = {||}" by (simp add: fset_inject [symmetric])
  have "discover_step keys_of s (s\<lparr>RemovChan := rest, Lister := ?ml, Report := report keys_of ?ml\<rparr>)"
    by (rule discover_step.take_remove [OF assms(3,2) refl])
  with none report_None [OF assms(1), of ?ml] show ?thesis
    by (intro exI [of _ "s\<lparr>RemovChan := rest, Lister := ?ml, Report := report keys_of ?ml\<rparr>"]) simp
qed

theorem last_removal_unreported_witness:
  "\<exists>t. discover_step sorted_keys (one_added\<lparr>RemovChan := [sample_spec]\<rparr>) t \<and>
     fmdom (DeviceList (Lister t)) = {||} \<and> Sent t = Sent one_added \<and> Report t = None \<and> Sent one_added \<noteq> []"
proof -
  have dom: "fset (fmdom (DeviceList (Lister one_added))) = set (lan_resources sample_spec)"
    by (simp add: one_added_def Let_def fmdom_add_lan NewMacvtapLister_def del: set_concat)
  have "\<exists>t. discover_step sorted_keys (one_added\<lparr>RemovChan := [sample_spec]\<rparr>) t \<and>
      fmdom (DeviceList (Lister t)) = {||} \<and> Sent t = Sent (one_added\<lparr>RemovChan := [sample_spec]\<rparr>) \<and> Report t = None"
  proof (rule last_removal_unreported [OF sorted_keys_iterates])
    show "RemovChan (one_added\<lparr>RemovChan := [sample_spec]\<rparr>) = sample_spec # []" by simp
    show "Report (one_added\<lparr>RemovChan := [sample_spec]\<rparr>) = None" by (simp add: one_added_def Let_def)
    show "fset (fmdom (DeviceList (Lister (one_added\<lparr>RemovChan := [sample_spec]\<rparr>)))) \<subseteq> set (lan_resources sample_spec)"
      using equalityD1 [OF dom] by (simp del: set_concat)
  qed
  then show ?thesis by (simp add: one_added_def Let_def)
qed



text \<open>The resource of every attachment definition of a LAN is in the table once the LAN has been added, and the plugin made for it knows its spoke, its kind and its specification and advertises one device, named after the spoke and the kind.\<close>

lemma NAD_resource_served:
  assumes "n \<in> set (GetNADs spec ns)"
    and "\<And>s k. s \<in> set (elems (SpokeList spec)) \<Longrightarrow> readable_spoke s k"
  shows "\<exists>s k p. s \<in> set (elems (SpokeList spec)) \<and>
    nad_resource n = Some (GetResourceNamespace @ ''/'' @ GetDPResouceName s k) \<and>
    NewPlugin (Inr hostname) (add_lan spec ml) (GetDPResouceName s k) = Inr (Some p) \<and>
    PluginName p = s \<and> dummyMACVTAP p = k \<and> Lan p = spec \<and> PluginHost p = hostname \<and>
    map ID (generateMacvtapDevices p) = [device_id s k]"
proof -
  from assms(1) obtain s k where n: "s \<in> set (elems (SpokeList spec))" "n = genNAD (GetDPResouceName s k) ns"
    unfolding GetNADs_in_iff by blast
  have "plugin_lookup (add_lan spec ml) (GetDPResouceName s k) = Some spec"
    unfolding registry.lookup_add naming.names_set using n(1) by auto
  moreover note NewMacvtapDevicePlugin_resource [OF assms(2) [OF n(1)], of hostname k spec]
  ultimately show ?thesis using n
    by (intro exI [of _ s] exI [of _ k])
      (simp add: NewPlugin_def plugin_lookup_def generateMacvtapDevices_eq device_id_def GetResourceNamespace_def)
qed

lemma NAD_resource_served_witness:
  "\<exists>s k p. s \<in> {''s1'', ''s2''} \<and>
    nad_resource (genNAD ''k8slan-veth-s1'' ''default'') =
      Some (GetResourceNamespace @ ''/'' @ GetDPResouceName s k) \<and>
    NewPlugin (Inr ''node1'') (add_lan sample_spec NewMacvtapLister) (GetDPResouceName s k) = Inr (Some p) \<and>
    PluginName p = s \<and> dummyMACVTAP p = k \<and> Lan p = sample_spec \<and> PluginHost p = ''node1'' \<and>
    map ID (generateMacvtapDevices p) = [device_id s k]"
proof -
  have spokes: "set (elems (SpokeList sample_spec)) = {''s1'', ''s2''}" by (simp add: sample_spec_def)
  have "genNAD ''k8slan-veth-s1'' ''default'' \<in> set (GetNADs sample_spec ''default'')"
    by (simp add: GetNADs_def sample_spec_def naming_defs)
  moreover have "readable_spoke s k" if "s \<in> set (elems (SpokeList sample_spec))" for s k
    using that by (auto simp: spokes readable_spoke_def naming_defs dest!: sublist_length_le split: if_splits)
  ultimately show ?thesis
    using NAD_resource_served [of "genNAD ''k8slan-veth-s1'' ''default''" sample_spec "''default''"
        "''node1''" NewMacvtapLister] unfolding spokes by blast
qed

end
