(* ===== verification/Webhook.thy ===== *)
theory Webhook
  imports LanTypes
begin

section \<open>The admission webhooks of the LAN resource\<close>

text \<open>
  Models \<open>internal/webhook/v1beta1/lan_webhook.go\<close>: the defaulter, the three validators, and
  the life of a stored LAN under them as a step relation. The API server calls the handlers;
  what it does around them is the part of its documented behaviour written in the rules of
  \<open>store_step\<close>.
\<close>

subsection \<open>Handlers\<close>

text \<open>A \<open>runtime.Object\<close> is a LAN or something of another Go type.\<close>

datatype runtime_object = LANObject LAN | OtherObject string

fun go_type :: "runtime_object \<Rightarrow> string" where
  "go_type (LANObject _) = ''*v1beta1.LAN''"
| "go_type (OtherObject t) = t"

datatype webhook_error =
    ExpectedLAN string
  | ExpectedNewLAN string
  | ExpectedOldLAN string
  | SpecForbidden
  | BadSpec lan_error
  | ForeignFinalizer string

fun of_lan_fault :: "lan_error fault \<Rightarrow> webhook_error fault" where
  "of_lan_fault (Panic s) = Panic s"
| "of_lan_fault (Error e) = Error (BadSpec e)"

definition check_spec :: "LANSpec \<Rightarrow> (webhook_error, unit) outcome" where
  "check_spec spec = (case Validate spec of Inl f \<Rightarrow> Inl (of_lan_fault f) | Inr u \<Rightarrow> Inr u)"

record LANCustomDefaulter =
  vxport :: int32
  vxgrp :: string

definition the_defaulter :: LANCustomDefaulter where
  "the_defaulter = \<lparr>vxport = DefaultVxPort, vxgrp = DefaultVxGrp\<rparr>"

fun SetDefaultGeneric :: "'a option \<Rightarrow> 'a \<Rightarrow> 'a option" where
  "SetDefaultGeneric (Some v) defVal = Some v"
| "SetDefaultGeneric None defVal = Some defVal"

definition default_spec :: "LANCustomDefaulter \<Rightarrow> LANSpec \<Rightarrow> LANSpec" where
  "default_spec d spec =
     (let spec1 = spec\<lparr>VxPort := SetDefaultGeneric (VxPort spec) (vxport d)\<rparr>
      in spec1\<lparr>VxLANGrp := SetDefaultGeneric (VxLANGrp spec1) (vxgrp d)\<rparr>)"

fun Default :: "LANCustomDefaulter \<Rightarrow> runtime_object \<Rightarrow> (webhook_error, runtime_object) outcome" where
  "Default d (OtherObject t) = Inl (Error (ExpectedLAN t))"
| "Default d (LANObject lan) = Inr (LANObject (lan\<lparr>Spec := default_spec d (Spec lan)\<rparr>))"

fun ValidateCreate :: "runtime_object \<Rightarrow> (webhook_error, unit) outcome" where
  "ValidateCreate (OtherObject t) = Inl (Error (ExpectedLAN t))"
| "ValidateCreate (LANObject lan) = check_spec (Spec lan)"

text \<open>The second error prints the type of the new object, as the source does.\<close>

fun ValidateUpdate :: "runtime_object \<Rightarrow> runtime_object \<Rightarrow> (webhook_error, unit) outcome" where
  "ValidateUpdate oldObj (OtherObject t) = Inl (Error (ExpectedNewLAN t))"
| "ValidateUpdate (OtherObject t) (LANObject lan) =
     Inl (Error (ExpectedOldLAN (go_type (LANObject lan))))"
| "ValidateUpdate (LANObject old) (LANObject lan) =
     (if Spec lan \<noteq> Spec old then Inl (Error SpecForbidden) else check_spec (Spec lan))"

definition check_finalizer :: "string \<Rightarrow> (webhook_error, unit) outcome" where
  "check_finalizer fin =
     (if \<not> HasPrefix fin FinalizerPrefix then Inl (Error (ForeignFinalizer fin)) else Inr ())"

fun ValidateDelete :: "runtime_object \<Rightarrow> (webhook_error, unit) outcome" where
  "ValidateDelete (OtherObject t) = Inl (Error (ExpectedLAN t))"
| "ValidateDelete (LANObject lan) = each check_finalizer (Finalizers (LANMeta lan))"

subsection \<open>What each handler does\<close>

lemma check_spec_Inr_iff [outcome]: "check_spec spec = Inr u \<longleftrightarrow> valid_spec spec"
  by (simp add: check_spec_def wrap_Inr_iff Validate_Inr)

lemma check_spec_panics_iff [outcome]: "panics (check_spec spec) \<longleftrightarrow> panics (Validate spec)"
  by (cases "Validate spec") (auto simp: check_spec_def panics_def split: fault.splits)

lemma SetDefaultGeneric_nonnil [simp]: "SetDefaultGeneric p v \<noteq> None"
  by (cases p) simp_all

lemma SetDefaultGeneric_ex [simp]: "\<exists>y. SetDefaultGeneric p v = Some y"
  by (cases p) simp_all

lemma SetDefaultGeneric_Some_iff:
  "SetDefaultGeneric p v = Some x \<longleftrightarrow> p = Some x \<or> p = None \<and> x = v"
  by (cases p) auto

lemma SetDefaultGeneric_idem [simp]:
  "SetDefaultGeneric (SetDefaultGeneric p v) w = SetDefaultGeneric p v"
  by (cases p) simp_all

lemma default_spec_fields [simp]:
  "NS (default_spec d s) = NS s" "BridgeName (default_spec d s) = BridgeName s"
  "VxLANName (default_spec d s) = VxLANName s" "VNI (default_spec d s) = VNI s"
  "DefaultVxDev (default_spec d s) = DefaultVxDev s" "VxDevMap (default_spec d s) = VxDevMap s"
  "SpokeList (default_spec d s) = SpokeList s"
  "VxPort (default_spec d s) = SetDefaultGeneric (VxPort s) (vxport d)"
  "VxLANGrp (default_spec d s) = SetDefaultGeneric (VxLANGrp s) (vxgrp d)"
  by (simp_all add: default_spec_def Let_def)

lemma default_spec_idem [simp]: "default_spec d (default_spec d s) = default_spec d s"
  by (simp add: default_spec_def)

lemma default_spec_id: "VxPort s \<noteq> None \<Longrightarrow> VxLANGrp s \<noteq> None \<Longrightarrow> default_spec d s = s"
  by (auto simp: default_spec_def)

lemma ValidateDelete_Inr_iff:
  "ValidateDelete (LANObject lan) = Inr () \<longleftrightarrow>
     (\<forall>fin \<in> set (Finalizers (LANMeta lan)). HasPrefix fin FinalizerPrefix)"
  by (auto simp: each_Inr_iff check_finalizer_def)

subsection \<open>The life of a stored LAN\<close>

text \<open>
  A name in the API server holds no object or one. A create or update request goes through
  the defaulter and then the validator; a delete request through its validator, after which
  the server sets the deletion timestamp and takes the object away once it has no finalizer
  left. Metadata other than the timestamp may change in any update.
\<close>

inductive store_step :: "LANCustomDefaulter \<Rightarrow> LAN option \<Rightarrow> LAN option \<Rightarrow> bool"
  for d :: LANCustomDefaulter where
  create: "Default d (LANObject req) = Inr (LANObject obj) \<Longrightarrow>
     ValidateCreate (LANObject obj) = Inr () \<Longrightarrow> store_step d None (Some obj)"
| update: "Default d (LANObject req) = Inr (LANObject obj) \<Longrightarrow>
     ValidateUpdate (LANObject old) (LANObject obj) = Inr () \<Longrightarrow> store_step d (Some old) (Some obj)"
| mark: "ValidateDelete (LANObject old) = Inr () \<Longrightarrow> 0 < t \<Longrightarrow>
     store_step d (Some old) (Some (old\<lparr>LANMeta := (LANMeta old)\<lparr>DeletionTimestamp := Some t\<rparr>\<rparr>))"
| collect: "Finalizers (LANMeta old) = [] \<Longrightarrow> store_step d (Some old) None"

inductive_cases store_step_fromE: "store_step d (Some old) (Some obj)"
inductive_cases store_step_newE: "store_step d None (Some obj)"

text \<open>What holds of every stored object: it is valid, and the defaulted fields are set.\<close>

definition stored_ok :: "LANSpec \<Rightarrow> bool" where
  "stored_ok spec \<longleftrightarrow> valid_spec spec \<and> VxPort spec \<noteq> None"

lemma store_step_created:
  assumes "store_step d None (Some obj)"
  shows "stored_ok (Spec obj)"
  using assms by (cases rule: store_step_newE) (auto simp: stored_ok_def check_spec_Inr_iff)

lemma store_step_spec:
  assumes "store_step d (Some old) (Some obj)"
  shows "Spec obj = Spec old"
  using assms by (cases rule: store_step_fromE) (auto split: if_splits)

inductive stored :: "LANCustomDefaulter \<Rightarrow> LAN option \<Rightarrow> bool" for d :: LANCustomDefaulter where
  absent: "stored d None"
| step: "stored d s \<Longrightarrow> store_step d s t \<Longrightarrow> stored d t"

lemma stored_invariant: "stored d s \<Longrightarrow> (case s of None \<Rightarrow> True | Some lan \<Rightarrow> stored_ok (Spec lan))"
proof (induction rule: stored.induct)
  case absent
  show ?case by simp
next
  case (step s t)
  then show ?case
    by (cases s; cases t) (auto dest: store_step_created store_step_spec)
qed

text \<open>Between its creation and its collection an object keeps its specification.\<close>

fun life :: "LANCustomDefaulter \<Rightarrow> LAN \<Rightarrow> LAN list \<Rightarrow> bool" where
  "life d lan [] \<longleftrightarrow> True"
| "life d lan (l # ls) \<longleftrightarrow> store_step d (Some lan) (Some l) \<and> life d l ls"

lemma life_spec: "life d lan ls \<Longrightarrow> l \<in> set ls \<Longrightarrow> Spec l = Spec lan"
  by (induction ls arbitrary: lan) (auto dest: store_step_spec)

subsection \<open>Properties\<close>

definition sample_lan :: LAN where
  "sample_lan =
     \<lparr>LANType = \<lparr>APIVersion = ''lan.k8slan.io/v1beta1'', Kind = ''LAN''\<rparr>,
      LANMeta = empty_meta\<lparr>Name := ''lan1'', Namespace := ''default''\<rparr>,
      Spec = sample_spec, Status = \<lparr>Conditions = None\<rparr>\<rparr>"

lemma sample_lan_simps [simp]:
  "Spec sample_lan = sample_spec" "DeletionTimestamp (LANMeta sample_lan) = None"
  "Finalizers (LANMeta sample_lan) = []" "Name (LANMeta sample_lan) = ''lan1''"
  "Namespace (LANMeta sample_lan) = ''default''"
  by (simp_all add: sample_lan_def empty_meta_def)

lemma sample_created: "store_step the_defaulter None (Some sample_lan)"
proof (rule store_step.create [of the_defaulter sample_lan sample_lan])
  show "Default the_defaulter (LANObject sample_lan) = Inr (LANObject sample_lan)"
    by (simp add: sample_lan_def default_spec_id sample_spec_def)
  show "ValidateCreate (LANObject sample_lan) = Inr ()"
    using sample_valid by (simp add: check_spec_Inr_iff sample_lan_def)
qed

lemma sample_stored: "stored the_defaulter (Some sample_lan)"
  by (rule stored.step [OF stored.absent sample_created])

text \<open>C4: every LAN the API server holds, after any sequence of creations, updates and deletions that went through the webhooks, has a valid specification with its VxLAN port set.\<close>

theorem stored_LAN_valid:
  assumes "stored d (Some obj)"
  shows "valid_spec (Spec obj) \<and> VxPort (Spec obj) \<noteq> None"
  using stored_invariant [OF assms] by (simp add: stored_ok_def)

theorem stored_LAN_valid_witness: "valid_spec (Spec sample_lan) \<and> VxPort (Spec sample_lan) \<noteq> None"
  by (rule stored_LAN_valid [OF sample_stored])

text \<open>C34: from its creation until it is collected, no request changes the specification of a LAN.\<close>

theorem stored_spec_immutable:
  assumes "life d obj later" and "obj' \<in> set later"
  shows "Spec obj' = Spec obj"
  using assms by (rule life_spec)

theorem stored_spec_immutable_witness:
  "Spec (sample_lan\<lparr>LANMeta := (LANMeta sample_lan)\<lparr>DeletionTimestamp := Some 5\<rparr>\<rparr>) = Spec sample_lan"
proof (rule stored_spec_immutable [of the_defaulter sample_lan])
  let ?gone = "sample_lan\<lparr>LANMeta := (LANMeta sample_lan)\<lparr>DeletionTimestamp := Some 5\<rparr>\<rparr>"
  have "store_step the_defaulter (Some sample_lan) (Some ?gone)"
    by (rule store_step.mark) (simp_all add: sample_lan_def empty_meta_def)
  then show "life the_defaulter sample_lan [?gone]" by simp
qed simp

end
