(* ===== verification/Controller.thy ===== *)
theory Controller
  imports LanTypes
begin

section \<open>The LAN operator: attachment definitions for every spoke\<close>

text \<open>
  Models \<open>internal/controller/lan_controller.go\<close>. The API server and the controller-runtime
  library are not part of the repository: the operations the reconciler calls on them are the
  fields of \<open>client\<close>, an argument of every definition. What the proofs need of them is the
  locale \<open>api_server\<close>, stated over the set of attachment definitions the server holds.
\<close>

subsection \<open>The reconciler\<close>

record ('e, 'w) client =
  Get :: "string \<Rightarrow> string \<Rightarrow> ('w, 'e, LAN) eff"
  ListNADs :: "('w, 'e, NAD list) eff"
  Create :: "NAD \<Rightarrow> ('w, 'e, unit) eff"
  SetControllerReference :: "LAN \<Rightarrow> NAD \<Rightarrow> 'e + NAD"
  IgnoreNotFound :: "'e \<Rightarrow> 'e option"

definition ignoring :: "('e \<Rightarrow> 'e option) \<Rightarrow> 'e \<Rightarrow> 'e + unit" where
  "ignoring ign e = (case ign e of None \<Rightarrow> Inr () | Some e' \<Rightarrow> Inl e')"

text \<open>The inner loop, which stops at the first attachment definition of the same name.\<close>

fun nad_found :: "NAD \<Rightarrow> NAD list \<Rightarrow> bool" where
  "nad_found nad [] = False"
| "nad_found nad (enad # enads) = (if nad_name nad = nad_name enad then True else nad_found nad enads)"

text \<open>The outer loop: the two failures inside it are logged and the loop goes on.\<close>

fun create_missing :: "('e, 'w) client \<Rightarrow> LAN \<Rightarrow> NAD list \<Rightarrow> NAD list \<Rightarrow> 'w \<Rightarrow> 'w" where
  "create_missing c lan existing [] w = w"
| "create_missing c lan existing (nad # nads) w =
     (if nad_found nad existing then create_missing c lan existing nads w
      else case SetControllerReference c lan nad of
        Inl err \<Rightarrow> create_missing c lan existing nads w
      | Inr owned \<Rightarrow>
          (case Create c owned w of (_, w') \<Rightarrow> create_missing c lan existing nads w'))"

definition Reconcile :: "('e, 'w) client \<Rightarrow> string \<Rightarrow> string \<Rightarrow> ('w, 'e, unit) eff" where
  "Reconcile c ns name =
     branch (Get c ns name)
       (\<lambda>err w. (ignoring (IgnoreNotFound c) err, w))
       (\<lambda>lan. let nads = GetNADs (Spec lan) ns
              in branch (ListNADs c)
                   (\<lambda>err w. (ignoring (IgnoreNotFound c) err, w))
                   (\<lambda>existing w. (Inr (), create_missing c lan existing nads w)))"

lemma nad_found_iff: "nad_found nad xs \<longleftrightarrow> nad_name nad \<in> nad_name ` set xs"
  by (induction xs) auto

subsection \<open>The index on controllers\<close>

text \<open>
  \<open>extractKey\<close> with \<open>metav1.GetControllerOf\<close> as its argument. \<open>GroupVersion.String()\<close> is
  the constant group and version of \<open>api/v1beta1/groupversion_info.go\<close>.
\<close>

definition GroupVersion :: string where
  "GroupVersion = ''lan.k8slan.io/v1beta1''"

definition extractKey :: "(ObjectMeta \<Rightarrow> OwnerReference option) \<Rightarrow> NAD \<Rightarrow> string list" where
  "extractKey GetControllerOf job =
     (case GetControllerOf (NADMeta job) of
       None \<Rightarrow> []
     | Some owner \<Rightarrow>
         if OwnerAPIVersion owner \<noteq> GroupVersion \<or> OwnerKind owner \<noteq> ''Lab'' then []
         else [OwnerName owner])"

subsection \<open>The contract of the API server\<close>

text \<open>
  \<open>held w\<close> is the set of attachment definitions the server holds, over all namespaces;
  \<open>owned_by lan n\<close> says what an owner reference to \<open>lan\<close> adds to \<open>n\<close>. Listing returns what
  is held. Creating adds the object or fails and changes nothing; when it fails is up to the
  server (the name is taken, or is no name it admits, or the operator may not create the
  object), and so it is for owner references.
\<close>

definition owned_by :: "LAN \<Rightarrow> NAD \<Rightarrow> NAD" where
  "owned_by lan n =
     n\<lparr>NADMeta := (NADMeta n)\<lparr>OwnerReferences :=
        OwnerReferences (NADMeta n) @
        [\<lparr>OwnerAPIVersion = APIVersion (LANType lan), OwnerKind = Kind (LANType lan),
          OwnerName = Name (LANMeta lan), IsController = True\<rparr>]\<rparr>\<rparr>"

definition taken :: "NAD set \<Rightarrow> NAD \<Rightarrow> bool" where
  "taken held n \<longleftrightarrow> (\<exists>m \<in> held. nad_name m = nad_name n \<and> nad_namespace m = nad_namespace n)"

lemma owned_by_simps [simp]:
  "nad_name (owned_by lan n) = nad_name n" "nad_namespace (owned_by lan n) = nad_namespace n"
  "Config (owned_by lan n) = Config n" "nad_resource (owned_by lan n) = nad_resource n"
  by (simp_all add: owned_by_def nad_resource_def)

text \<open>What a LAN still lacks when \<open>H\<close> is held: its definitions whose name no one has.\<close>

definition missing :: "LAN \<Rightarrow> string \<Rightarrow> NAD set \<Rightarrow> NAD set" where
  "missing lan ns H = {n \<in> set (GetNADs (Spec lan) ns). nad_name n \<notin> nad_name ` H}"

text \<open>
  The server refused \<open>n\<close> its owner or, at a state between \<open>w\<close> and \<open>w'\<close>, its creation.
\<close>

definition refused :: "('e, 'w) client \<Rightarrow> ('w \<Rightarrow> NAD set) \<Rightarrow> LAN \<Rightarrow> 'w \<Rightarrow> 'w \<Rightarrow> NAD \<Rightarrow> bool" where
  "refused c held lan w w' n \<longleftrightarrow>
     (\<exists>e. SetControllerReference c lan n = Inl e) \<or>
     (\<exists>w0 e w1. held w \<subseteq> held w0 \<and> held w0 \<subseteq> held w' \<and> Create c (owned_by lan n) w0 = (Inl e, w1))"

lemma refused_mono: "refused c held lan v v' n \<Longrightarrow> held w \<subseteq> held v \<Longrightarrow> held v' \<subseteq> held w' \<Longrightarrow> refused c held lan w w' n"
  unfolding refused_def by (meson order_trans)

locale api_server =
  fixes c :: "('e, 'w) client"
    and held :: "'w \<Rightarrow> NAD set"
    and lans :: "'w \<Rightarrow> string \<Rightarrow> string \<Rightarrow> LAN option"
  assumes get_found: "lans w ns name = Some lan \<Longrightarrow> Get c ns name w = (Inr lan, w)"
    and get_missing: "lans w ns name = None \<Longrightarrow>
      \<exists>e. Get c ns name w = (Inl e, w) \<and> IgnoreNotFound c e = None"
    and list_held: "\<exists>xs. ListNADs c w = (Inr xs, w) \<and> set xs = held w"
    and create_ok: "Create c n w = (Inr (), w') \<Longrightarrow> held w' = insert n (held w) \<and> lans w' = lans w"
    and create_refused: "Create c n w = (Inl e, w') \<Longrightarrow> held w' = held w \<and> lans w' = lans w"
    and set_controller: "OwnerReferences (NADMeta n) = [] \<Longrightarrow> SetControllerReference c lan n = Inr m \<Longrightarrow>
      m = owned_by lan n"
begin

text \<open>
  What the loop leaves behind: the definitions held before, and an owned definition for every
  missing one that the server did not refuse.
\<close>

lemma create_missing_held:
  assumes "\<forall>n \<in> set nads. OwnerReferences (NADMeta n) = []"
  shows "\<exists>made \<subseteq> {n \<in> set nads. \<not> nad_found n existing}.
    held (create_missing c lan existing nads w) = held w \<union> owned_by lan ` made \<and>
    lans (create_missing c lan existing nads w) = lans w \<and>
    (\<forall>n \<in> {n \<in> set nads. \<not> nad_found n existing} - made. refused c held lan w (create_missing c lan existing nads w) n)"
  using assms
proof (induction nads arbitrary: w)
  case (Cons n nads)
  text \<open>The round either leaves \<open>held\<close> alone, with \<open>n\<close> found or refused, or adds \<open>n\<close>.\<close>
  obtain v where step: "create_missing c lan existing (n # nads) w = create_missing c lan existing nads v"
    and lans: "lans v = lans w"
    and round: "held v = held w \<and> (nad_found n existing \<or> refused c held lan w w n) \<or>
      held v = insert (owned_by lan n) (held w) \<and> \<not> nad_found n existing"
  proof (cases "nad_found n existing")
    case False
    show ?thesis
    proof (cases "SetControllerReference c lan n")
      case (Inl e)
      with that [of w] False show ?thesis by (simp add: refused_def)
    next
      case (Inr m)
      with set_controller Cons.prems have m: "m = owned_by lan n" by simp
      obtain r v where run: "Create c m w = (r, v)" by (cases "Create c m w")
      show ?thesis
      proof (cases r)
        case (Inl e)
        with run create_refused [of m w e v] have "held v = held w" "lans v = lans w" by auto
        with that [of v] False Inr run Inl m show ?thesis by (auto simp: refused_def)
      next
        case (Inr u)
        with run create_ok [of m w v] have "held v = insert m (held w)" "lans v = lans w" by auto
        with that [of v] False \<open>SetControllerReference c lan n = Inr m\<close> run m show ?thesis by auto
      qed
    qed
  qed (use that [of w] in simp)
  let ?w' = "create_missing c lan existing nads v"
  from Cons.IH [of v] Cons.prems obtain made where made: "made \<subseteq> {n \<in> set nads. \<not> nad_found n existing}"
    "held ?w' = held v \<union> owned_by lan ` made" "lans ?w' = lans v"
    "\<forall>n \<in> {n \<in> set nads. \<not> nad_found n existing} - made. refused c held lan v ?w' n" by auto
  from round have grows: "held w \<subseteq> held v" by blast
  with made(4) have later: "refused c held lan w ?w' m" if "m \<in> set nads" "\<not> nad_found m existing" "m \<notin> made" for m
    using that by (intro refused_mono [of c held lan v ?w' m w ?w']) auto
  from round show ?case
  proof (elim disjE conjE)
    assume h: "held v = held w" and "refused c held lan w w n"
    then have "refused c held lan w ?w' n" using made(2) h by (intro refused_mono [of c held lan w w n w ?w']) auto
    with made lans later h show ?thesis unfolding step by (intro exI [of _ made]) auto
  next
    assume "held v = insert (owned_by lan n) (held w)" "\<not> nad_found n existing"
    with made lans later show ?thesis unfolding step by (intro exI [of _ "insert n made"]) auto
  next
    assume "held v = held w" "nad_found n existing"
    with made lans later show ?thesis unfolding step by (intro exI [of _ made]) auto
  qed
qed simp

lemma Reconcile_found:
  assumes "lans w ns name = Some lan"
  shows "\<exists>w'. \<exists>made \<subseteq> missing lan ns (held w). Reconcile c ns name w = (Inr (), w') \<and>
    held w' = held w \<union> owned_by lan ` made \<and> lans w' = lans w \<and>
    (\<forall>n \<in> missing lan ns (held w) - made. refused c held lan w w' n)"
proof -
  obtain xs where xs: "ListNADs c w = (Inr xs, w)" "set xs = held w"
    using list_held by blast
  have "\<forall>n \<in> set (GetNADs (Spec lan) ns). OwnerReferences (NADMeta n) = []"
    by (auto simp: GetNADs_eq)
  note loop = create_missing_held [OF this, of xs lan w]
  have "Reconcile c ns name w = (Inr (), create_missing c lan xs (GetNADs (Spec lan) ns) w)"
    using xs(1) by (simp add: Reconcile_def Let_def get_found [OF assms])
  moreover have "missing lan ns (held w) = {n \<in> set (GetNADs (Spec lan) ns). \<not> nad_found n xs}"
    by (simp add: missing_def nad_found_iff xs(2))
  ultimately show ?thesis using loop by simp
qed

lemma Reconcile_missing:
  "lans w ns name = None \<Longrightarrow> Reconcile c ns name w = (Inr (), w)"
  using get_missing [of w ns name] by (auto simp: Reconcile_def ignoring_def)

end

end
