(* ===== verification/Daemon.thy ===== *)
theory Daemon
  imports Lister Webhook Controller
begin

section \<open>The node agent: finalizers and the lister's channels\<close>

text \<open>
  Models \<open>dset/main.go\<close>, the reconciler every node runs. A send on a channel that is full
  waits, so the reconciler is cut at its sends into what it does before (\<open>reconcile_begin\<close>)
  and after (\<open>reconcile_end\<close>); \<open>Reconcile_node\<close> composes them, and the relation \<open>agent_step\<close>
  interleaves them with the lister's loop. The client and \<open>controllerutil\<close>'s three functions
  on finalizers are fields of \<open>node_client\<close>; the host is the record of \<open>NetHost\<close>.
\<close>

subsection \<open>The reconciler\<close>

record ('e, 'w) node_client = "('e, 'w) client" +
  Update :: "LAN \<Rightarrow> ('w, 'e, unit) eff"
  ContainsFinalizer :: "LAN \<Rightarrow> string \<Rightarrow> bool"
  AddFinalizer :: "LAN \<Rightarrow> string \<Rightarrow> LAN"
  RemoveFinalizer :: "LAN \<Rightarrow> string \<Rightarrow> LAN"

definition chanDepth :: nat where
  "chanDepth = 16"

text \<open>The patch object that is built and marshalled; no caller is left in the source.\<close>

definition makeFinalizerPatch :: "(LAN \<Rightarrow> 'b) \<Rightarrow> LANStatus \<Rightarrow> LANSpec \<Rightarrow> LAN \<Rightarrow> string \<Rightarrow> 'b" where
  "makeFinalizerPatch marshal no_status no_spec lan fin =
     marshal \<lparr>LANType = \<lparr>APIVersion = APIVersion (LANType lan), Kind = Kind (LANType lan)\<rparr>,
       LANMeta = empty_meta\<lparr>Name := Name (LANMeta lan), Namespace := Namespace (LANMeta lan),
         Finalizers := [] @ [fin]\<rparr>,
       Spec = no_spec, Status = no_status\<rparr>"

definition myFinalizerName :: "string \<Rightarrow> string" where
  "myFinalizerName hostName = FinalizerPrefix @ ''/'' @ hostName"

text \<open>
  Where a reconciliation stands: returned, about to send, or, for a LAN that is going, with
  the removal sent and the finalizer still to be taken off.
\<close>

datatype phase =
    Idle
  | SendAdd LANSpec
  | SendRemove LANSpec LAN
  | Finish LAN

definition reconcile_begin ::
    "('e, 'w) node_client \<Rightarrow> 'w host \<Rightarrow> string \<Rightarrow> string \<Rightarrow> string \<Rightarrow> ('w, 'e fault, phase) eff" where
  "reconcile_begin c h hostName ns name =
     branch (Get c ns name)
       (\<lambda>err w. (case IgnoreNotFound c err of None \<Rightarrow> Inr Idle | Some e \<Rightarrow> Inl (Error e), w))
       (\<lambda>lan. let fin = myFinalizerName hostName in
          if IsZero (DeletionTimestamp (LANMeta lan)) then
            (if \<not> ContainsFinalizer c lan fin
             then attempt (Update c (AddFinalizer c lan fin)) Error (\<lambda>_. give Idle)
             else give (SendAdd (Spec lan)))
          else if ContainsFinalizer c lan fin then
            (case NS (Spec lan) of
               None \<Rightarrow> raise (Panic ''nil pointer dereference'')
             | Some nsname \<Rightarrow> (\<lambda>w. (Inr (SendRemove (Spec lan) lan), Remove h nsname w)))
          else give Idle)"

definition reconcile_end :: "('e, 'w) node_client \<Rightarrow> string \<Rightarrow> phase \<Rightarrow> ('w, 'e fault, unit) eff" where
  "reconcile_end c hostName ph =
     (case ph of
        Finish lan \<Rightarrow> attempt (Update c (RemoveFinalizer c lan (myFinalizerName hostName))) Error give
      | _ \<Rightarrow> give ())"

text \<open>The sends: a channel takes 16 values that are not yet received.\<close>

record chans =
  DPAddChan :: "LANSpec list"
  DPRemoveChan :: "LANSpec list"

definition send :: "phase \<Rightarrow> chans \<Rightarrow> (phase \<times> chans) option" where
  "send ph q =
     (case ph of
        SendAdd spec \<Rightarrow>
          if length (DPAddChan q) < chanDepth
          then Some (Idle, q\<lparr>DPAddChan := DPAddChan q @ [spec]\<rparr>) else None
      | SendRemove spec lan \<Rightarrow>
          if length (DPRemoveChan q) < chanDepth
          then Some (Finish lan, q\<lparr>DPRemoveChan := DPRemoveChan q @ [spec]\<rparr>) else None
      | _ \<Rightarrow> Some (ph, q))"

text \<open>The whole function; \<open>None\<close> where it waits at a send.\<close>

definition Reconcile_node ::
    "('e, 'w) node_client \<Rightarrow> 'w host \<Rightarrow> string \<Rightarrow> string \<Rightarrow> string \<Rightarrow> chans \<Rightarrow> 'w \<Rightarrow>
       (('e fault + unit) \<times> chans) option \<times> 'w" where
  "Reconcile_node c h hostName ns name q w =
     (case reconcile_begin c h hostName ns name w of
        (Inl f, w') \<Rightarrow> (Some (Inl f, q), w')
      | (Inr ph, w') \<Rightarrow>
          (case send ph q of
             None \<Rightarrow> (None, w')
           | Some (ph', q') \<Rightarrow>
               (case reconcile_end c hostName ph' w' of (r, w'') \<Rightarrow> (Some (r, q'), w''))))"

lemma myFinalizerName_inj: "myFinalizerName a = myFinalizerName b \<Longrightarrow> a = b"
  by (simp add: myFinalizerName_def)

text \<open>What the node agents put on an object does not keep the webhook from letting it go.\<close>

lemma ValidateDelete_own:
  assumes "set (Finalizers (LANMeta lan)) \<subseteq> range myFinalizerName"
  shows "ValidateDelete (LANObject lan) = Inr ()"
  unfolding ValidateDelete_Inr_iff
proof
  fix fin
  assume "fin \<in> set (Finalizers (LANMeta lan))"
  with assms obtain host where "fin = myFinalizerName host" by blast
  then show "HasPrefix fin FinalizerPrefix"
    by (simp add: myFinalizerName_def)
qed

subsection \<open>The contract of the server, and one reconciliation\<close>

text \<open>
  \<open>obj w ns n\<close> is the LAN the server holds. An update stores the object, except that an
  object that is going and has no finalizer left is taken away; a failed one changes nothing.
\<close>

definition stored_as :: "LAN \<Rightarrow> LAN option" where
  "stored_as lan =
     (if \<not> IsZero (DeletionTimestamp (LANMeta lan)) \<and> Finalizers (LANMeta lan) = [] then None else Some lan)"

definition with_finalizers :: "LAN \<Rightarrow> string list \<Rightarrow> LAN" where
  "with_finalizers lan fins = lan\<lparr>LANMeta := (LANMeta lan)\<lparr>Finalizers := fins\<rparr>\<rparr>"

lemma with_finalizers_simps [simp]:
  "Finalizers (LANMeta (with_finalizers lan fins)) = fins"
  "DeletionTimestamp (LANMeta (with_finalizers lan fins)) = DeletionTimestamp (LANMeta lan)"
  "Name (LANMeta (with_finalizers lan fins)) = Name (LANMeta lan)"
  "Namespace (LANMeta (with_finalizers lan fins)) = Namespace (LANMeta lan)"
  "Spec (with_finalizers lan fins) = Spec lan"
  "with_finalizers (with_finalizers lan fins') fins = with_finalizers lan fins"
  by (simp_all add: with_finalizers_def)

text \<open>One round of reconciliation on each of a list of nodes, each with empty channels.\<close>

definition no_chans :: chans where
  "no_chans = \<lparr>DPAddChan = [], DPRemoveChan = []\<rparr>"

fun each_node ::
    "('e, 'w) node_client \<Rightarrow> (string \<Rightarrow> 'w host) \<Rightarrow> string \<Rightarrow> string \<Rightarrow> string list \<Rightarrow> 'w \<Rightarrow> 'w option" where
  "each_node c h ns name [] w = Some w"
| "each_node c h ns name (node # nodes) w =
     (case Reconcile_node c (h node) node ns name no_chans w of
        (Some (Inr _, _), w') \<Rightarrow> each_node c h ns name nodes w'
      | _ \<Rightarrow> None)"

text \<open>The server is reachable and no one else writes: updates of what it holds go through.\<close>

definition updates_go_through :: "('e, 'w) node_client \<Rightarrow> ('w \<Rightarrow> string \<Rightarrow> string \<Rightarrow> LAN option) \<Rightarrow> bool" where
  "updates_go_through c obj \<longleftrightarrow>
     (\<forall>lan w. obj w (Namespace (LANMeta lan)) (Name (LANMeta lan)) \<noteq> None \<longrightarrow> (\<exists>w'. Update c lan w = (Inr (), w')))"

locale lan_server =
  fixes c :: "('e, 'w) node_client"
    and h :: "string \<Rightarrow> 'w host"
    and obj :: "'w \<Rightarrow> string \<Rightarrow> string \<Rightarrow> LAN option"
  assumes get_some: "obj w ns n = Some lan \<Longrightarrow> Get c ns n w = (Inr lan, w)"
    and get_none: "obj w ns n = None \<Longrightarrow> \<exists>e. Get c ns n w = (Inl e, w) \<and> IgnoreNotFound c e = None"
    and named: "obj w ns n = Some lan \<Longrightarrow> Namespace (LANMeta lan) = ns \<and> Name (LANMeta lan) = n"
    and update_ok: "Update c lan w = (Inr (), w') \<Longrightarrow>
      obj w' ns n = (if ns = Namespace (LANMeta lan) \<and> n = Name (LANMeta lan) then stored_as lan else obj w ns n)"
    and update_err: "Update c lan w = (Inl e, w') \<Longrightarrow> obj w' = obj w"
    and contains: "ContainsFinalizer c lan f \<longleftrightarrow> f \<in> set (Finalizers (LANMeta lan))"
    and add_finalizer: "f \<notin> set (Finalizers (LANMeta lan)) \<Longrightarrow>
      AddFinalizer c lan f = with_finalizers lan (Finalizers (LANMeta lan) @ [f])"
    and remove_finalizer: "RemoveFinalizer c lan f = with_finalizers lan (removeAll f (Finalizers (LANMeta lan)))"
    and unmount: "obj (snd (Unmount (h node) p fl w)) = obj w"
    and remove_file: "obj (snd (RemoveFile (h node) p w)) = obj w"
begin

lemma Remove_obj: "obj (Remove (h node) n w) = obj w"
proof -
  show ?thesis
    unfolding Remove_def DeleteNamed_def calling_def attempt_def
    using unmount [of node "nsPath n" UmountDetach w]
      remove_file [of node "nsPath n" "snd (Unmount (h node) (nsPath n) UmountDetach w)"]
    by (auto split: prod.split sum.split)
qed

text \<open>A new LAN gets the node's finalizer, and nothing is sent.\<close>

lemma Reconcile_registers:
  assumes "obj w ns n = Some lan" and "IsZero (DeletionTimestamp (LANMeta lan))"
    and "myFinalizerName node \<notin> set (Finalizers (LANMeta lan))"
    and "Reconcile_node c (h node) node ns n q w = (Some (Inr (), q'), w')"
  shows "q' = q \<and> obj w' ns n = Some (with_finalizers lan (Finalizers (LANMeta lan) @ [myFinalizerName node]))"
proof -
  let ?lan = "with_finalizers lan (Finalizers (LANMeta lan) @ [myFinalizerName node])"
  have upd: "reconcile_begin c (h node) node ns n w = attempt (Update c ?lan) Error (\<lambda>_. give Idle) w"
    using assms(1-3) by (simp add: reconcile_begin_def get_some Let_def contains add_finalizer)
  show ?thesis
  proof (cases "Update c ?lan w")
    case (Pair r w1)
    with upd assms(4) have "r = Inr ()" "q' = q" "w' = w1"
      by (cases r; simp add: Reconcile_node_def send_def reconcile_end_def)+
    with Pair update_ok [of ?lan w w1 ns n] named [OF assms(1)] assms(2) show ?thesis
      by (simp add: stored_as_def)
  qed
qed

text \<open>A LAN that has it is offered: its specification goes to the lister, or waits to.\<close>

lemma Reconcile_offers:
  assumes "obj w ns n = Some lan" and "IsZero (DeletionTimestamp (LANMeta lan))"
    and "myFinalizerName node \<in> set (Finalizers (LANMeta lan))"
  shows "Reconcile_node c (h node) node ns n q w =
    (if length (DPAddChan q) < 16 then Some (Inr (), q\<lparr>DPAddChan := DPAddChan q @ [Spec lan]\<rparr>) else None, w)"
  using assms
  by (simp add: Reconcile_node_def reconcile_begin_def get_some Let_def contains send_def reconcile_end_def
      chanDepth_def)

text \<open>Two reconciliations that return have offered it, whether it had the finalizer before or not.\<close>

lemma Reconcile_offers_within_two:
  assumes "obj w ns n = Some lan" and "IsZero (DeletionTimestamp (LANMeta lan))"
    and first: "Reconcile_node c (h node) node ns n q w = (Some (Inr (), q1), w1)"
    and second: "Reconcile_node c (h node) node ns n q1 w1 = (Some (Inr (), q2), w2)"
  shows "DPRemoveChan q2 = DPRemoveChan q \<and>
    (DPAddChan q2 = DPAddChan q @ [Spec lan] \<or> DPAddChan q2 = DPAddChan q @ [Spec lan, Spec lan])"
proof (cases "myFinalizerName node \<in> set (Finalizers (LANMeta lan))")
  case True
  from Reconcile_offers [OF assms(1,2) True, of q] first
  have "q1 = q\<lparr>DPAddChan := DPAddChan q @ [Spec lan]\<rparr>" "w1 = w" by (auto split: if_splits)
  with Reconcile_offers [OF assms(1,2) True, of q1] second show ?thesis by (auto split: if_splits)
next
  case False
  let ?lan = "with_finalizers lan (Finalizers (LANMeta lan) @ [myFinalizerName node])"
  from Reconcile_registers [OF assms(1,2) False first] have "q1 = q" "obj w1 ns n = Some ?lan" by auto
  moreover have "IsZero (DeletionTimestamp (LANMeta ?lan))" "Spec ?lan = Spec lan"
    "myFinalizerName node \<in> set (Finalizers (LANMeta ?lan))" using assms(2) by simp_all
  ultimately show ?thesis
    using Reconcile_offers [of w1 ns n ?lan node q] second by (auto split: if_splits)
qed

text \<open>A LAN that is going is withdrawn first; then the finalizer comes off, and only that one.\<close>

lemma Reconcile_withdraws:
  assumes "obj w ns n = Some lan" and "\<not> IsZero (DeletionTimestamp (LANMeta lan))"
    and "myFinalizerName node \<in> set (Finalizers (LANMeta lan))"
    and "Reconcile_node c (h node) node ns n q w = (Some (Inr (), q'), w')"
  shows "q' = q\<lparr>DPRemoveChan := DPRemoveChan q @ [Spec lan]\<rparr> \<and>
    obj w' ns n = stored_as (with_finalizers lan (removeAll (myFinalizerName node) (Finalizers (LANMeta lan))))"
proof -
  let ?lan = "with_finalizers lan (removeAll (myFinalizerName node) (Finalizers (LANMeta lan)))"
  from assms obtain nsname where nsname: "NS (Spec lan) = Some nsname"
    by (cases "NS (Spec lan)")
      (simp_all add: Reconcile_node_def reconcile_begin_def get_some Let_def contains)
  let ?w = "Remove (h node) nsname w"
  have "reconcile_begin c (h node) node ns n w = (Inr (SendRemove (Spec lan) lan), ?w)"
    using assms(1-3) nsname by (simp add: reconcile_begin_def get_some Let_def contains)
  with assms(4) have
    "Update c ?lan ?w = (Inr (), w')" and "q' = q\<lparr>DPRemoveChan := DPRemoveChan q @ [Spec lan]\<rparr>"
    by (auto simp: Reconcile_node_def send_def reconcile_end_def remove_finalizer attempt_Inr_iff
        split: prod.splits if_splits)
  with update_ok [of ?lan ?w w' ns n] named [OF assms(1)] show ?thesis by simp
qed

lemma Reconcile_gone:
  "obj w ns n = None \<Longrightarrow> Reconcile_node c (h node) node ns n q w = (Some (Inr (), q), w)"
  using get_none [of w ns n]
  by (auto simp: Reconcile_node_def reconcile_begin_def send_def reconcile_end_def)

lemma Reconcile_left:
  assumes "obj w ns n = Some lan" and "\<not> IsZero (DeletionTimestamp (LANMeta lan))"
    and "myFinalizerName node \<notin> set (Finalizers (LANMeta lan))"
  shows "Reconcile_node c (h node) node ns n q w = (Some (Inr (), q), w)"
  using assms
  by (simp add: Reconcile_node_def reconcile_begin_def get_some Let_def contains send_def reconcile_end_def)

text \<open>While updates go through, a round on a LAN that is going returns.\<close>

lemma Reconcile_returns:
  assumes upd: "updates_go_through c obj"
    and "obj w ns n = Some lan" and "\<not> IsZero (DeletionTimestamp (LANMeta lan))"
    and "NS (Spec lan) \<noteq> None" and "length (DPRemoveChan q) < 16"
  shows "\<exists>q' w'. Reconcile_node c (h node) node ns n q w = (Some (Inr (), q'), w')"
proof (cases "myFinalizerName node \<in> set (Finalizers (LANMeta lan))")
  case True
  from assms(4) obtain nsname where nsname: "NS (Spec lan) = Some nsname" by blast
  have "obj (Remove (h node) nsname w) (Namespace (LANMeta lan)) (Name (LANMeta lan)) \<noteq> None"
    using assms(2) named [OF assms(2)] by (simp add: Remove_obj)
  then obtain w' where "Update c (RemoveFinalizer c lan (myFinalizerName node)) (Remove (h node) nsname w) = (Inr (), w')"
    using upd by (fastforce simp: updates_go_through_def remove_finalizer)
  with True nsname assms(2,3,5) show ?thesis
    by (simp add: Reconcile_node_def reconcile_begin_def get_some Let_def contains send_def
        reconcile_end_def chanDepth_def)
next
  case False
  with Reconcile_left [OF assms(2,3)] show ?thesis by blast
qed

text \<open>
  Once every node whose finalizer is on a LAN that is going has reconciled it, the server
  does not hold it any more.
\<close>

lemma each_node_gone: "obj w ns n = None \<Longrightarrow> each_node c h ns n nodes w = Some w"
  by (induction nodes) (simp_all add: Reconcile_gone)

lemma each_node_collects:
  assumes upd: "updates_go_through c obj"
    and "obj w ns n = stored_as lan" and "\<not> IsZero (DeletionTimestamp (LANMeta lan))"
    and "NS (Spec lan) \<noteq> None"
    and "set (Finalizers (LANMeta lan)) \<subseteq> myFinalizerName ` set nodes"
  shows "\<exists>w'. each_node c h ns n nodes w = Some w' \<and> obj w' ns n = None"
  using assms(2-5)
proof (induction nodes arbitrary: w lan)
  case Nil
  then show ?case by (simp add: stored_as_def)
next
  case (Cons node nodes)
  show ?case
  proof (cases "obj w ns n")
    case None
    with each_node_gone show ?thesis by blast
  next
    case (Some lan')
    with Cons.prems(1) have lan': "obj w ns n = Some lan" by (simp add: stored_as_def split: if_splits)
    from Reconcile_returns [OF upd lan' Cons.prems(2,3), of no_chans node]
    obtain q' w' where run: "Reconcile_node c (h node) node ns n no_chans w = (Some (Inr (), q'), w')"
      by (auto simp: no_chans_def)
    let ?lan = "with_finalizers lan (removeAll (myFinalizerName node) (Finalizers (LANMeta lan)))"
    have "obj w' ns n = stored_as ?lan"
    proof (cases "myFinalizerName node \<in> set (Finalizers (LANMeta lan))")
      case True
      with Reconcile_withdraws [OF lan' Cons.prems(2) True run] show ?thesis by blast
    next
      case False
      with Reconcile_left [OF lan' Cons.prems(2) False] run lan' have "obj w' ns n = Some lan" by simp
      with False lan' Cons.prems(1) show ?thesis by (simp add: with_finalizers_def)
    qed
    moreover have "set (Finalizers (LANMeta ?lan)) \<subseteq> myFinalizerName ` set nodes"
      using Cons.prems(4) by auto
    ultimately show ?thesis
      using Cons.IH [of w' ?lan] Cons.prems(2,3) run by simp
  qed
qed

end

end
