(* ===== verification/RefServer.thy ===== *)
theory RefServer
  imports Daemon
begin

section \<open>A reference API server\<close>

text \<open>
  A concrete server: the attachment definitions and the LANs it holds. It models no code of
  the repository. It shows that the contracts \<open>api_server\<close> and \<open>lan_server\<close> can be met, and the
  witnesses run the reconcilers on it.
\<close>

datatype server_error = NotFound | AlreadyExists | AlreadyOwned | Invalid

record server_world =
  Nads :: "NAD list"
  Lans :: "string \<times> string \<Rightarrow> LAN option"

definition renamed :: "string \<Rightarrow> string \<Rightarrow> LAN \<Rightarrow> LAN" where
  "renamed ns n l = l\<lparr>LANMeta := (LANMeta l)\<lparr>Namespace := ns, Name := n\<rparr>\<rparr>"

definition ref_obj :: "server_world \<Rightarrow> string \<Rightarrow> string \<Rightarrow> LAN option" where
  "ref_obj w ns n = map_option (renamed ns n) (Lans w (ns, n))"

definition ref_held :: "server_world \<Rightarrow> NAD set" where
  "ref_held w = set (Nads w)"

definition ref_get :: "string \<Rightarrow> string \<Rightarrow> (server_world, server_error, LAN) eff" where
  "ref_get ns n = (\<lambda>w. case ref_obj w ns n of None \<Rightarrow> (Inl NotFound, w) | Some l \<Rightarrow> (Inr l, w))"

text \<open>Names are lower-case letters, digits, dots and hyphens, as the API server demands of objects.\<close>

definition name_admitted :: "string \<Rightarrow> bool" where
  "name_admitted n \<longleftrightarrow> n \<noteq> [] \<and> list_all (\<lambda>ch. ch \<in> set ''abcdefghijklmnopqrstuvwxyz0123456789.-'') n"

definition ref_create :: "NAD \<Rightarrow> (server_world, server_error, unit) eff" where
  "ref_create n =
     (\<lambda>w. if \<not> name_admitted (nad_name n) then (Inl Invalid, w)
          else if list_ex (\<lambda>m. nad_name m = nad_name n \<and> nad_namespace m = nad_namespace n) (Nads w)
          then (Inl AlreadyExists, w) else (Inr (), w\<lparr>Nads := n # Nads w\<rparr>))"

definition ref_own :: "LAN \<Rightarrow> NAD \<Rightarrow> server_error + NAD" where
  "ref_own l n = (if OwnerReferences (NADMeta n) = [] then Inr (owned_by l n) else Inl AlreadyOwned)"

definition ref_update :: "LAN \<Rightarrow> (server_world, server_error, unit) eff" where
  "ref_update l =
     (\<lambda>w. if Lans w (Namespace (LANMeta l), Name (LANMeta l)) = None then (Inl NotFound, w)
          else (Inr (), w\<lparr>Lans := (Lans w)((Namespace (LANMeta l), Name (LANMeta l)) := stored_as l)\<rparr>))"

definition ref_server :: "(server_error, server_world) node_client" where
  "ref_server =
     \<lparr>Get = ref_get, ListNADs = \<lambda>w. (Inr (Nads w), w), Create = ref_create,
      SetControllerReference = ref_own, IgnoreNotFound = \<lambda>e. if e = NotFound then None else Some e,
      Update = ref_update,
      ContainsFinalizer = \<lambda>l f. f \<in> set (Finalizers (LANMeta l)),
      AddFinalizer = \<lambda>l f. if f \<in> set (Finalizers (LANMeta l)) then l
                           else with_finalizers l (Finalizers (LANMeta l) @ [f]),
      RemoveFinalizer = \<lambda>l f. with_finalizers l (removeAll f (Finalizers (LANMeta l)))\<rparr>"

definition ref_api :: "(server_error, server_world) client" where
  "ref_api = client.truncate ref_server"

text \<open>A host whose calls succeed and do nothing, for the worlds of the server.\<close>

definition idle_host :: "'w host" where
  "idle_host =
     \<lparr>Stat = \<lambda>p. give (), MkdirAll = \<lambda>p. give (), CreateFile = \<lambda>p. give (), RemoveFile = \<lambda>p. give (),
      RemoveAll = \<lambda>p. give (), Mount = \<lambda>op s p. give (), Unmount = \<lambda>p f. give (), Unshare = give (),
      Getpid = \<lambda>w. 1, Gettid = \<lambda>w. 1, GetNS = \<lambda>p. give (NS_FD 1), SetNS = \<lambda>ns. give (),
      CloseNS = \<lambda>ns. give (), EnterNS = \<lambda>ns. give (), LinkByName = \<lambda>ns n. raise LinkNotFound,
      LinkAdd = \<lambda>ns l t. give l, LinkDel = \<lambda>ns l. give (), LinkSetUp = \<lambda>ns l. give (),
      LinkSetMaster = \<lambda>ns l m. give (), LinkSetFwdMask = \<lambda>ns l k. give (),
      LinkSetNsFd = \<lambda>ns l t. give (), LinkSetName = \<lambda>ns l n. give ()\<rparr>"

lemma renamed_same [simp]:
  "Namespace (LANMeta l) = ns \<Longrightarrow> Name (LANMeta l) = n \<Longrightarrow> renamed ns n l = l"
  by (rule LAN.equality) (auto simp: renamed_def intro: ObjectMeta.equality)

lemma renamed_meta [simp]:
  "Namespace (LANMeta (renamed ns n l)) = ns" "Name (LANMeta (renamed ns n l)) = n"
  by (simp_all add: renamed_def)

lemma ref_server_simps [simp]:
  "Get ref_server = ref_get" "ListNADs ref_server = (\<lambda>w. (Inr (Nads w), w))"
  "Create ref_server = ref_create" "SetControllerReference ref_server = ref_own"
  "IgnoreNotFound ref_server = (\<lambda>e. if e = NotFound then None else Some e)"
  "Update ref_server = ref_update"
  "ContainsFinalizer ref_server = (\<lambda>l f. f \<in> set (Finalizers (LANMeta l)))"
  "AddFinalizer ref_server = (\<lambda>l f. if f \<in> set (Finalizers (LANMeta l)) then l
     else with_finalizers l (Finalizers (LANMeta l) @ [f]))"
  "RemoveFinalizer ref_server = (\<lambda>l f. with_finalizers l (removeAll f (Finalizers (LANMeta l))))"
  "Get ref_api = ref_get" "ListNADs ref_api = (\<lambda>w. (Inr (Nads w), w))" "Create ref_api = ref_create"
  "SetControllerReference ref_api = ref_own"
  "IgnoreNotFound ref_api = (\<lambda>e. if e = NotFound then None else Some e)"
  by (simp_all add: ref_server_def ref_api_def client.truncate_def)

lemma idle_host_simps [simp]: "Unmount idle_host = (\<lambda>p f. give ())" "RemoveFile idle_host = (\<lambda>p. give ())"
  by (simp_all add: idle_host_def)

interpretation ref_api: api_server ref_api ref_held ref_obj
  by unfold_locales
    (auto simp: ref_get_def ref_create_def ref_own_def ref_held_def ref_obj_def fun_eq_iff split: if_splits)

lemma ref_update_obj:
  "ref_update l w = (Inr (), w') \<Longrightarrow>
     ref_obj w' ns n = (if ns = Namespace (LANMeta l) \<and> n = Name (LANMeta l) then stored_as l else ref_obj w ns n)"
  by (auto simp: ref_update_def ref_obj_def stored_as_def split: if_splits)

interpretation ref_lan: lan_server ref_server "\<lambda>node. idle_host" ref_obj
  by unfold_locales
    (auto simp: ref_get_def ref_update_obj, auto simp: ref_update_def ref_obj_def split: if_splits)

lemma ref_updates: "updates_go_through ref_server ref_obj"
  by (simp add: updates_go_through_def ref_update_def ref_obj_def)

end
