(* ===== verification/Agent.thy ===== *)
theory Agent
  imports RefServer
begin

section \<open>The node agent as a whole: the reconciler and the lister side by side\<close>

text \<open>
  \<open>main\<close> of \<open>dset/main.go\<close> starts the controller, which runs one reconciliation at a time,
  and the device-plugin manager, whose goroutine runs the lister's loop; two channels of depth
  16 connect them. A state is the world, the point the reconciler has reached, and the state
  of the lister with what is queued on the channels and the list it waits to hand over. Steps
  of the two sides interleave, and the world may change between any two of them as \<open>env\<close>
  allows (users, other nodes). A panic ends the reconciliation it occurs in, with an error:
  the controller library recovers it, so the reconciler is ready for the next one.
\<close>

record 'w agent =
  World :: 'w
  Point :: phase
  Node :: lister_state

definition chans_of :: "lister_state \<Rightarrow> chans" where
  "chans_of s = \<lparr>DPAddChan = AddChan s, DPRemoveChan = RemovChan s\<rparr>"

definition with_chans :: "chans \<Rightarrow> lister_state \<Rightarrow> lister_state" where
  "with_chans q s = s\<lparr>AddChan := DPAddChan q, RemovChan := DPRemoveChan q\<rparr>"

definition agent_start :: "'w \<Rightarrow> 'w agent" where
  "agent_start w =
     \<lparr>World = w, Point = Idle,
      Node = \<lparr>AddChan = [], RemovChan = [], Lister = NewMacvtapLister, Report = None, Sent = []\<rparr>\<rparr>"

inductive agent_step ::
    "('e, 'w) node_client \<Rightarrow> 'w host \<Rightarrow> string \<Rightarrow> (string fset \<Rightarrow> string list) \<Rightarrow> ('w \<Rightarrow> 'w \<Rightarrow> bool) \<Rightarrow>
       'w agent \<Rightarrow> 'w agent \<Rightarrow> bool"
  for c :: "('e, 'w) node_client" and h :: "'w host" and hostName :: string
    and keys_of :: "string fset \<Rightarrow> string list" and env :: "'w \<Rightarrow> 'w \<Rightarrow> bool" where
  begin_round: "Point a = Idle \<Longrightarrow> reconcile_begin c h hostName ns name (World a) = (r, w) \<Longrightarrow>
     agent_step c h hostName keys_of env a
       (a\<lparr>World := w, Point := (case r of Inl _ \<Rightarrow> Idle | Inr ph \<Rightarrow> ph)\<rparr>)"
| send_on: "Point a = SendAdd spec \<or> Point a = SendRemove spec lan \<Longrightarrow>
     send (Point a) (chans_of (Node a)) = Some (ph, q) \<Longrightarrow>
     agent_step c h hostName keys_of env a (a\<lparr>Point := ph, Node := with_chans q (Node a)\<rparr>)"
| end_round: "Point a = Finish lan \<Longrightarrow> reconcile_end c hostName (Finish lan) (World a) = (r, w) \<Longrightarrow>
     agent_step c h hostName keys_of env a (a\<lparr>World := w, Point := Idle\<rparr>)"
| discover: "discover_step keys_of (Node a) s \<Longrightarrow> agent_step c h hostName keys_of env a (a\<lparr>Node := s\<rparr>)"
| world: "env (World a) w \<Longrightarrow> agent_step c h hostName keys_of env a (a\<lparr>World := w\<rparr>)"

inductive_cases agent_stepE: "agent_step c h hostName keys_of env a b"

inductive agent_run ::
    "('e, 'w) node_client \<Rightarrow> 'w host \<Rightarrow> string \<Rightarrow> (string fset \<Rightarrow> string list) \<Rightarrow> ('w \<Rightarrow> 'w \<Rightarrow> bool) \<Rightarrow>
       'w agent \<Rightarrow> bool"
  for c :: "('e, 'w) node_client" and h :: "'w host" and hostName :: string
    and keys_of :: "string fset \<Rightarrow> string list" and env :: "'w \<Rightarrow> 'w \<Rightarrow> bool" where
  start: "agent_run c h hostName keys_of env (agent_start w)"
| step: "agent_run c h hostName keys_of env a \<Longrightarrow> agent_step c h hostName keys_of env a b \<Longrightarrow>
     agent_run c h hostName keys_of env b"

subsection \<open>Invariants\<close>

text \<open>Neither channel holds more than its depth.\<close>

definition within_depth :: "lister_state \<Rightarrow> bool" where
  "within_depth s \<longleftrightarrow> length (AddChan s) \<le> chanDepth \<and> length (RemovChan s) \<le> chanDepth"

lemma send_on_cases:
  assumes "ph = SendAdd spec \<or> ph = SendRemove spec lan" and "send ph (chans_of s) = Some (ph', q)"
  shows "(ph = SendAdd spec \<and> ph' = Idle \<and> length (AddChan s) < chanDepth \<and>
      with_chans q s = s\<lparr>AddChan := AddChan s @ [spec]\<rparr>) \<or>
    (ph = SendRemove spec lan \<and> ph' = Finish lan \<and> length (RemovChan s) < chanDepth \<and>
      with_chans q s = s\<lparr>RemovChan := RemovChan s @ [spec]\<rparr>)"
  using assms by (auto simp: send_def chans_of_def with_chans_def split: if_splits)

lemma discover_within: "discover_step keys_of s t \<Longrightarrow> within_depth s \<Longrightarrow> within_depth t"
  by (auto simp: within_depth_def elim!: discover_stepE)

lemma agent_step_within:
  "agent_step c h hostName keys_of env a b \<Longrightarrow> within_depth (Node a) \<Longrightarrow> within_depth (Node b)"
proof (induction rule: agent_step.induct)
  case (send_on a spec lan ph q)
  from send_on_cases [OF send_on(1,2)] send_on(3) show ?case
    by (auto simp: within_depth_def)
qed (auto simp: discover_within)

lemma agent_run_within: "agent_run c h hostName keys_of env a \<Longrightarrow> within_depth (Node a)"
  by (induction rule: agent_run.induct) (auto simp: agent_start_def within_depth_def dest: agent_step_within [unfolded within_depth_def])

text \<open>What the lister has done is a run of the lister, so what holds of those holds here.\<close>

definition listed :: "(string fset \<Rightarrow> string list) \<Rightarrow> lister_state \<Rightarrow> bool" where
  "listed keys_of s \<longleftrightarrow> (\<exists>evs. lister_run keys_of evs s)"

lemma agent_step_listed:
  "agent_step c h hostName keys_of env a b \<Longrightarrow> listed keys_of (Node a) \<Longrightarrow> listed keys_of (Node b)"
proof (induction rule: agent_step.induct)
  case (send_on a spec lan ph q)
  from send_on_cases [OF send_on(1,2)] send_on(3) show ?case
    using lister_run.send_add lister_run.send_remove by (fastforce simp: listed_def)
next
  case (discover a s)
  then show ?case using lister_run_discover by (fastforce simp: listed_def)
qed auto

lemma agent_run_listed: "agent_run c h hostName keys_of env a \<Longrightarrow> listed keys_of (Node a)"
proof (induction rule: agent_run.induct)
  case (start w)
  show ?case using lister_run.start by (auto simp: agent_start_def listed_def)
qed (rule agent_step_listed)

text \<open>
  While a send waits, its channel stays full, so the lister takes from the other one only: its
  rounds are bounded by what that one holds and the lists handed over.
\<close>

lemma discover_shrinks:
  "(discover_step keys_of)\<^sup>*\<^sup>* s t \<Longrightarrow> length (AddChan t) \<le> length (AddChan s) \<and> length (RemovChan t) \<le> length (RemovChan s)"
  by (induction rule: rtranclp_induct) (auto elim!: discover_stepE)

lemma blocked_rounds:
  assumes "within_depth s" and "(discover_step keys_of ^^ k) s t"
    and "chanDepth \<le> length (AddChan t) \<or> chanDepth \<le> length (RemovChan t)"
  shows "k \<le> 2 * chanDepth + 1 \<and> \<not> resting t"
proof -
  from assms(3) have "chanDepth \<le> queued t" "\<not> resting t"
    by (auto simp: queued_def resting_def chanDepth_def)
  moreover from assms(1) have "queued s \<le> 2 * chanDepth" by (simp add: queued_def within_depth_def)
  ultimately show ?thesis using rounds_work [OF assms(2)] by (auto simp: work_def split: if_splits)
qed

subsection \<open>The removal is sent before the finalizer comes off\<close>

lemma reconcile_begin_point:
  assumes "reconcile_begin c h hostName ns name w = (Inr ph, w')"
  shows "(\<forall>lan. ph \<noteq> Finish lan) \<and> (\<forall>spec lan. ph = SendRemove spec lan \<longrightarrow> spec = Spec lan)"
  using assms
  by (auto simp: reconcile_begin_def branch_eq_iff Let_def attempt_Inr_iff split: if_splits option.splits)

text \<open>The steps at which the reconciler stays at one point: the lister's and the world's.\<close>

definition during :: "('w agent \<Rightarrow> 'w agent \<Rightarrow> bool) \<Rightarrow> phase \<Rightarrow> 'w agent \<Rightarrow> 'w agent \<Rightarrow> bool" where
  "during stp ph a b \<longleftrightarrow> stp a b \<and> Point a = ph \<and> Point b = ph"

text \<open>The step from \<open>a\<close> to \<open>b\<close> sends the removal of \<open>obj\<close>; in that from \<open>a\<close> to \<open>b\<close> the lister takes it.\<close>

definition sends_removal :: "('w agent \<Rightarrow> 'w agent \<Rightarrow> bool) \<Rightarrow> LAN \<Rightarrow> 'w agent \<Rightarrow> 'w agent \<Rightarrow> bool" where
  "sends_removal stp obj a b \<longleftrightarrow> stp a b \<and> Point a = SendRemove (Spec obj) obj \<and>
     b = a\<lparr>Point := Finish obj, Node := (Node a)\<lparr>RemovChan := RemovChan (Node a) @ [Spec obj]\<rparr>\<rparr>"

definition takes_removal :: "('w agent \<Rightarrow> 'w agent \<Rightarrow> bool) \<Rightarrow> LAN \<Rightarrow> 'w agent \<Rightarrow> 'w agent \<Rightarrow> bool" where
  "takes_removal stp obj a b \<longleftrightarrow> during stp (Finish obj) a b \<and>
     RemovChan (Node a) = Spec obj # RemovChan (Node b) \<and> Lister (Node b) = remove_lan (Spec obj) (Lister (Node a))"

definition removal_sent :: "('w agent \<Rightarrow> bool) \<Rightarrow> ('w agent \<Rightarrow> 'w agent \<Rightarrow> bool) \<Rightarrow> LAN \<Rightarrow> 'w agent \<Rightarrow> bool" where
  "removal_sent run stp obj a \<longleftrightarrow>
     (\<exists>a0 b0. run a0 \<and> sends_removal stp obj a0 b0 \<and> (during stp (Finish obj))\<^sup>*\<^sup>* b0 a \<and>
        (Spec obj \<in> set (RemovChan (Node a)) \<or>
         (\<exists>a1 b1. (during stp (Finish obj))\<^sup>*\<^sup>* b0 a1 \<and> takes_removal stp obj a1 b1 \<and> (during stp (Finish obj))\<^sup>*\<^sup>* b1 a)))"

lemma removal_sent_step:
  assumes "removal_sent run stp obj a" and "during stp (Finish obj) a b"
    and "RemovChan (Node b) = RemovChan (Node a) \<or>
      (\<exists>lan. RemovChan (Node a) = lan # RemovChan (Node b) \<and> Lister (Node b) = remove_lan lan (Lister (Node a)))"
  shows "removal_sent run stp obj b"
proof -
  from assms(1) obtain a0 b0 where sent: "run a0" "sends_removal stp obj a0 b0" "(during stp (Finish obj))\<^sup>*\<^sup>* b0 a"
    and here: "Spec obj \<in> set (RemovChan (Node a)) \<or>
      (\<exists>a1 b1. (during stp (Finish obj))\<^sup>*\<^sup>* b0 a1 \<and> takes_removal stp obj a1 b1 \<and> (during stp (Finish obj))\<^sup>*\<^sup>* b1 a)"
    unfolding removal_sent_def by blast
  have on: "(during stp (Finish obj))\<^sup>*\<^sup>* x b" if "(during stp (Finish obj))\<^sup>*\<^sup>* x a" for x
    using that assms(2) by (rule rtranclp.rtrancl_into_rtrancl)
  from here have "Spec obj \<in> set (RemovChan (Node b)) \<or>
      (\<exists>a1 b1. (during stp (Finish obj))\<^sup>*\<^sup>* b0 a1 \<and> takes_removal stp obj a1 b1 \<and> (during stp (Finish obj))\<^sup>*\<^sup>* b1 b)"
  proof
    assume queued: "Spec obj \<in> set (RemovChan (Node a))"
    show ?thesis
    proof (cases "Spec obj \<in> set (RemovChan (Node b))")
      case False
      with queued assms(2,3) have "takes_removal stp obj a b" by (auto simp: takes_removal_def)
      with sent(3) show ?thesis by blast
    qed simp
  qed (use on in blast)
  with sent on show ?thesis unfolding removal_sent_def by blast
qed

lemma agent_run_removal:
  "agent_run c h hostName keys_of env a \<Longrightarrow>
     (\<forall>spec lan. Point a = SendRemove spec lan \<longrightarrow> spec = Spec lan) \<and>
     (\<forall>obj. Point a = Finish obj \<longrightarrow> removal_sent (agent_run c h hostName keys_of env) (agent_step c h hostName keys_of env) obj a)"
proof (induction rule: agent_run.induct)
  case (step a b)
  let ?run = "agent_run c h hostName keys_of env" and ?stp = "agent_step c h hostName keys_of env"
  from step(2) show ?case
  proof cases
    case (begin_round ns name r w)
    then show ?thesis by (cases r) (auto dest: reconcile_begin_point)
  next
    case (send_on spec lan ph q)
    from send_on_cases [OF send_on(2,3)] show ?thesis
    proof (elim disjE conjE)
      assume "Point a = SendRemove spec lan" "ph = Finish lan"
        and chan: "with_chans q (Node a) = (Node a)\<lparr>RemovChan := RemovChan (Node a) @ [spec]\<rparr>"
      with step.IH send_on(1) step(2) have "sends_removal ?stp lan a b" by (auto simp: sends_removal_def)
      moreover have "Spec lan \<in> set (RemovChan (Node b))" "Point b = Finish lan"
        using step.IH send_on(1) chan \<open>Point a = SendRemove spec lan\<close> \<open>ph = Finish lan\<close> by auto
      ultimately show ?thesis using step(1) by (auto simp: removal_sent_def)
    qed (use send_on(1) in simp)
  next
    case (discover s)
    from discover(2) have "RemovChan s = RemovChan (Node a) \<or>
        (\<exists>lan. RemovChan (Node a) = lan # RemovChan s \<and> Lister s = remove_lan lan (Lister (Node a)))"
      by (auto elim!: discover_stepE)
    with discover(1) step removal_sent_step [of ?run ?stp _ a b] show ?thesis by (auto simp: during_def)
  next
    case (world w)
    with step removal_sent_step [of ?run ?stp _ a b] show ?thesis by (auto simp: during_def)
  qed simp
qed (simp add: agent_start_def)

subsection \<open>Where the resources on offer come from\<close>

text \<open>
  The past of a state: it was reached from a state in which the server held a LAN of this
  specification that was not going and had the finalizer of the node.
\<close>

definition was_held ::
    "('w agent \<Rightarrow> bool) \<Rightarrow> ('w agent \<Rightarrow> 'w agent \<Rightarrow> bool) \<Rightarrow> ('w \<Rightarrow> string \<Rightarrow> string \<Rightarrow> LAN option) \<Rightarrow> string \<Rightarrow>
       'w agent \<Rightarrow> LANSpec \<Rightarrow> bool" where
  "was_held run stp obj node b spec \<longleftrightarrow>
     (\<exists>a ns n lan. run a \<and> stp\<^sup>*\<^sup>* a b \<and> obj (World a) ns n = Some lan \<and>
        IsZero (DeletionTimestamp (LANMeta lan)) \<and> myFinalizerName node \<in> set (Finalizers (LANMeta lan)) \<and> Spec lan = spec)"

lemma was_held_step: "was_held run stp obj node a spec \<Longrightarrow> stp a b \<Longrightarrow> was_held run stp obj node b spec"
  unfolding was_held_def by (elim exE conjE) (intro exI conjI, assumption, rule rtranclp.rtrancl_into_rtrancl, assumption+)

lemma was_held_here:
  "run a \<Longrightarrow> obj (World a) ns n = Some lan \<Longrightarrow> IsZero (DeletionTimestamp (LANMeta lan)) \<Longrightarrow>
     myFinalizerName node \<in> set (Finalizers (LANMeta lan)) \<Longrightarrow> was_held run stp obj node a (Spec lan)"
  unfolding was_held_def by (intro exI conjI) (assumption | rule rtranclp.rtrancl_refl refl)+

text \<open>A reconciliation is about to add only what the server held when it began.\<close>

lemma begin_SendAdd:
  assumes "lan_server c hs obj" and "reconcile_begin c (hs node) node ns n w = (Inr (SendAdd spec), w')"
  shows "\<exists>lan. obj w ns n = Some lan \<and> IsZero (DeletionTimestamp (LANMeta lan)) \<and>
    myFinalizerName node \<in> set (Finalizers (LANMeta lan)) \<and> Spec lan = spec"
proof (cases "obj w ns n")
  case None
  with lan_server.get_none [OF assms(1) None] assms(2) show ?thesis
    by (auto simp: reconcile_begin_def branch_eq_iff)
next
  case (Some lan)
  with lan_server.get_some [OF assms(1) Some] lan_server.contains [OF assms(1)] assms(2) show ?thesis
    by (auto simp: reconcile_begin_def branch_eq_iff Let_def attempt_Inr_iff split: if_splits option.splits)
qed

text \<open>What is about to be added, queued, in the table, waits to be reported or was reported was held like that.\<close>

definition traced :: "(LANSpec \<Rightarrow> bool) \<Rightarrow> phase \<Rightarrow> lister_state \<Rightarrow> bool" where
  "traced P ph s \<longleftrightarrow>
     (\<forall>spec. ph = SendAdd spec \<longrightarrow> P spec) \<and> (\<forall>spec \<in> set (AddChan s). P spec) \<and>
     (\<forall>r spec. plugin_lookup (Lister s) r = Some spec \<longrightarrow> P spec \<and> r \<in> set (lan_resources spec)) \<and>
     (\<forall>rs. rs \<in> set (Sent s) \<or> Report s = Some rs \<longrightarrow> (\<forall>r \<in> set rs. \<exists>spec. P spec \<and> r \<in> set (lan_resources spec)))"

lemma traced_mono: "(\<And>spec. P spec \<Longrightarrow> Q spec) \<Longrightarrow> traced P ph s \<Longrightarrow> traced Q ph s"
  unfolding traced_def by (elim conjE, intro conjI) blast+

lemma traced_report:
  assumes "iterates keys_of" and "report keys_of ml = Some rs" and "r \<in> set rs"
    and "\<forall>r spec. plugin_lookup ml r = Some spec \<longrightarrow> P spec \<and> r \<in> set (lan_resources spec)"
  shows "\<exists>spec. P spec \<and> r \<in> set (lan_resources spec)"
proof -
  from assms(1-3) report_Some [of keys_of ml rs] have "r \<in> fset (fmdom (DeviceList ml))"
    by (auto simp: lists_table_def)
  then obtain spec where "plugin_lookup ml r = Some spec" by (auto simp: plugin_lookup_def fmlookup_dom_iff)
  with assms(4) show ?thesis by blast
qed

lemma traced_discover:
  assumes "iterates keys_of" and "traced P ph s" and "discover_step keys_of s t"
  shows "traced P ph t"
  using assms(3)
proof cases
  case (take_add lan rest ml)
  with assms(2) have "\<forall>r spec. plugin_lookup ml r = Some spec \<longrightarrow> P spec \<and> r \<in> set (lan_resources spec)"
    by (auto simp: traced_def registry.lookup_add simp del: set_concat)
  with traced_report [OF assms(1) _ _ this] take_add assms(2) show ?thesis
    by (auto simp: traced_def simp del: set_concat)
next
  case (take_remove lan rest ml)
  with assms(2) have "\<forall>r spec. plugin_lookup ml r = Some spec \<longrightarrow> P spec \<and> r \<in> set (lan_resources spec)"
    by (auto simp: traced_def registry.lookup_remove simp del: set_concat split: if_splits)
  with traced_report [OF assms(1) _ _ this] take_remove assms(2) show ?thesis
    by (auto simp: traced_def simp del: set_concat)
next
  case (hand_over names)
  with assms(2) show ?thesis by (auto simp: traced_def simp del: set_concat)
qed

lemma agent_step_traced:
  assumes server: "lan_server c hs obj" and keys: "iterates keys_of"
    and run: "agent_run c (hs node) node keys_of env a"
    and stp: "agent_step c (hs node) node keys_of env a b"
    and traced: "traced (was_held (agent_run c (hs node) node keys_of env) (agent_step c (hs node) node keys_of env) obj node a)
      (Point a) (Node a)"
  shows "traced (was_held (agent_run c (hs node) node keys_of env) (agent_step c (hs node) node keys_of env) obj node b)
    (Point b) (Node b)"
proof -
  let ?P = "was_held (agent_run c (hs node) node keys_of env) (agent_step c (hs node) node keys_of env) obj node"
  have "traced (?P a) (Point b) (Node b)"
    using stp
  proof cases
    case (begin_round ns name r w)
    have "?P a spec" if "r = Inr (SendAdd spec)" for spec
      using begin_SendAdd [OF server, of node ns name "World a" spec w] begin_round that
        was_held_here [where run = "agent_run c (hs node) node keys_of env", OF run] by fastforce
    with begin_round traced show ?thesis
      by (auto simp: traced_def simp del: set_concat split: sum.split)
  next
    case (send_on spec lan ph q)
    from send_on_cases [OF send_on(2,3)] traced send_on(1) show ?thesis
      by (auto simp: traced_def simp del: set_concat)
  next
    case (discover s)
    with traced_discover [OF keys traced] show ?thesis by simp
  qed (use traced in \<open>simp_all add: traced_def del: set_concat\<close>)
  then show ?thesis
    by (rule traced_mono [rotated]) (erule was_held_step [where stp = "agent_step c (hs node) node keys_of env"], rule stp)
qed

lemma agent_run_traced:
  assumes "lan_server c hs obj" and "iterates keys_of" and "agent_run c (hs node) node keys_of env a"
  shows "traced (was_held (agent_run c (hs node) node keys_of env) (agent_step c (hs node) node keys_of env) obj node a)
    (Point a) (Node a)"
  using assms(3)
proof (induction rule: agent_run.induct)
  case (start w)
  show ?case by (simp add: traced_def agent_start_def plugin_lookup_def NewMacvtapLister_def)
next
  case (step a b)
  show ?case by (rule agent_step_traced [OF assms(1,2) step(1,2,3)])
qed

subsection \<open>Properties\<close>

text \<open>C22: in every interleaving, while resources are offered, a list waits to be taken by the device-plugin manager or it has taken one, and the list that waits, or else the last one taken, is exactly the set of resources in the table, each once.\<close>

theorem reports_exact:
  assumes "agent_run c h hostName keys_of env a" and "iterates keys_of"
    and "fmdom (DeviceList (Lister (Node a))) \<noteq> {||}"
  shows "case Report (Node a) of
      None \<Rightarrow> Sent (Node a) \<noteq> [] \<and> distinct (last (Sent (Node a))) \<and>
        set (last (Sent (Node a))) = fset (fmdom (DeviceList (Lister (Node a))))
    | Some names \<Rightarrow> distinct names \<and> set names = fset (fmdom (DeviceList (Lister (Node a))))"
proof -
  from agent_run_listed [OF assms(1)] lister_run_report [OF assms(2)] have "report_exact (Node a)"
    by (auto simp: listed_def)
  with assms(3) show ?thesis by (simp add: report_exact_def lists_table_def split: option.splits)
qed

text \<open>A server that holds the sample LAN with this node's finalizer, going or not.\<close>

definition one_lan :: "nat option \<Rightarrow> server_world" where
  "one_lan gone = \<lparr>Nads = [], Lans = [(''default'', ''lan1'') \<mapsto>
     sample_lan\<lparr>LANMeta := (LANMeta sample_lan)\<lparr>Finalizers := [myFinalizerName ''node1''],
       DeletionTimestamp := gone\<rparr>\<rparr>]\<rparr>"

abbreviation sample_run :: "server_world agent \<Rightarrow> bool" where
  "sample_run \<equiv> agent_run ref_server idle_host ''node1'' sorted_keys (\<lambda>_ _. False)"

lemma one_lan_obj:
  "ref_obj (one_lan gone) ''default'' ''lan1'' = Some (sample_lan\<lparr>LANMeta := (LANMeta sample_lan)
     \<lparr>Finalizers := [myFinalizerName ''node1''], DeletionTimestamp := gone\<rparr>\<rparr>)"
  by (simp add: ref_obj_def one_lan_def sample_lan_def)

lemma one_lan_begin:
  "reconcile_begin ref_server idle_host ''node1'' ''default'' ''lan1'' (one_lan None) = (Inr (SendAdd sample_spec), one_lan None)"
  by (simp add: reconcile_begin_def ref_get_def one_lan_obj Let_def branch_def IsZero_def)

lemma begin_from_start:
  assumes "reconcile_begin c h hostName ns name w = (Inr ph, w)"
  shows "agent_run c h hostName keys_of env ((agent_start w)\<lparr>Point := ph\<rparr>)"
proof (rule agent_run.step [OF agent_run.start [of _ _ _ _ _ w]])
  show "agent_step c h hostName keys_of env (agent_start w) ((agent_start w)\<lparr>Point := ph\<rparr>)"
    using agent_step.begin_round [of "agent_start w" c h hostName ns name "Inr ph" w keys_of env] assms
    by (simp add: agent_start_def)
qed

lemma sample_offered: "sample_run ((agent_start (one_lan None))\<lparr>Node := one_added\<rparr>)"
proof -
  let ?a = "agent_start (one_lan None)"
  have "sample_run (?a\<lparr>Point := SendAdd sample_spec\<rparr>)"
    by (rule begin_from_start [OF one_lan_begin])
  moreover have "agent_step ref_server idle_host ''node1'' sorted_keys (\<lambda>_ _. False) (?a\<lparr>Point := SendAdd sample_spec\<rparr>)
      (?a\<lparr>Node := (Node ?a)\<lparr>AddChan := [sample_spec]\<rparr>\<rparr>)"
    using agent_step.send_on [of "?a\<lparr>Point := SendAdd sample_spec\<rparr>" sample_spec undefined Idle
        "\<lparr>DPAddChan = [sample_spec], DPRemoveChan = []\<rparr>"]
    by (simp add: agent_start_def send_def chans_of_def with_chans_def chanDepth_def)
  ultimately have "sample_run (?a\<lparr>Node := (Node ?a)\<lparr>AddChan := [sample_spec]\<rparr>\<rparr>)"
    by (rule agent_run.step)
  moreover let ?t = "(Node ?a)\<lparr>Lister := add_lan sample_spec NewMacvtapLister, Report := report sorted_keys (add_lan sample_spec NewMacvtapLister)\<rparr>"
  have "discover_step sorted_keys ((Node ?a)\<lparr>AddChan := [sample_spec]\<rparr>) ?t"
    using discover_step.take_add [of "(Node ?a)\<lparr>AddChan := [sample_spec]\<rparr>" sample_spec "[]" _ sorted_keys, OF _ _ refl]
    by (simp add: agent_start_def)
  ultimately have "sample_run (?a\<lparr>Node := ?t\<rparr>)"
    using agent_run.step [OF _ agent_step.discover] by fastforce
  moreover have "discover_step sorted_keys ?t one_added"
    using discover_step.hand_over [of ?t _ sorted_keys] one_added_report by (simp add: one_added_def agent_start_def Let_def)
  ultimately show ?thesis
    using agent_run.step [OF _ agent_step.discover] by fastforce
qed

theorem reports_exact_witness:
  "Sent one_added \<noteq> [] \<and> distinct (last (Sent one_added)) \<and>
     set (last (Sent one_added)) = fset (fmdom (DeviceList (Lister one_added)))"
proof -
  have "fset (fmdom (DeviceList (Lister one_added))) \<noteq> {}"
    by (simp add: one_added_def Let_def fmdom_add_lan sample_spec_def)
  then have "fmdom (DeviceList (Lister one_added)) \<noteq> {||}" by auto
  moreover have "Report one_added = None" by (simp add: one_added_def Let_def)
  ultimately show ?thesis using reports_exact [OF sample_offered sorted_keys_iterates] by simp
qed

text \<open>C19: in every interleaving, whatever is in the lister's table, queued for addition, in the list that waits to be reported or in any list ever reported to the device-plugin manager comes from a LAN that the server held at an earlier point of the run, not going and with the finalizer of the node: the table holds its specification, and the resource is one of its spokes'.\<close>

theorem offered_was_held:
  assumes "lan_server c hs obj" and "iterates keys_of" and "agent_run c (hs node) node keys_of env b"
    and "plugin_lookup (Lister (Node b)) r = Some spec \<or> spec \<in> set (AddChan (Node b)) \<and> r \<in> set (lan_resources spec) \<or>
      (\<exists>rs \<in> set (Sent (Node b)) \<union> set_option (Report (Node b)). r \<in> set rs)"
  shows "\<exists>a ns n lan. agent_run c (hs node) node keys_of env a \<and> (agent_step c (hs node) node keys_of env)\<^sup>*\<^sup>* a b \<and>
    obj (World a) ns n = Some lan \<and> IsZero (DeletionTimestamp (LANMeta lan)) \<and>
    myFinalizerName node \<in> set (Finalizers (LANMeta lan)) \<and> r \<in> set (lan_resources (Spec lan)) \<and>
    (plugin_lookup (Lister (Node b)) r = Some spec \<longrightarrow> Spec lan = spec)"
proof -
  let ?P = "was_held (agent_run c (hs node) node keys_of env) (agent_step c (hs node) node keys_of env) obj node b"
  have "\<exists>spec'. ?P spec' \<and> r \<in> set (lan_resources spec') \<and>
      (plugin_lookup (Lister (Node b)) r = Some spec \<longrightarrow> spec' = spec)"
    using agent_run_traced [OF assms(1-3)] assms(4)
    unfolding traced_def by (cases "plugin_lookup (Lister (Node b)) r = Some spec") blast+
  then show ?thesis unfolding was_held_def by blast
qed

theorem offered_was_held_witness:
  "\<exists>a ns n lan. sample_run a \<and> ref_obj (World a) ns n = Some lan \<and> IsZero (DeletionTimestamp (LANMeta lan)) \<and>
     ''k8slan-mac-s2'' \<in> set (lan_resources (Spec lan)) \<and> Spec lan = sample_spec"
proof -
  have "plugin_lookup (Lister one_added) ''k8slan-mac-s2'' = Some sample_spec"
    by (simp add: one_added_def Let_def registry.lookup_add del: set_concat) (simp add: sample_spec_def naming_defs)
  then have "plugin_lookup (Lister (Node ((agent_start (one_lan None))\<lparr>Node := one_added\<rparr>))) ''k8slan-mac-s2'' = Some sample_spec"
    by simp
  with offered_was_held [OF ref_lan.lan_server_axioms sorted_keys_iterates sample_offered] show ?thesis by blast
qed


text \<open>A run that takes the sample LAN out: the removal is sent, then taken.\<close>

definition going_agent :: "server_world agent" where
  "going_agent = (agent_start (one_lan (Some 5)))\<lparr>Point := Finish (the (ref_obj (one_lan (Some 5)) ''default'' ''lan1''))\<rparr>"

lemma going_agent_spec: "Spec (the (ref_obj (one_lan (Some 5)) ''default'' ''lan1'')) = sample_spec"
  by (simp add: one_lan_obj)

lemma going_agent_run: "sample_run (going_agent\<lparr>Node := (Node going_agent)\<lparr>RemovChan := [sample_spec]\<rparr>\<rparr>)" (is "sample_run ?c")
proof -
  let ?obj = "the (ref_obj (one_lan (Some 5)) ''default'' ''lan1'')"
  let ?b = "going_agent\<lparr>Point := SendRemove sample_spec ?obj\<rparr>"
  have "reconcile_begin ref_server idle_host ''node1'' ''default'' ''lan1'' (one_lan (Some 5)) =
      (Inr (SendRemove sample_spec ?obj), one_lan (Some 5))"
    by (simp add: reconcile_begin_def ref_get_def one_lan_obj Let_def branch_def IsZero_def)
      (simp add: sample_lan_def sample_spec_def Remove_def DeleteNamed_def calling_def)
  from begin_from_start [OF this] have "sample_run ?b" by (simp add: going_agent_def agent_start_def)
  moreover have "agent_step ref_server idle_host ''node1'' sorted_keys (\<lambda>_ _. False) ?b ?c"
    using agent_step.send_on [of ?b sample_spec ?obj "Finish ?obj" "\<lparr>DPAddChan = [], DPRemoveChan = [sample_spec]\<rparr>"]
    by (simp add: going_agent_def agent_start_def send_def chans_of_def with_chans_def chanDepth_def)
  ultimately show ?thesis by (rule agent_run.step)
qed


text \<open>C24: a send of the reconciler waits only for the lister and never for ever: as long as its channel is full, the lister can go on, and after 33 of its rounds at most (16 specifications on the other channel, each taken and its list handed over, and one list that waited already) it has made room. The device-plugin manager takes each list handed over.\<close>

theorem blocked_send_bounded:
  assumes "agent_run c h hostName keys_of env a" and "Point a = SendAdd spec \<or> Point a = SendRemove spec lan"
    and "(discover_step keys_of ^^ k) (Node a) s" and "send (Point a) (chans_of s) = None"
  shows "k \<le> 33 \<and> (\<exists>t. discover_step keys_of s t)"
proof -
  from assms(2,4) have "chanDepth \<le> length (AddChan s) \<or> chanDepth \<le> length (RemovChan s)"
    by (auto simp: send_def chans_of_def split: if_splits)
  from blocked_rounds [OF agent_run_within [OF assms(1)] assms(3) this] show ?thesis
    using resting_iff [of s keys_of] by (simp add: chanDepth_def)
qed

text \<open>A run in which nothing is taken: sixteen reconciliations fill the channel, the next one waits.\<close>

definition filled :: "nat \<Rightarrow> server_world agent" where
  "filled n = (agent_start (one_lan None))\<lparr>Node := (Node (agent_start (one_lan None)))\<lparr>AddChan := replicate n sample_spec\<rparr>\<rparr>"

lemma filled_waits:
  assumes "sample_run (filled n)"
  shows "sample_run ((filled n)\<lparr>Point := SendAdd sample_spec\<rparr>)"
proof (rule agent_run.step [OF assms])
  show "agent_step ref_server idle_host ''node1'' sorted_keys (\<lambda>_ _. False) (filled n) ((filled n)\<lparr>Point := SendAdd sample_spec\<rparr>)"
    using agent_step.begin_round [of "filled n" ref_server idle_host "''node1''" "''default''" "''lan1''" "Inr (SendAdd sample_spec)"] one_lan_begin
    by (simp add: filled_def agent_start_def)
qed

lemma filled_run: "n \<le> 16 \<Longrightarrow> sample_run (filled n)"
proof (induction n)
  case 0
  show ?case using agent_run.start [of ref_server idle_host "''node1''" sorted_keys "\<lambda>_ _. False" "one_lan None"]
    by (simp add: filled_def agent_start_def)
next
  case (Suc n)
  let ?a = "(filled n)\<lparr>Point := SendAdd sample_spec\<rparr>"
  have "agent_step ref_server idle_host ''node1'' sorted_keys (\<lambda>_ _. False) ?a (filled (Suc n))"
    using Suc.prems agent_step.send_on [of ?a sample_spec undefined Idle
        "\<lparr>DPAddChan = replicate (Suc n) sample_spec, DPRemoveChan = []\<rparr>"]
    by (simp add: filled_def agent_start_def send_def chans_of_def with_chans_def chanDepth_def replicate_append_same)
  with filled_waits Suc show ?case by (auto intro: agent_run.step)
qed

theorem blocked_send_bounded_witness:
  "\<exists>a. sample_run a \<and> Point a = SendAdd sample_spec \<and> send (Point a) (chans_of (Node a)) = None \<and>
     (\<exists>t. discover_step sorted_keys (Node a) t)"
proof -
  let ?a = "(filled 16)\<lparr>Point := SendAdd sample_spec\<rparr>"
  have run: "sample_run ?a" by (rule filled_waits [OF filled_run]) simp
  have full: "send (Point ?a) (chans_of (Node ?a)) = None"
    by (simp add: send_def chans_of_def chanDepth_def filled_def)
  from blocked_send_bounded [OF run, of sample_spec undefined 0 "Node ?a"] full run show ?thesis
    by (intro exI [of _ ?a]) simp
qed

text \<open>C38: with the addition and the removal of the same LAN queued on the two channels, the lister may come to rest with the LAN's resources on offer or without, depending on which channel it reads first.\<close>

theorem channels_race:
  assumes "AddChan s = [spec]" and "RemovChan s = [spec]"
  shows "(\<exists>u. (discover_step keys_of)\<^sup>*\<^sup>* s u \<and> resting u \<and>
      (\<forall>n \<in> set (lan_resources spec). plugin_lookup (Lister u) n = Some spec)) \<and>
    (\<exists>u. (discover_step keys_of)\<^sup>*\<^sup>* s u \<and> resting u \<and>
      (\<forall>n \<in> set (lan_resources spec). plugin_lookup (Lister u) n = None))"
proof -
  have "[Removed spec, Added spec] \<in> shuffles (map Added (AddChan s)) (map Removed (RemovChan s))"
    "[Added spec, Removed spec] \<in> shuffles (map Added (AddChan s)) (map Removed (RemovChan s))"
    by (simp_all add: assms)
  from this [THEN every_order [where keys_of = keys_of]] show ?thesis
    by (auto simp: registry.lookup_add registry.lookup_remove simp del: set_concat)
qed

theorem channels_race_witness:
  "\<exists>u. (discover_step sorted_keys)\<^sup>*\<^sup>* (one_added\<lparr>AddChan := [sample_spec], RemovChan := [sample_spec]\<rparr>) u \<and> resting u \<and>
     plugin_lookup (Lister u) ''k8slan-mac-s1'' = Some sample_spec"
proof -
  let ?s = "one_added\<lparr>AddChan := [sample_spec], RemovChan := [sample_spec]\<rparr>"
  have "''k8slan-mac-s1'' \<in> set (lan_resources sample_spec)" by (simp add: sample_spec_def naming_defs)
  with channels_race [of ?s sample_spec sorted_keys] show ?thesis by fastforce
qed

end
