(* ===== verification/Kernel.thy ===== *)
theory Kernel
  imports Interfaces
begin

section \<open>What the interface code relies on in the kernel\<close>

text \<open>
  The observable state of the kernel is the table of its links: for a namespace and a name,
  the link, whether it is up, the index of its master and its group forward mask. The locale
  \<open>kernel\<close> states what the netlink calls do to that table, as their documentation has it: a
  call that fails changes nothing, a call that succeeds has its effect on the link it is
  given, as long as that link object is current (the name still denotes the link with that
  index). The lemmas in it are the effects of the program's own functions.
\<close>

subsection \<open>The table of links\<close>

record iface =
  IfLink :: link
  IfUp :: bool
  IfMaster :: "int option"
  IfMask :: int

type_synonym table = "netns \<times> string \<Rightarrow> iface option"

definition current :: "table \<Rightarrow> netns \<Rightarrow> link \<Rightarrow> bool" where
  "current L ns l \<longleftrightarrow> (\<exists>i. L (ns, LName l) = Some i \<and> LIndex (IfLink i) = LIndex l)"

text \<open>A new link: not up, without a master, with the name, index and kind asked for.\<close>

definition fresh_iface :: "link \<Rightarrow> iface \<Rightarrow> bool" where
  "fresh_iface l i \<longleftrightarrow>
     LName (IfLink i) = LName l \<and> LIndex (IfLink i) = LIndex l \<and> LKind (IfLink i) = LKind l \<and>
     (case LKind l of Macvtap _ \<Rightarrow> LParentIndex (IfLink i) = LParentIndex l | _ \<Rightarrow> True) \<and>
     \<not> IfUp i \<and> IfMaster i = None"

text \<open>
  Deleting a link takes with it the other end of a veth pair and what is stacked on it, and
  frees the ports of a bridge. Any other link stays, and stays as it is while its master does;
  nothing appears, and what stays is the link it was.
\<close>

fun stacked :: "link_kind \<Rightarrow> bool" where
  "stacked (Macvtap _) = True"
| "stacked (Vxlan _) = True"
| "stacked (OtherKind _) = True"
| "stacked _ = False"

definition cascades :: "iface \<Rightarrow> iface \<Rightarrow> bool" where
  "cascades d i \<longleftrightarrow>
     LKind (IfLink i) = Veth (LName (IfLink d)) \<or>
     stacked (LKind (IfLink i)) \<and> LParentIndex (IfLink i) = LIndex (IfLink d)"

definition same_link :: "iface \<Rightarrow> iface \<Rightarrow> bool" where
  "same_link i j \<longleftrightarrow> IfLink i = IfLink j \<and> IfUp i = IfUp j"

definition master_there :: "table \<Rightarrow> netns \<times> string \<Rightarrow> iface \<Rightarrow> bool" where
  "master_there L k i \<longleftrightarrow>
     (\<forall>m. IfMaster i = Some m \<longrightarrow> (\<exists>n j. L (fst k, n) = Some j \<and> LIndex (IfLink j) = m))"

definition deleted :: "table \<Rightarrow> netns \<times> string \<Rightarrow> iface \<Rightarrow> table \<Rightarrow> bool" where
  "deleted L k d L' \<longleftrightarrow>
     L' k = None \<and> (\<forall>k' i'. L' k' = Some i' \<longrightarrow> (\<exists>i. L k' = Some i \<and> same_link i i')) \<and>
     (\<forall>k' i. L k' = Some i \<and> k' \<noteq> k \<and> \<not> cascades d i \<longrightarrow>
        (\<exists>i'. L' k' = Some i' \<and> same_link i i' \<and> (master_there L' k' i \<longrightarrow> i' = i)))"

lemma same_link_refl [simp]: "same_link i i"
  by (simp add: same_link_def)

lemma deleted_frame:
  "deleted L k d L' \<Longrightarrow> L k' = Some i \<Longrightarrow> k' \<noteq> k \<Longrightarrow> \<not> cascades d i \<Longrightarrow>
     \<exists>i'. L' k' = Some i' \<and> same_link i i'"
  unfolding deleted_def by blast

lemma deleted_same:
  assumes "deleted L k d L'" and "L k' = Some i" and "k' \<noteq> k" and "\<not> cascades d i"
    and "master_there L' k' i"
  shows "L' k' = Some i"
  using assms unfolding deleted_def by blast

lemma deleted_survivor: "deleted L k d L' \<Longrightarrow> L' k' = Some i' \<Longrightarrow> \<exists>i. L k' = Some i \<and> same_link i i'"
  unfolding deleted_def by blast

lemma deleted_none: "deleted L k d L' \<Longrightarrow> L k' = None \<Longrightarrow> L' k' = None"
  using deleted_survivor by (cases "L' k'") fastforce+

lemma deleted_gone: "deleted L k d L' \<Longrightarrow> L' k = None"
  unfolding deleted_def by blast

text \<open>Bridges and dummies stand on nothing.\<close>

lemma cascades_base: "LKind (IfLink i) \<in> {Bridge, Dummy} \<Longrightarrow> \<not> cascades d i"
  by (auto simp: cascades_def)

text \<open>What the program builds: the bridge of a LAN and the ports on it.\<close>

definition bridge_at :: "table \<Rightarrow> netns \<Rightarrow> string \<Rightarrow> int \<Rightarrow> bool" where
  "bridge_at L ns n idx \<longleftrightarrow>
     (\<exists>i. L (ns, n) = Some i \<and> LKind (IfLink i) = Bridge \<and> LIndex (IfLink i) = idx)"

definition port_of :: "iface \<Rightarrow> int \<Rightarrow> bool" where
  "port_of i idx \<longleftrightarrow> IfUp i \<and> IfMaster i = Some idx \<and> IfMask i = BRSlaveGrpFwdMask"

definition veth_port_at :: "table \<Rightarrow> netns \<Rightarrow> string \<Rightarrow> string \<Rightarrow> int \<Rightarrow> bool" where
  "veth_port_at L ns n other idx \<longleftrightarrow>
     (\<exists>i. L (ns, n) = Some i \<and> LKind (IfLink i) = Veth other \<and> port_of i idx)"

text \<open>The names a LAN and a spoke of it use are four different names.\<close>

definition names_apart :: "LANSpec \<Rightarrow> string \<Rightarrow> bool" where
  "names_apart lan spoke \<longleftrightarrow>
     (\<exists>bridge vx. BridgeName lan = Some bridge \<and> VxLANName lan = Some vx \<and>
        distinct [bridge, vx, spoke, getPeerVethName spoke])"

definition veth_up_at :: "table \<Rightarrow> netns \<Rightarrow> string \<Rightarrow> string \<Rightarrow> bool" where
  "veth_up_at L ns n other \<longleftrightarrow> (\<exists>i. L (ns, n) = Some i \<and> LKind (IfLink i) = Veth other \<and> IfUp i)"

definition veth_at :: "table \<Rightarrow> netns \<Rightarrow> string \<Rightarrow> string \<Rightarrow> bool" where
  "veth_at L ns n other \<longleftrightarrow> (\<exists>i. L (ns, n) = Some i \<and> LKind (IfLink i) = Veth other)"

text \<open>The three links of an attachment: the bridge, its port, and the spoke in the host namespace.\<close>

definition attached :: "table \<Rightarrow> netns \<Rightarrow> string \<Rightarrow> int \<Rightarrow> string \<Rightarrow> bool" where
  "attached L ns bridge bidx spoke \<longleftrightarrow>
     bridge_at L ns bridge bidx \<and> veth_port_at L ns (getPeerVethName spoke) spoke bidx \<and>
     veth_up_at L HostNS spoke (getPeerVethName spoke)"

text \<open>A macvtap on top of \<open>lower\<close>: the link of that index and mode.\<close>

definition macvtap_at :: "table \<Rightarrow> string \<Rightarrow> string \<Rightarrow> MacvlanMode \<Rightarrow> int \<Rightarrow> bool" where
  "macvtap_at L name lower mode idx \<longleftrightarrow>
     (\<exists>m s. L (HostNS, name) = Some m \<and> LKind (IfLink m) = Macvtap mode \<and> IfUp m \<and>
        LIndex (IfLink m) = idx \<and> L (HostNS, lower) = Some s \<and>
        LParentIndex (IfLink m) = LIndex (IfLink s))"

subsection \<open>The contract\<close>

locale kernel =
  fixes h :: "'w host"
    and links :: "'w \<Rightarrow> table"
  assumes keyed: "links w (ns, n) = Some i \<Longrightarrow> LName (IfLink i) = n"
    and get_ns: "GetNS h p w = (Inr ns, w') \<Longrightarrow> ns \<noteq> HostNS"
    and get_ns_links: "links (snd (GetNS h p w)) = links w"
    and stat: "links (snd (Stat h p w)) = links w"
    and by_name: "LinkByName h ns n w = (Inr l, w') \<Longrightarrow>
      links w' = links w \<and> LName l = n \<and> (\<exists>i. links w (ns, n) = Some i \<and> IfLink i = l)"
    and by_name_kind: "LinkByName h ns n w = (Inr l, w') \<Longrightarrow> LKind l \<noteq> OtherKind ''bridge''"
    and by_name_err: "LinkByName h ns n w = (Inl e, w') \<Longrightarrow>
      links w' = links w \<and> (e = LinkNotFound \<longrightarrow> links w (ns, n) = None)"
    and add: "LinkAdd h ns l None w = (Inr l', w') \<Longrightarrow> (\<forall>p. LKind l \<noteq> Veth p) \<Longrightarrow>
      links w (ns, LName l) = None \<and> (\<exists>idx i. l' = l\<lparr>LIndex := idx\<rparr> \<and> fresh_iface l' i \<and>
        links w' = (links w)((ns, LName l) \<mapsto> i))"
    and add_veth: "LinkAdd h ns l None w = (Inr l', w') \<Longrightarrow> LKind l = Veth p \<Longrightarrow>
      links w (ns, LName l) = None \<and> links w (ns, p) = None \<and> LName l \<noteq> p \<and>
      (\<exists>idx i j. l' = l\<lparr>LIndex := idx\<rparr> \<and> fresh_iface l' i \<and> LName (IfLink j) = p \<and>
        LKind (IfLink j) = Veth (LName l) \<and> \<not> IfUp j \<and> IfMaster j = None \<and>
        links w' = (links w)((ns, LName l) \<mapsto> i, (ns, p) \<mapsto> j))"
    and add_into: "LinkAdd h ns l (Some ns') w = (Inr l', w') \<Longrightarrow> (\<forall>p. LKind l \<noteq> Veth p) \<Longrightarrow>
      links w (ns', LName l) = None \<and> (\<exists>idx i. fresh_iface (l\<lparr>LIndex := idx\<rparr>) i \<and>
        links w' = (links w)((ns', LName l) \<mapsto> i))"
    and add_err: "LinkAdd h ns l t w = (Inl e, w') \<Longrightarrow> links w' = links w"
    and del: "LinkDel h ns l w = (Inr (), w') \<Longrightarrow> links w (ns, LName l) = Some d \<Longrightarrow>
      LIndex (IfLink d) = LIndex l \<Longrightarrow>
      deleted (links w) (ns, LName l) d (links w')"
    and del_err: "LinkDel h ns l w = (Inl e, w') \<Longrightarrow> links w' = links w"
    and set_up: "LinkSetUp h ns l w = (Inr (), w') \<Longrightarrow> links w (ns, LName l) = Some i \<Longrightarrow>
      LIndex (IfLink i) = LIndex l \<Longrightarrow> links w' = (links w)((ns, LName l) \<mapsto> i\<lparr>IfUp := True\<rparr>)"
    and set_up_err: "LinkSetUp h ns l w = (Inl e, w') \<Longrightarrow> links w' = links w"
    and set_master: "LinkSetMaster h ns l m w = (Inr (), w') \<Longrightarrow> links w (ns, LName l) = Some i \<Longrightarrow>
      LIndex (IfLink i) = LIndex l \<Longrightarrow>
      links w' = (links w)((ns, LName l) \<mapsto> i\<lparr>IfMaster := Some (LIndex m)\<rparr>)"
    and set_master_err: "LinkSetMaster h ns l m w = (Inl e, w') \<Longrightarrow> links w' = links w"
    and set_mask: "LinkSetFwdMask h ns l k w = (Inr (), w') \<Longrightarrow> links w (ns, LName l) = Some i \<Longrightarrow>
      LIndex (IfLink i) = LIndex l \<Longrightarrow> links w' = (links w)((ns, LName l) \<mapsto> i\<lparr>IfMask := k\<rparr>)"
    and set_mask_err: "LinkSetFwdMask h ns l k w = (Inl e, w') \<Longrightarrow> links w' = links w"
    and set_ns: "LinkSetNsFd h ns l ns' w = (Inr (), w') \<Longrightarrow> ns \<noteq> ns' \<Longrightarrow>
      links w (ns, LName l) = Some i \<Longrightarrow> LIndex (IfLink i) = LIndex l \<Longrightarrow>
      links w (ns', LName l) = None \<and> (\<exists>idx. links w' = (links w)((ns, LName l) := None,
        (ns', LName l) \<mapsto> i\<lparr>IfLink := (IfLink i)\<lparr>LIndex := idx\<rparr>, IfUp := False, IfMaster := None\<rparr>))"
    and set_ns_err: "LinkSetNsFd h ns l ns' w = (Inl e, w') \<Longrightarrow> links w' = links w"
    and enter: "links (snd (EnterNS h ns w)) = links w"
begin

subsection \<open>Deleting by name\<close>

lemma LinkDelete_effect:
  assumes "LinkDelete h ns n w = (r, w')"
  shows "links w' = links w \<and> (succeeds r \<longrightarrow> links w (ns, n) = None) \<or>
    (\<exists>d. links w (ns, n) = Some d \<and> deleted (links w) (ns, n) d (links w'))"
proof (cases "LinkByName h ns n w")
  case (Pair res w1)
  show ?thesis
  proof (cases res)
    case (Inl e)
    with Pair assms by_name_err [of ns n w e w1] show ?thesis
      by (auto simp: LinkDelete_def split: if_splits)
  next
    case (Inr l)
    with Pair by_name [of ns n w l w1] obtain d
      where d: "links w1 = links w" "LName l = n" "links w (ns, n) = Some d" "IfLink d = l"
      by auto
    obtain res' where del': "LinkDel h ns l w1 = (res', w')"
      and r: "r = (case res' of Inl e \<Rightarrow> Inl (Error e) | Inr u \<Rightarrow> Inr u)"
      using assms Pair Inr
      by (cases "LinkDel h ns l w1")
        (auto simp: LinkDelete_def calling_def attempt_def split: sum.splits)
    show ?thesis
    proof (cases res')
      case (Inl e)
      with del_err del' d r show ?thesis by simp
    next
      case (Inr u)
      with del [of ns l w1 w' d] del' d show ?thesis by simp
    qed
  qed
qed

lemma LinkDelete_frame:
  assumes "LinkDelete h ns n w = (r, w')" and "links w k = Some i" and "k \<noteq> (ns, n)"
    and "\<And>d. links w (ns, n) = Some d \<Longrightarrow> \<not> cascades d i"
  shows "\<exists>i'. links w' k = Some i' \<and> same_link i i'"
  using LinkDelete_effect [OF assms(1)]
proof (elim disjE exE conjE)
  assume "links w' = links w"
  with assms(2) show ?thesis by simp
next
  fix d
  assume d: "links w (ns, n) = Some d" "deleted (links w) (ns, n) d (links w')"
  from deleted_frame [OF d(2) assms(2,3) assms(4) [OF d(1)]] show ?thesis .
qed

lemma LinkDelete_same:
  assumes "LinkDelete h ns n w = (r, w')" and "links w k = Some i" and "k \<noteq> (ns, n)"
    and "\<And>d. links w (ns, n) = Some d \<Longrightarrow> \<not> cascades d i" and "master_there (links w') k i"
  shows "links w' k = Some i"
  using LinkDelete_effect [OF assms(1)]
proof (elim disjE exE conjE)
  assume "links w' = links w"
  with assms(2) show ?thesis by simp
next
  fix d
  assume d: "links w (ns, n) = Some d" "deleted (links w) (ns, n) d (links w')"
  from deleted_same [OF d(2) assms(2,3) assms(4) [OF d(1)] assms(5)] show ?thesis .
qed

lemma LinkDelete_none:
  assumes "LinkDelete h ns n w = (r, w')" and "links w k = None"
  shows "links w' k = None"
  using LinkDelete_effect [OF assms(1)]
proof (elim disjE exE conjE)
  assume "links w' = links w"
  with assms(2) show ?thesis by simp
next
  fix d
  assume "deleted (links w) (ns, n) d (links w')"
  from deleted_none [OF this assms(2)] show ?thesis .
qed

text \<open>A delete that returns no error leaves no link of that name.\<close>

lemma LinkDelete_gone: "LinkDelete h ns n w = (Inr u, w') \<Longrightarrow> links w' (ns, n) = None"
  by (drule LinkDelete_effect) (auto dest: deleted_gone)

subsection \<open>The stretches of \<open>Ensure\<close>\<close>

lemma LinkDelete_bridge:
  assumes "LinkDelete h ns n w = (r, w')" and "bridge_at (links w) ns b idx" and "b \<noteq> n"
  shows "bridge_at (links w') ns b idx"
proof -
  from assms(2) obtain i where i: "links w (ns, b) = Some i" "LKind (IfLink i) = Bridge" "LIndex (IfLink i) = idx"
    by (auto simp: bridge_at_def)
  from LinkDelete_frame [OF assms(1) i(1)] assms(3) i(2,3) cascades_base show ?thesis
    by (fastforce simp: bridge_at_def same_link_def)
qed

lemma ensure_bridge_at:
  assumes "ensure_bridge h ns lan mtu w = (Inr (Some b), w')"
  shows "BridgeName lan = Some (LName b) \<and> bridge_at (links w') ns (LName b) (LIndex b)"
proof -
  from assms obtain bridge where bridge: "BridgeName lan = Some bridge"
    by (auto simp: ensure_bridge_def effect deref_Inr_iff)
  from assms bridge consider
      (found) br where "LinkByName h ns bridge w = (Inr br, w')" "br = b" "kind_name (LKind br) = ''bridge''"
    | (made) e w1 l w2 w3 where "LinkByName h ns bridge w = (Inl e, w1)"
        "LinkAdd h ns (no_attrs\<lparr>LName := bridge, LMTU := mtu, LTxQLen := -1, LKind := Bridge\<rparr>) None w1 = (Inr l, w2)"
        "LinkSetUp h ns l w2 = (Inr (), w3)" "LinkByName h ns bridge w3 = (Inr b, w')"
    by (auto simp: ensure_bridge_def effect Let_def split: if_splits)
  then show ?thesis
  proof cases
    case found
    from found(3) by_name_kind [OF found(1)] have "LKind br = Bridge"
      by (cases "LKind br") auto
    with found bridge by_name [OF found(1)] show ?thesis
      by (auto simp: bridge_at_def)
  next
    case made
    from add [OF made(2)] obtain i where i: "fresh_iface l i" "links w2 = (links w1)((ns, LName l) \<mapsto> i)"
      "LName l = bridge" "LKind l = Bridge"
      by auto
    with set_up [OF made(3), of i] have "links w3 = (links w2)((ns, LName l) \<mapsto> i\<lparr>IfUp := True\<rparr>)"
      by (simp add: fresh_iface_def)
    with i by_name [OF made(4)] bridge show ?thesis
      by (auto simp: bridge_at_def fresh_iface_def)
  qed
qed

text \<open>
  A spoke that was made: two names that were free after the old peer was deleted are the port,
  in the namespace, and the spoke, in the host's.
\<close>

lemma make_spoke_links:
  assumes "make_spoke h ns br spoke mtu w = (Inr u, w')" and "ns \<noteq> HostNS"
  shows "\<exists>b r w1 i j. br = Some b \<and> LinkDelete h ns (getPeerVethName spoke) w = (r, w1) \<and>
    links w1 (ns, spoke) = None \<and> links w1 (ns, getPeerVethName spoke) = None \<and> links w1 (HostNS, spoke) = None \<and>
    LKind (IfLink j) = Veth spoke \<and> port_of j (LIndex b) \<and> LKind (IfLink i) = Veth (getPeerVethName spoke) \<and>
    links w' = (links w1)((ns, getPeerVethName spoke) \<mapsto> j, (HostNS, spoke) \<mapsto> i)"
proof -
  define peer where "peer = getPeerVethName spoke"
  define la where "la b = no_attrs\<lparr>LParentIndex := LIndex b, LName := spoke, LTxQLen := -1, LMTU := mtu,
    LKind := Veth peer\<rparr>" for b :: link
  from assms(1) obtain b :: link and r w1 l w2 w3 p w4 w5 w6 w7 where
      run: "LinkDelete h ns peer w = (r, w1)" "LinkAdd h ns (la b) None w1 = (Inr l, w2)"
        "LinkSetUp h ns l w2 = (Inr (), w3)" "LinkByName h ns peer w3 = (Inr p, w4)"
        "LinkSetMaster h ns p b w4 = (Inr (), w5)" "LinkSetFwdMask h ns p BRSlaveGrpFwdMask w5 = (Inr (), w6)"
        "LinkSetUp h ns p w6 = (Inr (), w7)" "LinkSetNsFd h ns l HostNS w7 = (Inr (), w')" and b: "br = Some b"
    by (auto simp: make_spoke_def Let_def effect deref_Inr_iff peer_def la_def)
  have la: "LName (la b) = spoke" "LKind (la b) = Veth peer" by (simp_all add: la_def)
  from add_veth [OF run(2) la(2)] la obtain i j where
      free: "links w1 (ns, spoke) = None" "links w1 (ns, peer) = None" "spoke \<noteq> peer" and
      l: "LName l = spoke" "LKind l = Veth peer" and
      i: "LIndex (IfLink i) = LIndex l" "LKind (IfLink i) = Veth peer" and
      j: "LName (IfLink j) = peer" "LKind (IfLink j) = Veth spoke" and
      L2: "links w2 = (links w1)((ns, spoke) \<mapsto> i, (ns, peer) \<mapsto> j)"
    by (auto simp: fresh_iface_def)
  have L3: "links w3 = (links w2)((ns, spoke) \<mapsto> i\<lparr>IfUp := True\<rparr>)"
    using set_up [OF run(3), of i] L2 l i free(3) by simp
  have p: "links w4 = links w3" "LName p = peer" "LIndex p = LIndex (IfLink j)"
    using by_name [OF run(4)] L3 L2 free(3) by auto
  have L5: "links w5 = (links w4)((ns, peer) \<mapsto> j\<lparr>IfMaster := Some (LIndex b)\<rparr>)"
    using set_master [OF run(5), of j] p L3 L2 free(3) by simp
  have L6: "links w6 = (links w5)((ns, peer) \<mapsto> j\<lparr>IfMaster := Some (LIndex b), IfMask := BRSlaveGrpFwdMask\<rparr>)"
    using set_mask [OF run(6), of "j\<lparr>IfMaster := Some (LIndex b)\<rparr>"] p L5 by simp
  define j' where "j' = j\<lparr>IfMaster := Some (LIndex b), IfMask := BRSlaveGrpFwdMask, IfUp := True\<rparr>"
  have L7: "links w7 = (links w1)((ns, spoke) \<mapsto> i\<lparr>IfUp := True\<rparr>, (ns, peer) \<mapsto> j')"
    using set_up [OF run(7), of "j\<lparr>IfMaster := Some (LIndex b), IfMask := BRSlaveGrpFwdMask\<rparr>"] p L6 L5 L3 L2 free(3)
    by (auto simp: j'_def)
  then have "links w7 (ns, spoke) = Some (i\<lparr>IfUp := True\<rparr>)" using free(3) by simp
  from set_ns [OF run(8) assms(2), of "i\<lparr>IfUp := True\<rparr>"] this l i obtain idx where
      host: "links w7 (HostNS, spoke) = None" and
      L8: "links w' = (links w7)((ns, spoke) := None, (HostNS, spoke) \<mapsto>
        i\<lparr>IfLink := (IfLink i)\<lparr>LIndex := idx\<rparr>, IfUp := False, IfMaster := None\<rparr>)"
    by auto
  have "links w' = (links w1)((ns, peer) \<mapsto> j', (HostNS, spoke) \<mapsto>
        i\<lparr>IfLink := (IfLink i)\<lparr>LIndex := idx\<rparr>, IfUp := False, IfMaster := None\<rparr>)"
    unfolding L8 L7 using free assms(2) by (auto simp: fun_eq_iff)
  moreover have "links w1 (HostNS, spoke) = None" using host L7 assms(2) by (auto split: if_splits)
  moreover have "port_of j' (LIndex b)" "LKind (IfLink j') = Veth spoke" by (simp_all add: j'_def port_of_def j)
  ultimately show ?thesis
    using b run(1) free i(2) unfolding peer_def
    by (intro exI [of _ b] exI [of _ r] exI [of _ w1] exI [of _ j']
        exI [of _ "i\<lparr>IfLink := (IfLink i)\<lparr>LIndex := idx\<rparr>, IfUp := False, IfMaster := None\<rparr>"]) simp
qed

lemma make_spoke_effect:
  assumes "make_spoke h ns (Some b) spoke mtu w = (Inr u, w')"
    and "bridge_at (links w) ns (LName b) (LIndex b)" and "LName b \<noteq> getPeerVethName spoke"
    and "ns \<noteq> HostNS"
  shows "bridge_at (links w') ns (LName b) (LIndex b) \<and>
    veth_port_at (links w') ns (getPeerVethName spoke) spoke (LIndex b) \<and>
    veth_at (links w') HostNS spoke (getPeerVethName spoke) \<and> links w' (ns, spoke) = None"
proof -
  from make_spoke_links [OF assms(1,4)] obtain r w1 i j where
    run: "LinkDelete h ns (getPeerVethName spoke) w = (r, w1)" and
    free: "links w1 (ns, spoke) = None" "links w1 (ns, getPeerVethName spoke) = None" and
    ij: "LKind (IfLink j) = Veth spoke" "port_of j (LIndex b)" "LKind (IfLink i) = Veth (getPeerVethName spoke)" and
    L: "links w' = (links w1)((ns, getPeerVethName spoke) \<mapsto> j, (HostNS, spoke) \<mapsto> i)"
    by blast
  have "bridge_at (links w1) ns (LName b) (LIndex b)"
    using LinkDelete_bridge [OF run assms(2,3)] .
  with L free ij assms(3,4) show ?thesis
    by (auto simp: bridge_at_def veth_port_at_def veth_at_def getPeerVethName_def)
qed

lemma check_vxlan_links: "check_vxlan h ns lan idx w = (Inr b, w') \<Longrightarrow> links w' = links w"
  by (auto simp: check_vxlan_def effect dest: by_name by_name_err)

lemma drop_vxlan_bridge:
  assumes "drop_vxlan h ns lan x w = (Inr y, w')" and "bridge_at (links w) ns b idx"
    and "VxLANName lan \<noteq> Some b"
  shows "bridge_at (links w') ns b idx \<and> y = x"
  using assms LinkDelete_bridge
  by (auto simp: drop_vxlan_def effect deref_Inr_iff split: if_splits)

lemma setup_lan_ns_effect:
  assumes "setup_lan_ns h ns lan spoke mtu idx w = (Inr y, w')" and "ns \<noteq> HostNS"
    and "BridgeName lan \<noteq> VxLANName lan" and "BridgeName lan \<noteq> Some (getPeerVethName spoke)"
  shows "\<exists>bridge bidx. BridgeName lan = Some bridge \<and> bridge_at (links w') ns bridge bidx \<and>
    veth_port_at (links w') ns (getPeerVethName spoke) spoke bidx \<and>
    veth_at (links w') HostNS spoke (getPeerVethName spoke)"
proof -
  from assms(1) obtain br w1 x w2 x' w3 where
    run: "ensure_bridge h ns lan mtu w = (Inr br, w1)" "check_vxlan h ns lan idx w1 = (Inr x, w2)"
      "drop_vxlan h ns lan x w2 = (Inr x', w3)" "make_spoke h ns br spoke mtu w3 = (Inr (), w')"
    by (auto simp: setup_lan_ns_def effect)
  from run(4) obtain b where b: "br = Some b"
    by (auto simp: make_spoke_def Let_def effect deref_Inr_iff)
  from ensure_bridge_at [OF run(1) [unfolded b]]
  have name: "BridgeName lan = Some (LName b)" and at1: "bridge_at (links w1) ns (LName b) (LIndex b)"
    by auto
  from at1 check_vxlan_links [OF run(2)] have "bridge_at (links w2) ns (LName b) (LIndex b)" by simp
  from drop_vxlan_bridge [OF run(3) this] name assms(3)
  have "bridge_at (links w3) ns (LName b) (LIndex b)" by metis
  from make_spoke_effect [OF run(4) [unfolded b] this _ assms(2)] name assms(4) show ?thesis by auto
qed

lemma ensureVXLANIf_links:
  assumes "ensureVXLANIf h name dev ns vni grp mtu port w = (r, w')"
  shows "links w' = links w \<or>
    (\<exists>i. links w (ns, name) = None \<and> links w' = (links w)((ns, name) \<mapsto> i))"
proof (cases "IsMulticast grp")
  case True
  let ?l = "vxlan_link name dev vni grp mtu port"
  have l: "LName ?l = name" "\<forall>p. LKind ?l \<noteq> Veth p" by (simp_all add: vxlan_link_def)
  show ?thesis
  proof (cases "LinkAdd h HostNS ?l (Some ns) w")
    case (Pair res w1)
    with True assms have "w1 = w'"
      by (cases res) (auto simp: ensureVXLANIf_def both_ways)
    with Pair add_err [of HostNS ?l "Some ns" w _ w'] add_into [of HostNS ?l ns w _ w'] l show ?thesis
      by (cases res) auto
  qed
next
  case False
  with assms show ?thesis by (simp add: ensureVXLANIf_def)
qed

lemma CreateVXLANIF_frame:
  assumes "CreateVXLANIF h lan dev ns mtu port w = (Inr u, w')" and "VxLANName lan \<noteq> Some n"
  shows "links w' (ns', n) = links w (ns', n)"
proof -
  from assms(1) obtain name grp vni r where name: "VxLANName lan = Some name"
    and "ensureVXLANIf h name dev ns vni grp (word_of_int mtu) port w = (r, w')"
    by (auto simp: CreateVXLANIF_def effect deref_Inr_iff split: if_splits)
  from ensureVXLANIf_links [OF this(2)] name assms(2) show ?thesis by auto
qed

lemma attach_vxlan_links:
  assumes "attach_vxlan h ns lan w = (r, w')" and "\<And>vx. VxLANName lan = Some vx \<Longrightarrow> k \<noteq> (ns, vx)"
  shows "links w' k = links w k"
proof (cases "VxLANName lan")
  case None
  with assms show ?thesis by (simp add: attach_vxlan_def evaluating_def)
next
  case (Some vx)
  show ?thesis
    using assms Some
    by (auto simp: attach_vxlan_def both_ways deref_def
        dest!: by_name by_name_err set_master set_master_err set_mask set_mask_err set_up set_up_err
        split: option.splits)
qed

lemma attach_vxlan_frame:
  "attach_vxlan h ns lan w = (r, w') \<Longrightarrow> VxLANName lan \<noteq> Some n \<Longrightarrow> links w' (ns', n) = links w (ns', n)"
  by (rule attach_vxlan_links) auto

lemma attach_vxlan_port:
  assumes "attach_vxlan h ns lan w = (Inr u, w')" and "BridgeName lan = Some bridge"
    and "VxLANName lan = Some vx" and "bridge \<noteq> vx" and "bridge_at (links w) ns bridge bidx"
  shows "\<exists>i. links w' (ns, vx) = Some i \<and> port_of i bidx"
proof -
  from assms obtain l w1 b w2 w3 w4 where
    run: "LinkByName h ns vx w = (Inr l, w1)" "LinkByName h ns bridge w1 = (Inr b, w2)"
      "LinkSetMaster h ns l b w2 = (Inr (), w3)" "LinkSetFwdMask h ns l BRSlaveGrpFwdMask w3 = (Inr (), w4)"
      "LinkSetUp h ns l w4 = (Inr (), w')"
    by (auto simp: attach_vxlan_def effect deref_Inr_iff)
  from by_name [OF run(1)] obtain i where i: "links w1 = links w" "LName l = vx" "links w (ns, vx) = Some i"
    "IfLink i = l" by auto
  from by_name [OF run(2)] i(1) assms(5) have b: "links w2 = links w" "LIndex b = bidx"
    by (auto simp: bridge_at_def)
  have L3: "links w3 = (links w)((ns, vx) \<mapsto> i\<lparr>IfMaster := Some bidx\<rparr>)"
    using set_master [OF run(3), of i] i b by simp
  have L4: "links w4 = (links w3)((ns, vx) \<mapsto> i\<lparr>IfMaster := Some bidx, IfMask := BRSlaveGrpFwdMask\<rparr>)"
    using set_mask [OF run(4), of "i\<lparr>IfMaster := Some bidx\<rparr>"] i L3 by simp
  have "links w' = (links w4)((ns, vx) \<mapsto>
      i\<lparr>IfMaster := Some bidx, IfMask := BRSlaveGrpFwdMask, IfUp := True\<rparr>)"
    using set_up [OF run(5), of "i\<lparr>IfMaster := Some bidx, IfMask := BRSlaveGrpFwdMask\<rparr>"] i L4 by simp
  then show ?thesis by (simp add: port_of_def)
qed

text \<open>A VxLAN link that is missing is not attached, and the table stays.\<close>

lemma attach_missing:
  assumes "do_in h ns (attach_vxlan h ns lan) w = (r, w')" and "VxLANName lan = Some v" and "links w (ns, v) = None"
  shows "links w' = links w"
proof -
  from assms(1) consider e where "EnterNS h ns w = (Inl e, w')"
    | w1 where "EnterNS h ns w = (Inr (), w1)" "attach_vxlan h ns lan w1 = (r, w')"
    by (auto simp: do_in_iff)
  then show ?thesis
  proof cases
    case 1
    then show ?thesis using enter [of ns w] by simp
  next
    case 2
    have L1: "links w1 = links w" using enter [of ns w] 2(1) by simp
    obtain a w2 where look: "LinkByName h ns v w1 = (a, w2)" by fastforce
    with by_name [of ns v w1 _ w2] assms(3) L1 obtain e where e: "a = Inl e" by (cases a) auto
    with 2(2) look assms(2) have "w' = w2" by (simp add: attach_vxlan_def calling_def attempt_def)
    with by_name_err [of ns v w1 e w2] look e L1 show ?thesis by simp
  qed
qed

text \<open>Whatever error ends the attaching, the link is there and stays down.\<close>

lemma attach_error:
  assumes "do_in h ns (attach_vxlan h ns lan) w = (Inl (Error e), w')"
    and "VxLANName lan = Some v" and "BridgeName lan = Some b" and "links w (ns, v) = Some i" and "\<not> IfUp i"
  shows "\<exists>j. links w' (ns, v) = Some j \<and> \<not> IfUp j"
proof (cases "EnterNS h ns w")
  case (Pair r0 w0)
  with enter [of ns w] have L0: "links w0 = links w" by simp
  from assms(1-3) Pair consider (early) "links w' = links w0"
    | (no_bridge) l w1 where "LinkByName h ns v w0 = (Inr l, w1)" "LinkByName h ns b w1 = (Inl e, w')"
    | (attach) l w1 br w2 where "LinkByName h ns v w0 = (Inr l, w1)" "LinkByName h ns b w1 = (Inr br, w2)"
        "(calling (LinkSetMaster h ns l br) (Wrap ''failed to set master of vxlan interface'') (\<lambda>_.
          calling (LinkSetFwdMask h ns l BRSlaveGrpFwdMask) (Wrap ''failed to set vxlan slave grp fwd mask'') (\<lambda>_.
          calling (LinkSetUp h ns l) (\<lambda>e. e) give))) w2 = (Inl (Error e), w')"
    by (auto simp: do_in_iff attach_vxlan_def calling_iff dest: by_name by_name_err)
  then show ?thesis
  proof cases
    case early
    with assms(4,5) L0 show ?thesis by simp
  next
    case no_bridge
    from by_name [OF no_bridge(1)] by_name_err [OF no_bridge(2)] assms(4,5) L0 show ?thesis by simp
  next
    case attach
    from by_name [OF attach(1)] by_name [OF attach(2)] assms(4) L0
    have l: "links w2 (ns, LName l) = Some i" "LName l = v" "LIndex (IfLink i) = LIndex l" by auto
    from attach(3) consider (master) e1 where "LinkSetMaster h ns l br w2 = (Inl e1, w')"
      | (mask) w3 e1 where "LinkSetMaster h ns l br w2 = (Inr (), w3)" "LinkSetFwdMask h ns l BRSlaveGrpFwdMask w3 = (Inl e1, w')"
      | (up) w3 w4 e1 where "LinkSetMaster h ns l br w2 = (Inr (), w3)" "LinkSetFwdMask h ns l BRSlaveGrpFwdMask w3 = (Inr (), w4)"
          "LinkSetUp h ns l w4 = (Inl e1, w')"
      by (auto simp: calling_iff)
    then show ?thesis
    proof cases
      case master
      from set_master_err [OF this] l assms(5) show ?thesis by simp
    next
      case mask
      from set_master [OF mask(1) l(1,3)] set_mask_err [OF mask(2)] l assms(5) show ?thesis by simp
    next
      case up
      from set_master [OF up(1) l(1,3)] have "links w3 (ns, LName l) = Some (i\<lparr>IfMaster := Some (LIndex br)\<rparr>)" by simp
      from set_mask [OF up(2) this] set_up_err [OF up(3)] l assms(5) show ?thesis by simp
    qed
  qed
qed

lemma add_vxlan_frame:
  assumes "add_vxlan h ns lan dev mtu y w = (Inr u, w')" and "VxLANName lan \<noteq> Some n"
  shows "links w' (ns', n) = links w (ns', n)"
proof (cases y)
  case True
  with assms(1) obtain port :: int32 and w1 r where
    run: "CreateVXLANIF h lan dev ns mtu (sint port) w = (Inr (), w1)"
      "do_in h ns (attach_vxlan h ns lan) w1 = (r, w')"
    by (auto simp: add_vxlan_def effect)
  from run(2) consider e where "EnterNS h ns w1 = (Inl e, w')"
    | w2 where "EnterNS h ns w1 = (Inr (), w2)" "attach_vxlan h ns lan w2 = (r, w')"
    by (auto simp: do_in_iff)
  then have "links w' (ns', n) = links w1 (ns', n)"
  proof cases
    case 1
    then show ?thesis using enter [of ns w1] by simp
  next
    case 2
    from attach_vxlan_frame [OF 2(2) assms(2)] 2(1) enter [of ns w1] show ?thesis by simp
  qed
  with CreateVXLANIF_frame [OF run(1) assms(2)] show ?thesis by simp
next
  case False
  with assms(1) show ?thesis by (simp add: add_vxlan_def)
qed

lemma spoke_up_effect:
  assumes "spoke_up h spoke w = (Inr u, w')"
  shows "\<exists>i. links w (HostNS, spoke) = Some i \<and> links w' = (links w)((HostNS, spoke) \<mapsto> i\<lparr>IfUp := True\<rparr>)"
proof -
  from assms obtain l w1 where
    run: "LinkByName h HostNS spoke w = (Inr l, w1)" "LinkSetUp h HostNS l w1 = (Inr (), w')"
    by (auto simp: spoke_up_def effect)
  from by_name [OF run(1)] obtain i where
    "links w1 = links w" "LName l = spoke" "links w (HostNS, spoke) = Some i" "IfLink i = l" by auto
  with set_up [OF run(2), of i] show ?thesis by auto
qed

lemma CreateMacvtap_effect:
  assumes "CreateMacvtap h name lower mode w = (Inr idx, w')"
  shows "\<exists>md. ModeFromString mode = Inr md \<and> macvtap_at (links w') name lower md idx \<and>
    (\<forall>k. k \<noteq> (HostNS, name) \<longrightarrow> links w' k = links w k)"
proof -
  from assms obtain m w1 md mv w2 where
    run: "LinkByName h HostNS lower w = (Inr m, w1)" "ModeFromString mode = Inr md"
      "LinkAdd h HostNS (no_attrs\<lparr>LName := name, LParentIndex := LIndex m, LTxQLen := LTxQLen m,
         LKind := Macvtap md\<rparr>) None w1 = (Inr mv, w2)"
      "LinkSetUp h HostNS mv w2 = (Inr (), w')" and idx: "idx = LIndex mv"
    by (auto simp: CreateMacvtap_def effect Let_def)
  from by_name [OF run(1)] obtain s where
    s: "links w1 = links w" "links w (HostNS, lower) = Some s" "IfLink s = m" by auto
  from add [OF run(3)] obtain i where free: "links w1 (HostNS, name) = None" and
    i: "fresh_iface mv i" "links w2 = (links w1)((HostNS, name) \<mapsto> i)"
    "LName mv = name" "LKind mv = Macvtap md" "LParentIndex mv = LIndex m"
    by auto
  have L: "links w' = (links w2)((HostNS, name) \<mapsto> i\<lparr>IfUp := True\<rparr>)"
    using set_up [OF run(4), of i] i by (simp add: fresh_iface_def)
  have "name \<noteq> lower" using free s by auto
  with L i s idx have "macvtap_at (links w') name lower md idx"
    by (auto simp: macvtap_at_def fresh_iface_def)
  with run(2) L i(2) s(1) show ?thesis by auto
qed

text \<open>The three links of an attachment survive the deletion of a link of another name.\<close>

lemma LinkDelete_attached:
  assumes "LinkDelete h m n w = (r, w')" and "attached (links w) ns bridge bidx spoke"
    and "(m, n) \<noteq> (ns, bridge)" and "n \<noteq> spoke" and "n \<noteq> getPeerVethName spoke"
  shows "attached (links w') ns bridge bidx spoke"
proof -
  let ?peer = "getPeerVethName spoke"
  from assms(2) obtain b j i where
    b: "links w (ns, bridge) = Some b" "LKind (IfLink b) = Bridge" "LIndex (IfLink b) = bidx" and
    j: "links w (ns, ?peer) = Some j" "LKind (IfLink j) = Veth spoke" "port_of j bidx" and
    i: "links w (HostNS, spoke) = Some i" "LKind (IfLink i) = Veth ?peer" "IfUp i"
    by (auto simp: attached_def bridge_at_def veth_port_at_def veth_up_at_def)
  have nc: "\<not> cascades d j" "\<not> cascades d i" if "links w (m, n) = Some d" for d
    using keyed [OF that] j(2) i(2) assms(4,5) by (auto simp: cascades_def)
  have apart: "(ns, bridge) \<noteq> (m, n)" "(ns, ?peer) \<noteq> (m, n)" "(HostNS, spoke) \<noteq> (m, n)"
    using assms(3-5) by auto
  from LinkDelete_frame [OF assms(1) b(1) apart(1)] b(2,3) cascades_base
  obtain b' where b': "links w' (ns, bridge) = Some b'" "LKind (IfLink b') = Bridge" "LIndex (IfLink b') = bidx"
    by (auto simp: same_link_def)
  have "master_there (links w') (ns, ?peer) j"
    using b' j(3) by (auto simp: master_there_def port_of_def)
  with LinkDelete_same [OF assms(1) j(1) apart(2)] nc have j': "links w' (ns, ?peer) = Some j"
    by auto
  from LinkDelete_frame [OF assms(1) i(1) apart(3)] nc obtain i' where
    "links w' (HostNS, spoke) = Some i'" "same_link i i'" by auto
  with b' j' j i show ?thesis
    by (auto simp: attached_def bridge_at_def veth_port_at_def veth_up_at_def same_link_def)
qed

lemma attached_frame:
  assumes "attached L ns bridge bidx spoke"
    and "\<And>k. k \<in> {(ns, bridge), (ns, getPeerVethName spoke), (HostNS, spoke)} \<Longrightarrow> L' k = L k"
  shows "attached L' ns bridge bidx spoke"
  using assms by (simp add: attached_def bridge_at_def veth_port_at_def veth_up_at_def)

lemma RecreateMacvtap_effect:
  assumes "RecreateMacvtap h name lower mode w = (Inr idx, w')"
    and "attached (links w) ns bridge bidx spoke"
    and "ns \<noteq> HostNS" and "name \<noteq> spoke" and "name \<noteq> getPeerVethName spoke"
  shows "attached (links w') ns bridge bidx spoke \<and>
    (\<exists>md. ModeFromString mode = Inr md \<and> macvtap_at (links w') name lower md idx)"
proof -
  from assms(1) obtain w1 where
    run: "LinkDelete h HostNS name w = (Inr (), w1)" "CreateMacvtap h name lower mode w1 = (Inr idx, w')"
    by (auto simp: RecreateMacvtap_def effect)
  from CreateMacvtap_effect [OF run(2)] obtain md where
    md: "ModeFromString mode = Inr md" "macvtap_at (links w') name lower md idx"
      "\<forall>k. k \<noteq> (HostNS, name) \<longrightarrow> links w' k = links w1 k" by blast
  have "attached (links w1) ns bridge bidx spoke"
    using LinkDelete_attached [OF run(1) assms(2) _ assms(4,5)] assms(3) by auto
  then have "attached (links w') ns bridge bidx spoke"
    by (rule attached_frame) (use md(3) assms(3,4) in auto)
  with md show ?thesis by blast
qed

lemma ensure_dummy_attached:
  assumes "ensure_dummy h w = (Inr u, w')" and "attached (links w) ns bridge bidx spoke"
    and "ns \<noteq> HostNS"
  shows "attached (links w') ns bridge bidx spoke"
proof -
  from assms(1) consider l where "LinkByName h HostNS dummyIfName w = (Inr l, w')"
    | e w1 l w2 l' where "LinkByName h HostNS dummyIfName w = (Inl e, w1)"
      "LinkAdd h HostNS (no_attrs\<lparr>LName := dummyIfName, LKind := Dummy\<rparr>) None w1 = (Inr l, w2)"
      "LinkByName h HostNS dummyIfName w2 = (Inr l', w')"
    by (auto simp: ensure_dummy_def effect)
  then show ?thesis
  proof cases
    case 1
    with by_name assms(2) show ?thesis by metis
  next
    case 2
    from add [OF 2(2)] obtain i where
      "links w1 (HostNS, dummyIfName) = None" "links w2 = (links w1)((HostNS, dummyIfName) \<mapsto> i)"
      by auto
    then have L: "links w (HostNS, dummyIfName) = None" "links w' = (links w)((HostNS, dummyIfName) \<mapsto> i)"
      using by_name_err [OF 2(1)] by_name [OF 2(3)] by auto
    from assms(2) L(1) have "spoke \<noteq> dummyIfName" by (auto simp: attached_def veth_up_at_def)
    with L(2) assms(3) show ?thesis by (intro attached_frame [OF assms(2)]) auto
  qed
qed

lemma open_lan_ns_get:
  assumes "open_lan_ns h n w = (Inr ns, w')"
  shows "\<exists>w0 w1. GetNS h (nsPath n) w0 = (Inr ns, w1)"
proof -
  have mounted: "\<exists>w0 w1. GetNS h p w0 = (Inr ns, w1)"
    if "create_mounted_ns h p w0 = (Inr ns, w1)" for p w0 w1
    using that by (auto simp: create_mounted_ns_def effect)
  have new: "\<exists>w0 w1. GetNS h (nsPath n) w0 = (Inr ns, w1)"
    if "NewNS h n w0 = (Inr ns, w1)" for w0 w1
    using that mounted by (auto simp: NewNS_def effect split: if_splits)
  from assms new show ?thesis by (auto simp: open_lan_ns_def effect)
qed

lemma make_macvtap_effect:
  assumes "make_macvtap h name spoke mode dummy w = (Inr idx, w')"
    and "attached (links w) ns bridge bidx s"
    and "ns \<noteq> HostNS" and "name \<noteq> s" and "name \<noteq> getPeerVethName s"
  shows "attached (links w') ns bridge bidx s \<and>
    (if dummy then macvtap_at (links w') name dummyIfName MODE_PRIVATE idx
     else \<exists>md. ModeFromString mode = Inr md \<and> macvtap_at (links w') name spoke md idx)"
proof (cases dummy)
  case True
  with assms(1) obtain w1 where
    run: "ensure_dummy h w = (Inr (), w1)" "RecreateMacvtap h name dummyIfName ''private'' w1 = (Inr idx, w')"
    by (auto simp: make_macvtap_def effect)
  from ensure_dummy_attached [OF run(1) assms(2,3)]
  have "attached (links w1) ns bridge bidx s" .
  from RecreateMacvtap_effect [OF run(2) this assms(3-5)] True show ?thesis
    by (auto simp: ModeFromString_def)
next
  case False
  with assms RecreateMacvtap_effect [of name spoke mode w idx w'] show ?thesis
    by (auto simp: make_macvtap_def)
qed

text \<open>What a call of \<open>Ensure\<close> that returns no error has built.\<close>

lemma Ensure_effect_in:
  assumes run: "Ensure h name spoke lan hostname mode dummy w = (Inr idx, w')"
    and apart: "names_apart lan spoke"
    and name: "name \<noteq> spoke" "name \<noteq> getPeerVethName spoke"
  shows "\<exists>n ns bridge bidx. NS lan = Some n \<and> (\<exists>w1. open_lan_ns h n w = (Inr ns, w1)) \<and>
    BridgeName lan = Some bridge \<and> attached (links w') ns bridge bidx spoke \<and>
    (if dummy then macvtap_at (links w') name dummyIfName MODE_PRIVATE idx
     else \<exists>md. ModeFromString mode = Inr md \<and> macvtap_at (links w') name spoke md idx)"
proof -
  from run obtain n ns and dev :: link and y w1 w3 w4 w5 w6 where
    n: "NS lan = Some n" and
    steps: "open_lan_ns h n w = (Inr ns, w1)" "setup_lan_ns h ns lan spoke
        (LMTU dev - maxVxLANEncapOverhead) (LIndex dev) w3 = (Inr y, w4)"
      "add_vxlan h ns lan (LIndex dev) (LMTU dev - maxVxLANEncapOverhead) y w4 = (Inr (), w5)"
      "spoke_up h spoke w5 = (Inr (), w6)" "make_macvtap h name spoke mode dummy w6 = (Inr idx, w')"
    by (auto simp: Ensure_def effect Let_def deref_Inr_iff)
  from open_lan_ns_get [OF steps(1)] obtain v0 v1 where get: "GetNS h (nsPath n) v0 = (Inr ns, v1)"
    by blast
  then have host: "ns \<noteq> HostNS" by (rule get_ns)
  from apart obtain bridge vx where names: "BridgeName lan = Some bridge" "VxLANName lan = Some vx"
    and d: "distinct [bridge, vx, spoke, getPeerVethName spoke]"
    by (auto simp: names_apart_def)
  from setup_lan_ns_effect [OF steps(2) host] names d obtain bidx where
    four: "bridge_at (links w4) ns bridge bidx" "veth_port_at (links w4) ns (getPeerVethName spoke) spoke bidx"
      "veth_at (links w4) HostNS spoke (getPeerVethName spoke)"
    by auto
  have frame: "links w5 (m, k) = links w4 (m, k)" if "k \<noteq> vx" for m k
    using add_vxlan_frame [OF steps(3)] that names by auto
  from spoke_up_effect [OF steps(4)] obtain i where
    i: "links w5 (HostNS, spoke) = Some i" "links w6 = (links w5)((HostNS, spoke) \<mapsto> i\<lparr>IfUp := True\<rparr>)"
    by blast
  from four i frame d host have "attached (links w6) ns bridge bidx spoke"
    by (auto simp: attached_def bridge_at_def veth_port_at_def veth_at_def veth_up_at_def)
  from make_macvtap_effect [OF steps(5) this host name] n steps(1) names show ?thesis by blast
qed

lemma Ensure_effect:
  assumes "Ensure h name spoke lan hostname mode dummy w = (Inr idx, w')"
    and "names_apart lan spoke" and "name \<noteq> spoke" "name \<noteq> getPeerVethName spoke"
  shows "\<exists>n ns bridge bidx. NS lan = Some n \<and> (\<exists>w0 w1. GetNS h (nsPath n) w0 = (Inr ns, w1)) \<and>
    BridgeName lan = Some bridge \<and> attached (links w') ns bridge bidx spoke \<and>
    (if dummy then macvtap_at (links w') name dummyIfName MODE_PRIVATE idx
     else \<exists>md. ModeFromString mode = Inr md \<and> macvtap_at (links w') name spoke md idx)"
  using Ensure_effect_in [OF assms] open_lan_ns_get by blast

subsection \<open>Names that collide\<close>

lemma LinkDelete_veth:
  assumes "LinkDelete h ns m w = (r, w')" and "veth_at (links w) ns n other" and "m \<noteq> n" and "m \<noteq> other"
  shows "veth_at (links w') ns n other"
proof -
  from assms(2) obtain i where i: "links w (ns, n) = Some i" "LKind (IfLink i) = Veth other"
    by (auto simp: veth_at_def)
  have "\<not> cascades d i" if "links w (ns, m) = Some d" for d
    using keyed [OF that] i(2) assms(4) by (auto simp: cascades_def)
  from LinkDelete_frame [OF assms(1) i(1) _ this] assms(3) i(2) show ?thesis
    by (fastforce simp: veth_at_def same_link_def)
qed

lemma ensure_bridge_links:
  assumes "ensure_bridge h ns lan mtu w = (Inr br, w')"
  shows "links w' = links w \<or> (\<exists>n i. BridgeName lan = Some n \<and> links w (ns, n) = None \<and>
    LKind (IfLink i) = Bridge \<and> links w' = (links w)((ns, n) \<mapsto> i))"
proof -
  from assms obtain bridge where name: "BridgeName lan = Some bridge"
    by (auto simp: ensure_bridge_def effect deref_Inr_iff)
  from assms name consider (found) l where "LinkByName h ns bridge w = (Inr l, w')"
    | (made) e r w1 l w2 w3 where "LinkByName h ns bridge w = (Inl e, w1)"
      "LinkAdd h ns (no_attrs\<lparr>LName := bridge, LMTU := mtu, LTxQLen := -1, LKind := Bridge\<rparr>) None w1 = (Inr l, w2)"
      "LinkSetUp h ns l w2 = (Inr (), w3)" "LinkByName h ns bridge w3 = (r, w')"
    by (auto simp: ensure_bridge_def effect Let_def split: if_splits)
  then show ?thesis
  proof cases
    case found
    with by_name show ?thesis by metis
  next
    case made
    from add [OF made(2)] obtain i where i: "fresh_iface l i" "links w1 (ns, bridge) = None"
      "links w2 = (links w1)((ns, LName l) \<mapsto> i)" "LName l = bridge" "LKind l = Bridge"
      by auto
    with set_up [OF made(3), of i] have "links w3 = (links w2)((ns, LName l) \<mapsto> i\<lparr>IfUp := True\<rparr>)"
      by (simp add: fresh_iface_def)
    moreover have "links w' = links w3"
      using by_name by_name_err made(4) by (cases r) auto
    moreover have "links w1 = links w"
      using by_name_err [OF made(1)] by blast
    ultimately show ?thesis
      using i name by (intro disjI2 exI [of _ bridge] exI [of _ "i\<lparr>IfUp := True\<rparr>"]) (auto simp: fresh_iface_def)
  qed
qed

lemma ensure_bridge_veth:
  assumes "ensure_bridge h ns lan mtu w = (Inr br, w')" and "veth_at (links w) ns n other"
  shows "veth_at (links w') ns n other"
  using ensure_bridge_links [OF assms(1)] assms(2) by (auto simp: veth_at_def)

lemma make_spoke_taken:
  assumes "veth_at (links w) ns spoke other" and "other \<noteq> getPeerVethName spoke"
  shows "make_spoke h ns br spoke mtu w \<noteq> (Inr u, w')"
proof
  assume "make_spoke h ns br spoke mtu w = (Inr u, w')"
  then obtain r w1 la l w2 where
    run: "LinkDelete h ns (getPeerVethName spoke) w = (r, w1)" "LinkAdd h ns la None w1 = (Inr l, w2)"
    and la: "LName la = spoke" "LKind la = Veth (getPeerVethName spoke)"
    by (auto simp: make_spoke_def Let_def effect)
  have "veth_at (links w1) ns spoke other"
    using LinkDelete_veth [OF run(1) assms(1)] assms(2) by (auto simp: getPeerVethName_def)
  with add_veth [OF run(2) la(2)] la show False by (auto simp: veth_at_def)
qed

text \<open>
  The port of spoke \<open>s\<close> is called \<open>sp\<close>: while it is there, a spoke of that very name cannot
  be made in the namespace.
\<close>

lemma spoke_collision:
  assumes "attached (links w) ns bridge bidx s"
    and "VxLANName lan \<noteq> Some s" and "VxLANName lan \<noteq> Some (getPeerVethName s)"
  shows "setup_lan_ns h ns lan (getPeerVethName s) mtu idx w \<noteq> (Inr y, w')"
proof
  assume "setup_lan_ns h ns lan (getPeerVethName s) mtu idx w = (Inr y, w')"
  then obtain br w1 x w2 x' w3 where
    run: "ensure_bridge h ns lan mtu w = (Inr br, w1)" "check_vxlan h ns lan idx w1 = (Inr x, w2)"
      "drop_vxlan h ns lan x w2 = (Inr x', w3)" "make_spoke h ns br (getPeerVethName s) mtu w3 = (Inr (), w')"
    by (auto simp: setup_lan_ns_def effect)
  from assms(1) have "veth_at (links w) ns (getPeerVethName s) s"
    by (auto simp: attached_def veth_port_at_def veth_at_def)
  from ensure_bridge_veth [OF run(1) this] check_vxlan_links [OF run(2)]
  have at2: "veth_at (links w2) ns (getPeerVethName s) s" by simp
  have "veth_at (links w3) ns (getPeerVethName s) s"
  proof (cases x)
    case True
    with run(3) obtain vx r where "VxLANName lan = Some vx" "LinkDelete h ns vx w2 = (r, w3)"
      by (auto simp: drop_vxlan_def effect deref_Inr_iff)
    with LinkDelete_veth [OF _ at2] assms(2,3) show ?thesis by auto
  next
    case False
    with run(3) at2 show ?thesis by (simp add: drop_vxlan_def)
  qed
  from make_spoke_taken [OF this] run(4) show False by (auto simp: getPeerVethName_def)
qed

end

end
