(* ===== verification/NetipRoundtrip.thy ===== *)
theory NetipRoundtrip
  imports Netip
begin

section \<open>Reading a printed address back\<close>

text \<open>
  The interface code compares the group of a LAN with the group of a link that is there by
  parsing the text of the latter: \<open>netip.MustParseAddr(vx.Group.String())\<close>. The lemmas here
  run the parser of \<open>Netip\<close> over the printer of \<open>Netip\<close>, field by field.
\<close>

subsection \<open>Decimal octets\<close>

lemma dec_digit_char [simp]: "d < 10 \<Longrightarrow> dec_digit (digit_char d) = Some d"
  by (simp add: dec_digit_def of_digit_char)

lemma dec_digit_dot [simp]: "dec_digit (CHR ''.'') = None"
  by (simp add: dec_digit_def)

lemma show_nat_length: "0 < length (show_nat n)"
  by (subst show_nat.simps) simp

lemma show_nat_one: "length (show_nat n) = 1 \<Longrightarrow> n < 10"
  using show_nat_length [of "n div 10"] by (subst (asm) show_nat.simps) (auto split: if_splits)

lemma ipv4_fields_show:
  "n < 256 \<Longrightarrow> ipv4_fields (show_nat n @ rest) 0 0 fs = ipv4_fields rest n (length (show_nat n)) fs"
proof (induction n arbitrary: rest rule: show_nat.induct)
  case (1 n)
  show ?case
  proof (cases "n < 10")
    case True
    then show ?thesis by (simp add: show_nat.simps [of n])
  next
    case False
    have val: "n div 10 * 10 + n mod 10 = n" by simp
    have nz: "n div 10 \<noteq> 0" using False by (simp add: div_eq_0_iff)
    have "n mod 10 < 10" by simp
    from "1.IH" [OF False] "1.prems" False nz val dec_digit_char [OF this] show ?thesis
      by (simp add: show_nat.simps [of n])
  qed
qed

lemma ipv4_fields_dot:
  "0 < dl \<Longrightarrow> rest \<noteq> [] \<Longrightarrow> length fs < 3 \<Longrightarrow>
     ipv4_fields (CHR ''.'' # rest) n dl fs = ipv4_fields rest 0 0 (fs @ [of_nat n])"
  by simp

lemma ipv4_string4: "length bs = 4 \<Longrightarrow> ipv4_fields (string4 bs) 0 0 [] = Inr bs"
proof -
  assume "length bs = 4"
  then obtain a b c d where bs: "bs = [a, b, c, d]"
    by (auto simp: eval_nat_numeral length_Suc_conv)
  have small: "unat x < 256" for x :: byte using unsigned_less [of x] by simp
  have some: "show_nat n \<noteq> []" for n using show_nat_length [of n] by auto
  show ?thesis
    using ipv4_fields_show [OF small, of d "[]"]
    by (simp add: bs string4_def ipv4_fields_show [OF small] ipv4_fields_dot show_nat_length some
        del: ipv4_fields.simps(2))
qed

lemma show_nat_no_mark: "c \<in> set (show_nat n) \<Longrightarrow> c \<notin> {CHR ''.'', CHR '':'', CHR ''%''}"
proof
  assume "c \<in> set (show_nat n)"
  then obtain d where d: "d < 10" "c = digit_char d" using show_nat_chars by blast
  assume "c \<in> {CHR ''.'', CHR '':'', CHR ''%''}"
  then have "of_char c \<in> {46, 58, 37 :: nat}" by auto
  with d of_digit_char [OF d(1)] show False by auto
qed

lemma ParseAddr_string4: "length bs = 4 \<Longrightarrow> ParseAddr (string4 bs) = Inr (Addr4 bs)"
proof -
  assume len: "length bs = 4"
  then obtain a b c d where bs: "bs = [a, b, c, d]"
    by (auto simp: eval_nat_numeral length_Suc_conv)
  have "dropWhile (\<lambda>c. c \<notin> {CHR ''.'', CHR '':'', CHR ''%''}) (show_nat n @ CHR ''.'' # rest) = CHR ''.'' # rest"
    for n rest
    using show_nat_no_mark [of _ n] by (subst dropWhile_append2) auto
  with ipv4_string4 [OF len] show ?thesis
    by (simp add: ParseAddr_def parse_ipv4_def string4_def bs)
qed

subsection \<open>Groups in hexadecimal\<close>

lemma of_hex_char: "d < 16 \<Longrightarrow> of_char (hex_char d) = (if d < 10 then 48 + d else 87 + d :: nat)"
  by (simp add: hex_char_def)

lemma hex_digit_char [simp]: "d < 16 \<Longrightarrow> hex_digit (hex_char d) = Some d"
  by (simp add: hex_digit_def of_hex_char)

lemma hex_digit_colon [simp]: "hex_digit (CHR '':'') = None"
  by (simp add: hex_digit_def)

lemma hex_not_mark: "d < 16 \<Longrightarrow> hex_char d \<notin> {CHR ''.'', CHR '':'', CHR ''%''}"
proof
  assume d: "d < 16" and "hex_char d \<in> {CHR ''.'', CHR '':'', CHR ''%''}"
  then have "of_char (hex_char d) \<in> {46, 58, 37 :: nat}" by auto
  with d show False by (auto simp: of_hex_char split: if_splits)
qed

lemma show_hex_no_mark: "c \<in> set (show_hex n) \<Longrightarrow> c \<notin> {CHR ''.'', CHR '':'', CHR ''%''}"
proof -
  assume "c \<in> set (show_hex n)"
  then obtain d where d: "d < 16" "c = hex_char d" using show_hex_chars by blast
  show ?thesis unfolding d(2) by (rule hex_not_mark [OF d(1)])
qed

lemma show_hex_nonempty: "show_hex n \<noteq> []"
  by (subst show_hex.simps) simp

lemma show_hex_length: "n < 16 ^ Suc k \<Longrightarrow> length (show_hex n) \<le> Suc k"
proof (induction k arbitrary: n)
  case 0
  then show ?case by (simp add: show_hex.simps [of n])
next
  case (Suc k)
  then have "n div 16 < 16 ^ Suc k" by (simp add: less_mult_imp_div_less)
  with Suc.IH show ?case by (subst show_hex.simps) auto
qed

lemma hex_group_show:
  "n < 65536 \<Longrightarrow> hex_group (show_hex n @ rest) 0 0 = hex_group rest (length (show_hex n)) n"
proof (induction n arbitrary: rest rule: show_hex.induct)
  case (1 n)
  show ?case
  proof (cases "n < 16")
    case True
    then show ?thesis by (simp add: show_hex.simps [of n])
  next
    case False
    have val: "n div 16 * 16 + n mod 16 = n" by simp
    have "n div 16 < 16 ^ Suc 2" using "1.prems" by simp
    from show_hex_length [OF this] have len: "length (show_hex (n div 16)) \<le> 3" by simp
    have "n mod 16 < 16" by simp
    from "1.IH" [OF False] "1.prems" False val len hex_digit_char [OF this] show ?thesis
      by (simp add: show_hex.simps [of n])
  qed
qed

lemma hex_group_end: "n < 65536 \<Longrightarrow> hex_group (show_hex n) 0 0 = Inr (length (show_hex n), n, [])"
  using hex_group_show [of n "[]"] by simp

lemma hex_group_colon:
  "n < 65536 \<Longrightarrow> hex_group (show_hex n @ CHR '':'' # rest) 0 0 = Inr (length (show_hex n), n, CHR '':'' # rest)"
  by (simp add: hex_group_show)

subsection \<open>The loop on a list of groups\<close>

definition group_bytes :: "nat \<Rightarrow> byte list" where
  "group_bytes g = [of_nat (g div 256), of_nat g]"

definition groups_bytes :: "nat list \<Rightarrow> byte list" where
  "groups_bytes gs = concat (map group_bytes gs)"

lemma groups_bytes_simps [simp]:
  "groups_bytes [] = []" "groups_bytes (g # gs) = group_bytes g @ groups_bytes gs"
  "length (group_bytes g) = 2"
  by (simp_all add: groups_bytes_def group_bytes_def)

lemma length_groups_bytes [simp]: "length (groups_bytes gs) = 2 * length gs"
  by (induction gs) simp_all

lemma groups_bytes_append: "groups_bytes (gs @ hs) = groups_bytes gs @ groups_bytes hs"
  by (simp add: groups_bytes_def)

lemma groups_bytes_zero: "groups_bytes (replicate n 0) = replicate (2 * n) 0"
  by (induction n) (simp_all add: group_bytes_def)

lemma group_bytes_pair: "group_bytes (unat a * 256 + unat b) = [a, b]" for a b :: byte
proof -
  have "unat b < 256" using unsigned_less [of b] by simp
  then have "(unat a * 256 + unat b) div 256 = unat a" by simp
  moreover have "(of_nat 256 :: byte) = 0" by simp
  then have "(of_nat (unat a * 256 + unat b) :: byte) = b" by (simp only: of_nat_add of_nat_mult) simp
  ultimately show ?thesis by (simp add: group_bytes_def)
qed

lemma groups_of_bytes: "even (length bs) \<Longrightarrow> groups_bytes (groups_of bs) = bs"
  by (induction bs rule: groups_of.induct) (auto simp: group_bytes_pair)

lemma groups_of_length: "even (length bs) \<Longrightarrow> 2 * length (groups_of bs) = length bs"
  by (induction bs rule: groups_of.induct) auto

lemma groups_of_small: "g \<in> set (groups_of bs) \<Longrightarrow> g < 65536"
proof (induction bs rule: groups_of.induct)
  case (1 a b bs)
  have "unat a < 256" "unat b < 256" using unsigned_less [of a] unsigned_less [of b] by simp_all
  with 1 show ?case by auto
qed simp_all

lemma join_Cons: "gs \<noteq> [] \<Longrightarrow> join_with sep (s # gs) = s @ sep @ join_with sep gs"
  by (cases gs) simp_all

lemma show_hex_head: "\<exists>c cs. show_hex n = c # cs \<and> c \<noteq> CHR '':''"
  using show_hex_nonempty [of n] show_hex_no_mark [of _ n] by (cases "show_hex n") auto

lemma join_head: "gs \<noteq> [] \<Longrightarrow> \<exists>c cs. join_with '':'' (map show_hex gs) = c # cs \<and> c \<noteq> CHR '':''"
  using show_hex_head [of "hd gs"] by (cases gs; cases "tl gs") (auto simp: join_Cons)

text \<open>One turn of the loop, at the end of the string, at a colon, and at an ellipsis.\<close>

lemma loop_end:
  assumes "g < 65536" and "length ip < 16"
  shows "ipv6_loop (show_hex g) ip ell = Inr ([], ip @ group_bytes g, ell)"
  using assms by (simp add: ipv6_loop.simps [of "show_hex g"] hex_group_end show_hex_nonempty group_bytes_def)

lemma loop_colon:
  assumes "g < 65536" and "length ip < 16" and "c \<noteq> CHR '':''"
  shows "ipv6_loop (show_hex g @ CHR '':'' # c # cs) ip ell = ipv6_loop (c # cs) (ip @ group_bytes g) ell"
  using assms
  by (simp add: ipv6_loop.simps [of "show_hex g @ CHR '':'' # c # cs"] hex_group_colon show_hex_nonempty group_bytes_def)

lemma loop_ellipsis:
  assumes "g < 65536" and "length ip < 16"
  shows "ipv6_loop (show_hex g @ CHR '':'' # CHR '':'' # cs) ip None =
    (if cs = [] then Inr ([], ip @ group_bytes g, Some (length ip + 2))
     else ipv6_loop cs (ip @ group_bytes g) (Some (length ip + 2)))"
  using assms
  by (simp add: ipv6_loop.simps [of "show_hex g @ CHR '':'' # CHR '':'' # cs"] hex_group_colon show_hex_nonempty
      group_bytes_def)


lemma loop_groups:
  assumes "gs \<noteq> []" and "\<forall>g \<in> set gs. g < 65536" and "length ip + 2 * length gs \<le> 16"
  shows "ipv6_loop (join_with '':'' (map show_hex gs)) ip ell = Inr ([], ip @ groups_bytes gs, ell)"
  using assms
proof (induction gs arbitrary: ip)
  case (Cons g gs)
  show ?case
  proof (cases "gs = []")
    case True
    with Cons.prems show ?thesis by (simp add: loop_end)
  next
    case False
    then obtain c cs where j: "join_with '':'' (map show_hex gs) = c # cs" "c \<noteq> CHR '':''"
      using join_head by blast
    with Cons False show ?thesis by (simp add: join_Cons loop_colon)
  qed
qed simp

lemma loop_groups_ellipsis:
  assumes "gs \<noteq> []" and "\<forall>g \<in> set gs. g < 65536" and "length ip + 2 * length gs \<le> 16"
  shows "ipv6_loop (join_with '':'' (map show_hex gs) @ CHR '':'' # CHR '':'' # cs) ip None =
    (if cs = [] then Inr ([], ip @ groups_bytes gs, Some (length ip + 2 * length gs))
     else ipv6_loop cs (ip @ groups_bytes gs) (Some (length ip + 2 * length gs)))"
  using assms
proof (induction gs arbitrary: ip)
  case (Cons g gs)
  show ?case
  proof (cases "gs = []")
    case True
    with Cons.prems show ?thesis by (simp add: loop_ellipsis)
  next
    case False
    then obtain d ds where j: "join_with '':'' (map show_hex gs) = d # ds" "d \<noteq> CHR '':''"
      using join_head by blast
    with Cons False show ?thesis by (simp add: join_Cons loop_colon)
  qed
qed simp

subsection \<open>The run of zeros left out\<close>

definition run_ok :: "nat list \<Rightarrow> nat \<times> nat \<Rightarrow> bool" where
  "run_ok gs r \<longleftrightarrow> (case r of (st, len) \<Rightarrow>
     len = 0 \<or> 2 \<le> len \<and> st + len \<le> length gs \<and> take len (drop st gs) = replicate len 0)"

lemma zero_run_le: "i \<le> length gs \<Longrightarrow> i + zero_run gs i \<le> length gs"
  using length_takeWhile_le [of "\<lambda>g. g = 0" "drop i gs"] by (simp add: zero_run_def)

lemma zero_run_zeros: "take (zero_run gs i) (drop i gs) = replicate (zero_run gs i) 0"
proof -
  have "take (zero_run gs i) (drop i gs) = takeWhile (\<lambda>g. g = 0) (drop i gs)"
    by (simp add: zero_run_def flip: takeWhile_eq_take)
  also have "\<dots> = replicate (zero_run gs i) 0"
    unfolding zero_run_def by (rule replicate_length_same [symmetric]) (auto dest: set_takeWhileD)
  finally show ?thesis .
qed

lemma best_run_ok: "length gs = 8 \<Longrightarrow> run_ok gs (best_run gs)"
proof -
  assume len: "length gs = 8"
  have "run_ok gs (fold (\<lambda>i (st, len). let l = zero_run gs i in if 2 \<le> l \<and> len < l then (i, l) else (st, len)) is r)"
    if "run_ok gs r" "\<forall>i \<in> set is. i < 8" for "is" r
    using that
  proof (induction "is" arbitrary: r)
    case (Cons i "is")
    obtain st n where r: "r = (st, n)" by (cases r)
    have "run_ok gs (i, zero_run gs i)" if "2 \<le> zero_run gs i"
      using that Cons.prems(2) len zero_run_le [of i gs] zero_run_zeros [of gs i] by (simp add: run_ok_def)
    with Cons show ?case by (simp add: r Let_def)
  qed simp
  moreover have "run_ok gs (255, 0)" by (simp add: run_ok_def)
  ultimately show ?thesis unfolding best_run_def by simp
qed

subsection \<open>Back from the text of an IPv6 address\<close>

lemma parse_ipv6_plain:
  assumes "CHR ''%'' \<notin> set s"
  shows "parse_ipv6 s =
    (if HasPrefix s ''::'' then
       (if drop 2 s = [] then Inr (Addr6 (replicate 16 0) [])
        else and_then (ipv6_loop (drop 2 s) [] (Some 0)) (\<lambda>r. ipv6_finish r []))
     else and_then (ipv6_loop s [] None) (\<lambda>r. ipv6_finish r []))"
proof -
  have all: "takeWhile (\<lambda>c. c \<noteq> CHR ''%'') s = s" "dropWhile (\<lambda>c. c \<noteq> CHR ''%'') s = []"
    using assms by (auto simp: takeWhile_eq_all_conv dropWhile_eq_Nil_conv)
  show ?thesis unfolding parse_ipv6_def Let_def all by simp
qed

lemma ParseAddr_colon:
  assumes "s = show_hex g @ CHR '':'' # rest \<or> s = CHR '':'' # rest"
  shows "ParseAddr s = parse_ipv6 s"
proof -
  have "dropWhile (\<lambda>c. c \<notin> {CHR ''.'', CHR '':'', CHR ''%''}) s = CHR '':'' # rest"
    using assms show_hex_no_mark [of _ g] by (elim disjE) (simp_all add: dropWhile_append2)
  then show ?thesis by (simp add: ParseAddr_def)
qed


lemma string6_parts:
  assumes "length bs = 16" and "best_run (groups_of bs) = (st, len)"
  shows "len = 0 \<and> string6 bs = join_with '':'' (map show_hex (groups_of bs)) \<or>
    (\<exists>gs hs. len = 8 - length gs - length hs \<and> length gs + length hs \<le> 6 \<and>
      bs = groups_bytes gs @ replicate (2 * len) 0 @ groups_bytes hs \<and>
      (\<forall>g \<in> set gs \<union> set hs. g < 65536) \<and>
      string6 bs = join_with '':'' (map show_hex gs) @ ''::'' @ join_with '':'' (map show_hex hs))"
proof (cases "len = 0")
  case True
  then show ?thesis using assms(2) by (simp add: string6_def Let_def)
next
  case False
  define all where "all = groups_of bs"
  have l8: "length all = 8" using groups_of_length [of bs] assms(1) by (simp add: all_def)
  have run: "2 \<le> len" "st + len \<le> 8" "take len (drop st all) = replicate len 0"
    using best_run_ok [OF l8] assms(2) False l8 by (auto simp: run_ok_def all_def)
  have split: "all = take st all @ replicate len 0 @ drop (st + len) all"
    by (metis append_take_drop_id drop_drop run(3) add.commute)
  have "bs = groups_bytes all" using groups_of_bytes [of bs] assms(1) by (simp add: all_def)
  also have "\<dots> = groups_bytes (take st all) @ replicate (2 * len) 0 @ groups_bytes (drop (st + len) all)"
    by (subst split) (simp add: groups_bytes_append groups_bytes_zero)
  finally have "bs = groups_bytes (take st all) @ replicate (2 * len) 0 @ groups_bytes (drop (st + len) all)" .
  moreover have "\<forall>g \<in> set (take st all) \<union> set (drop (st + len) all). g < 65536"
    using groups_of_small [of _ bs] by (auto simp: all_def dest: in_set_takeD in_set_dropD)
  moreover have "string6 bs = join_with '':'' (map show_hex (take st all)) @ ''::'' @
      join_with '':'' (map show_hex (drop (st + len) all))"
    using assms(2) False by (simp add: string6_def Let_def all_def)
  moreover have "len = 8 - length (take st all) - length (drop (st + len) all)"
    and "length (take st all) + length (drop (st + len) all) \<le> 6"
    using run l8 by simp_all
  ultimately show ?thesis by blast
qed

lemma not_double_colon: "show_hex g @ rest = s \<Longrightarrow> \<not> HasPrefix s ''::''"
  using show_hex_head [of g] by (auto simp: HasPrefix_def)

lemma ipv6_of_groups:
  assumes "length gs = 8" and "\<forall>g \<in> set gs. g < 65536" and "s = join_with '':'' (map show_hex gs)"
    and "CHR ''%'' \<notin> set s"
  shows "ParseAddr s = Inr (Addr6 (groups_bytes gs) [])"
proof -
  from assms(1) obtain g gs' where gs: "gs = g # gs'" "gs' \<noteq> []" by (cases gs; cases "tl gs") auto
  have s: "s = show_hex g @ CHR '':'' # join_with '':'' (map show_hex gs')"
    using gs assms(3) by (simp add: join_Cons)
  have no: "\<not> HasPrefix s ''::''" using s by (intro not_double_colon) (rule sym)
  have "ParseAddr s = parse_ipv6 s" using s by (intro ParseAddr_colon) blast
  also have "\<dots> = and_then (ipv6_loop s [] None) (\<lambda>r. ipv6_finish r [])"
    using parse_ipv6_plain [OF assms(4)] no by simp
  also have "ipv6_loop s [] None = Inr ([], groups_bytes gs, None)"
    using loop_groups [of gs "[]" None] assms(1-3) by fastforce
  finally show ?thesis using assms(1) by (simp add: ipv6_finish_def)
qed

lemma ipv6_of_ellipsis:
  assumes "length gs + length hs \<le> 6" and "\<forall>g \<in> set gs \<union> set hs. g < 65536"
    and "s = join_with '':'' (map show_hex gs) @ ''::'' @ join_with '':'' (map show_hex hs)"
    and "CHR ''%'' \<notin> set s"
  shows "ParseAddr s =
    Inr (Addr6 (groups_bytes gs @ replicate (2 * (8 - length gs - length hs)) 0 @ groups_bytes hs) [])"
proof -
  let ?hs = "join_with '':'' (map show_hex hs)"
  have zeros: "16 - (2 * length gs + 2 * length hs) = 2 * (8 - length gs - length hs)" using assms(1) by simp
  have tail: "and_then (if ?hs = [] then Inr ([], groups_bytes gs, Some (2 * length gs))
        else ipv6_loop ?hs (groups_bytes gs) (Some (2 * length gs))) (\<lambda>r. ipv6_finish r []) =
      Inr (Addr6 (groups_bytes gs @ replicate (2 * (8 - length gs - length hs)) 0 @ groups_bytes hs) [])"
  proof (cases "hs = []")
    case True
    then show ?thesis using assms(1) zeros by (simp add: ipv6_finish_def)
  next
    case False
    with join_head [OF this] have "?hs \<noteq> []" by auto
    moreover have "ipv6_loop ?hs (groups_bytes gs) (Some (2 * length gs)) =
        Inr ([], groups_bytes gs @ groups_bytes hs, Some (2 * length gs))"
      using loop_groups [OF False, of "groups_bytes gs" "Some (2 * length gs)"] assms(1,2) by simp
    ultimately show ?thesis using assms(1) zeros by (simp add: ipv6_finish_def)
  qed
  show ?thesis
  proof (cases "gs = []")
    case True
    with assms(3) have s: "s = CHR '':'' # CHR '':'' # ?hs" by simp
    have "ParseAddr s = parse_ipv6 s" using s by (intro ParseAddr_colon [of s _ "CHR '':'' # ?hs"]) blast
    with parse_ipv6_plain [OF assms(4)] tail True s show ?thesis
      by (auto simp: HasPrefix_def ipv6_finish_def split: if_splits)
  next
    case False
    then obtain g gs' where gs: "gs = g # gs'" by (cases gs) auto
    obtain rest where s: "s = show_hex g @ CHR '':'' # rest"
      using assms(3) gs by (cases "gs' = []") (auto simp: join_Cons)
    have no: "\<not> HasPrefix s ''::''" using s by (intro not_double_colon) (rule sym)
    have "ParseAddr s = parse_ipv6 s" using s by (intro ParseAddr_colon) blast
    also have "\<dots> = and_then (ipv6_loop s [] None) (\<lambda>r. ipv6_finish r [])"
      using parse_ipv6_plain [OF assms(4)] no by simp
    also have "ipv6_loop s [] None = (if ?hs = [] then Inr ([], groups_bytes gs, Some (2 * length gs))
        else ipv6_loop ?hs (groups_bytes gs) (Some (2 * length gs)))"
      using loop_groups_ellipsis [OF False, of "[]" ?hs] assms(1-3) by simp
    finally show ?thesis using tail by (rule trans)
  qed
qed

lemma ParseAddr_string6: "length bs = 16 \<Longrightarrow> ParseAddr (string6 bs) = Inr (Addr6 bs [])"
proof -
  assume len: "length bs = 16"
  obtain st n where run: "best_run (groups_of bs) = (st, n)" by fastforce
  show ?thesis
    using string6_parts [OF len run]
  proof (elim disjE exE conjE)
    assume s: "string6 bs = join_with '':'' (map show_hex (groups_of bs))"
    have "ParseAddr (string6 bs) = Inr (Addr6 (groups_bytes (groups_of bs)) [])"
      using groups_of_length [of bs] groups_of_small [of _ bs] len string6_no_percent
      by (intro ipv6_of_groups [OF _ _ s]) auto
    then show ?thesis using groups_of_bytes [of bs] len by simp
  next
    fix gs hs
    assume parts: "n = 8 - length gs - length hs" "length gs + length hs \<le> 6"
      "bs = groups_bytes gs @ replicate (2 * n) 0 @ groups_bytes hs" "\<forall>g \<in> set gs \<union> set hs. g < 65536"
      "string6 bs = join_with '':'' (map show_hex gs) @ ''::'' @ join_with '':'' (map show_hex hs)"
    from ipv6_of_ellipsis [OF parts(2,4,5) string6_no_percent] parts(1,3) show ?thesis by simp
  qed
qed

text \<open>
  An address without a zone, and not an IPv4 one inside IPv6, is what its bytes print as; the
  two exceptions are read back as another address.
\<close>

definition plain_addr :: "addr \<Rightarrow> bool" where
  "plain_addr a \<longleftrightarrow> \<not> Is4In6 a \<and> (\<forall>bs z. a = Addr6 bs z \<longrightarrow> z = [])"

lemma print_parse:
  assumes "wf_addr a"
  shows "ParseAddr (IP_String (AsSlice a)) =
    Inr (case a of Addr4 bs \<Rightarrow> Addr4 bs | Addr6 bs z \<Rightarrow> if Is4In6 a then Addr4 (drop 12 bs) else Addr6 bs [])"
proof (cases a)
  case (Addr4 bs)
  with assms have "length bs = 4" by (simp add: wf_addr_def)
  then show ?thesis using ParseAddr_string4 Addr4 by (auto simp: IP_String_def)
next
  case (Addr6 bs z)
  with assms have len: "length bs = 16" by (simp add: wf_addr_def)
  then have "bs \<noteq> []" "length (drop 12 bs) = 4" by auto
  with len show ?thesis
    using ParseAddr_string4 [of "drop 12 bs"] ParseAddr_string6 [OF len] Addr6 by (simp add: IP_String_def)
qed

lemma print_parse_plain: "wf_addr a \<Longrightarrow> ParseAddr (IP_String (AsSlice a)) = Inr a \<longleftrightarrow> plain_addr a"
  by (subst print_parse) (auto simp: plain_addr_def split: addr.splits)

text \<open>The text of a group of 4 or 16 bytes is an address.\<close>

lemma group_text_parses:
  assumes "length bs \<in> {4, 16}"
  shows "\<exists>a. ParseAddr (IP_String bs) = Inr a"
proof -
  have "\<exists>a. wf_addr a \<and> AsSlice a = bs"
    using assms by (intro exI [of _ "if length bs = 4 then Addr4 bs else Addr6 bs []"]) (auto simp: wf_addr_def)
  with print_parse show ?thesis by blast
qed

end
