(* ===== verification/Coexist.thy ===== *)
theory Coexist
  imports Kernel NetipRoundtrip
begin

section \<open>What a call of \<open>Ensure\<close> leaves alone\<close>

text \<open>
  A node serves many spokes, and \<open>Ensure\<close> runs for one of them at a time. The lemmas here
  follow the attachment of one spoke through a call for another, and the VxLAN link through a
  second call for the same LAN.
\<close>

text \<open>
  The veth pair of a spoke \<open>t\<close>: from its creation to its move to the host, the two new names
  are the only ones whose entries change, and the indices stay.
\<close>

definition pair_made :: "table \<Rightarrow> netns \<Rightarrow> string \<Rightarrow> int \<Rightarrow> int \<Rightarrow> table \<Rightarrow> bool" where
  "pair_made L ns t ti pi L' \<longleftrightarrow>
     (\<exists>i j. L' = L((ns, t) \<mapsto> i, (ns, getPeerVethName t) \<mapsto> j) \<and> LIndex (IfLink i) = ti \<and> LIndex (IfLink j) = pi)"

lemma peer_differs [simp]: "getPeerVethName t \<noteq> t" "t \<noteq> getPeerVethName t"
  by (simp_all add: getPeerVethName_def)

lemma pair_entries:
  assumes "pair_made L ns t ti pi L'"
  shows "\<exists>i. L' (ns, t) = Some i \<and> LIndex (IfLink i) = ti"
    and "\<exists>j. L' (ns, getPeerVethName t) = Some j \<and> LIndex (IfLink j) = pi"
  using assms by (auto simp: pair_made_def)

lemma pair_update:
  assumes "pair_made L ns t ti pi L'"
  shows "LIndex (IfLink x) = ti \<Longrightarrow> pair_made L ns t ti pi (L'((ns, t) \<mapsto> x))"
    and "LIndex (IfLink x) = pi \<Longrightarrow> pair_made L ns t ti pi (L'((ns, getPeerVethName t) \<mapsto> x))"
proof -
  from assms obtain i j where L': "L' = L((ns, t) \<mapsto> i, (ns, getPeerVethName t) \<mapsto> j)"
    "LIndex (IfLink i) = ti" "LIndex (IfLink j) = pi" by (auto simp: pair_made_def)
  then show "LIndex (IfLink x) = ti \<Longrightarrow> pair_made L ns t ti pi (L'((ns, t) \<mapsto> x))"
    unfolding pair_made_def by (intro exI [of _ x] exI [of _ j]) (auto simp: fun_upd_twist)
  from L' show "LIndex (IfLink x) = pi \<Longrightarrow> pair_made L ns t ti pi (L'((ns, getPeerVethName t) \<mapsto> x))"
    unfolding pair_made_def by (intro exI [of _ i] exI [of _ x]) auto
qed

lemma attached_keys:
  assumes "attached L ns bridge bidx s" and "L k = None"
  shows "k \<notin> {(ns, bridge), (ns, getPeerVethName s), (HostNS, s)}"
  using assms by (auto simp: attached_def bridge_at_def veth_port_at_def veth_up_at_def)

context kernel begin

subsection \<open>The attachment of another spoke\<close>

text \<open>
  The lemmas hold however the call ends, with an error or a panic too. Each follows the
  attachment through the calls of a stretch.
\<close>

lemma by_name_links [simp]: "links (snd (LinkByName h ns n w)) = links w"
  using by_name by_name_err by (cases "LinkByName h ns n w"; cases "fst (LinkByName h ns n w)") auto

lemma by_name_Inr: "LinkByName h ns n w = (Inr l, w') \<Longrightarrow>
  links w' = links w \<and> LName l = n \<and> (\<exists>i. links w (ns, n) = Some i \<and> LIndex (IfLink i) = LIndex l)"
  using by_name by fastforce

text \<open>What a call does to the entry of a link object that is current.\<close>

lemma set_up_any:
  assumes "links w (ns, LName l) = Some i" and "LIndex (IfLink i) = LIndex l"
  shows "links (snd (LinkSetUp h ns l w)) = links w \<or>
    links (snd (LinkSetUp h ns l w)) = (links w)((ns, LName l) \<mapsto> i\<lparr>IfUp := True\<rparr>)"
  using set_up [OF _ assms] set_up_err [of ns l w]
  by (cases "LinkSetUp h ns l w"; cases "fst (LinkSetUp h ns l w)") auto

lemma set_master_any:
  assumes "links w (ns, LName l) = Some i" and "LIndex (IfLink i) = LIndex l"
  shows "links (snd (LinkSetMaster h ns l b w)) = links w \<or>
    links (snd (LinkSetMaster h ns l b w)) = (links w)((ns, LName l) \<mapsto> i\<lparr>IfMaster := Some (LIndex b)\<rparr>)"
  using set_master [OF _ assms, of b] set_master_err [of ns l b w]
  by (cases "LinkSetMaster h ns l b w"; cases "fst (LinkSetMaster h ns l b w)") auto

lemma set_mask_any:
  assumes "links w (ns, LName l) = Some i" and "LIndex (IfLink i) = LIndex l"
  shows "links (snd (LinkSetFwdMask h ns l k w)) = links w \<or>
    links (snd (LinkSetFwdMask h ns l k w)) = (links w)((ns, LName l) \<mapsto> i\<lparr>IfMask := k\<rparr>)"
  using set_mask [OF _ assms, of k] set_mask_err [of ns l k w]
  by (cases "LinkSetFwdMask h ns l k w"; cases "fst (LinkSetFwdMask h ns l k w)") auto

text \<open>Bringing a link up, and adding one under a free name, disturb no attachment.\<close>

lemma attached_up:
  "attached L ns bridge bidx s \<Longrightarrow> L k = Some i \<Longrightarrow> attached (L(k \<mapsto> i\<lparr>IfUp := True\<rparr>)) ns bridge bidx s"
  by (auto simp: attached_def bridge_at_def veth_port_at_def veth_up_at_def port_of_def)

lemma attached_new:
  "attached L ns bridge bidx s \<Longrightarrow> L k = None \<Longrightarrow> attached (L(k \<mapsto> i)) ns bridge bidx s"
  by (auto simp: attached_def bridge_at_def veth_port_at_def veth_up_at_def)

lemma set_up_attached:
  assumes "attached (links w) m bridge bidx s" and "links w (ns, LName l) = Some i" and "LIndex (IfLink i) = LIndex l"
  shows "attached (links (snd (LinkSetUp h ns l w))) m bridge bidx s"
  using set_up_any [OF assms(2,3)] attached_up [OF assms(1,2)] assms(1) by auto

text \<open>Looking a link up and bringing it up; adding a link and bringing it up.\<close>

lemma found_up_attached:
  assumes "attached (links w) m bridge bidx s"
  shows "attached (links (snd (calling (LinkByName h ns n) e1 (\<lambda>l. calling (LinkSetUp h ns l) e2 give) w))) m bridge bidx s"
proof (rule calling_rule [where P = "\<lambda>w. attached (links w) m bridge bidx s"])
  show "attached (links w') m bridge bidx s" if "LinkByName h ns n w = (Inl e, w')" for e w'
    using by_name_err [OF that] assms by simp
  show "attached (links (snd (calling (LinkSetUp h ns l) e2 give w'))) m bridge bidx s"
    if "LinkByName h ns n w = (Inr l, w')" for l w'
    using by_name_Inr [OF that] assms set_up_attached [of w' m bridge bidx s ns l] by auto
qed

lemma add_attached:
  assumes "attached (links w) m bridge bidx s" and "\<forall>p. LKind l \<noteq> Veth p"
  shows "attached (links (snd (LinkAdd h ns l None w))) m bridge bidx s"
  using assms add [of ns l w] add_err [of ns l None w] attached_new [OF assms(1)]
  by (cases "LinkAdd h ns l None w"; cases "fst (LinkAdd h ns l None w)") fastforce+

lemma added_up_attached:
  assumes "attached (links w) m bridge bidx s" and "\<forall>p. LKind l \<noteq> Veth p"
    and "LinkAdd h ns l None w = (Inr l', w')"
  shows "attached (links (snd (LinkSetUp h ns l' w'))) m bridge bidx s"
proof -
  from add [OF assms(3,2)] obtain i where i: "fresh_iface l' i" "links w' = (links w)((ns, LName l) \<mapsto> i)" "LName l' = LName l"
    by auto
  have "attached (links w') m bridge bidx s"
    using add_attached [OF assms(1,2), of ns] assms(3) by simp
  from set_up_attached [OF this, of ns l' i] i show ?thesis by (simp add: fresh_iface_def)
qed

lemma lo_up_attached:
  assumes "attached (links w) m bridge bidx s"
  shows "attached (links (snd (lo_up h ns w))) m bridge bidx s"
  unfolding lo_up_def running_give
  by (rule do_in_rule [where P = "\<lambda>w. attached (links w) m bridge bidx s"])
    (simp_all add: enter assms found_up_attached)

lemma ensure_bridge_attached:
  assumes "attached (links w) m bridge bidx s"
  shows "attached (links (snd (ensure_bridge h ns lan mtu w))) m bridge bidx s"
proof -
  let ?A = "\<lambda>w. attached (links w) m bridge bidx s"
  have made: "?A (snd (calling (LinkAdd h ns la None) e1 (\<lambda>br. calling (LinkSetUp h ns br) e2 (\<lambda>_.
      branch (LinkByName h ns n) (\<lambda>_. give None) (\<lambda>br'. give (Some br')))) w'))"
    if w': "links w' = links w" and la: "LKind la = Bridge" for w' la e1 e2 n
  proof (rule calling_rule [where P = ?A])
    have at: "?A w'" using assms w' by simp
    have kind: "\<forall>p. LKind la \<noteq> Veth p" using la by simp
    show "?A w2" if "LinkAdd h ns la None w' = (Inl e, w2)" for e w2
      using add_attached [OF at kind, of ns] that by simp
    show "?A (snd (calling (LinkSetUp h ns br) e2 (\<lambda>_.
        branch (LinkByName h ns n) (\<lambda>_. give None) (\<lambda>br'. give (Some br'))) w2))"
      if "LinkAdd h ns la None w' = (Inr br, w2)" for br w2
    proof (rule calling_step [where P = ?A and S = ?A])
      show "?A (snd (LinkSetUp h ns br w2))" by (rule added_up_attached [OF at kind that])
      show "?A (snd (branch (LinkByName h ns n) (\<lambda>_. give None) (\<lambda>br'. give (Some br')) w3))" if "?A w3" for w3
        using that by (intro branch_rule [where P = ?A]) (auto dest: by_name by_name_err)
    qed
  qed
  show ?thesis
    unfolding ensure_bridge_def Let_def
    by (rule evaluating_rule [where P = ?A, OF assms], rule branch_rule [where P = ?A])
      (use made assms in \<open>auto dest: by_name by_name_err\<close>)
qed

lemma check_vxlan_links_any: "links (snd (check_vxlan h ns lan idx w)) = links w"
  unfolding check_vxlan_def
  by (rule evaluating_rule [where P = "\<lambda>v. links v = links w", OF refl],
      rule evaluating_rule [where P = "\<lambda>v. links v = links w", OF refl],
      rule branch_rule [where P = "\<lambda>v. links v = links w"])
    (auto dest: by_name by_name_err split: link_kind.split intro!: evaluating_rule [where P = "\<lambda>v. links v = links w"])

lemma LinkDelete_attached_any:
  assumes "attached (links w) m bridge bidx s" and "n \<notin> {s, getPeerVethName s, bridge}"
  shows "attached (links (snd (LinkDelete h ns n w))) m bridge bidx s"
  using LinkDelete_attached [OF surjective_pairing assms(1)] assms(2) by auto

lemma drop_vxlan_attached:
  assumes "attached (links w) m bridge bidx s"
    and "\<And>vx. VxLANName lan = Some vx \<Longrightarrow> vx \<notin> {s, getPeerVethName s, bridge}"
  shows "attached (links (snd (drop_vxlan h ns lan x w))) m bridge bidx s"
proof (cases x)
  case True
  show ?thesis
    unfolding drop_vxlan_def if_P [OF True]
    by (rule evaluating_rule [where P = "\<lambda>w. attached (links w) m bridge bidx s", OF assms(1)],
        rule ignoring_rule [where P = "\<lambda>w. attached (links w) m bridge bidx s"])
      (use LinkDelete_attached_any [OF assms(1) assms(2)] in \<open>auto simp: deref_Inr_iff\<close>)
qed (simp add: drop_vxlan_def assms(1))

lemma pair_set_up:
  assumes "pair_made L ns t ti pi (links w)"
    and "LName l = t \<and> LIndex l = ti \<or> LName l = getPeerVethName t \<and> LIndex l = pi"
  shows "pair_made L ns t ti pi (links (snd (LinkSetUp h ns l w)))"
  using assms(2)
proof (elim disjE conjE)
  assume l: "LName l = t" "LIndex l = ti"
  with pair_entries(1) [OF assms(1)] obtain i where "links w (ns, LName l) = Some i" "LIndex (IfLink i) = LIndex l" by auto
  with set_up_any [of w ns l i] pair_update(1) [OF assms(1), of "i\<lparr>IfUp := True\<rparr>"] assms(1) l show ?thesis by auto
next
  assume l: "LName l = getPeerVethName t" "LIndex l = pi"
  with pair_entries(2) [OF assms(1)] obtain i where "links w (ns, LName l) = Some i" "LIndex (IfLink i) = LIndex l" by auto
  with set_up_any [of w ns l i] pair_update(2) [OF assms(1), of "i\<lparr>IfUp := True\<rparr>"] assms(1) l show ?thesis by auto
qed

lemma pair_port:
  assumes "pair_made L ns t ti pi (links w)" and l: "LName l = getPeerVethName t" "LIndex l = pi"
  shows "pair_made L ns t ti pi (links (snd (LinkSetMaster h ns l b w)))"
    and "pair_made L ns t ti pi (links (snd (LinkSetFwdMask h ns l k w)))"
proof -
  from pair_entries(2) [OF assms(1)] l obtain i where i: "links w (ns, LName l) = Some i" "LIndex (IfLink i) = LIndex l"
    by auto
  from set_master_any [OF i, of b] pair_update(2) [OF assms(1), of "i\<lparr>IfMaster := Some (LIndex b)\<rparr>"] assms(1) l i
  show "pair_made L ns t ti pi (links (snd (LinkSetMaster h ns l b w)))" by auto
  from set_mask_any [OF i, of k] pair_update(2) [OF assms(1), of "i\<lparr>IfMask := k\<rparr>"] assms(1) l i
  show "pair_made L ns t ti pi (links (snd (LinkSetFwdMask h ns l k w)))" by auto
qed

lemma pair_attached:
  assumes "pair_made L ns t ti pi L'" and "attached L m bridge bidx s"
    and "L (ns, t) = None" and "L (ns, getPeerVethName t) = None"
  shows "attached L' m bridge bidx s"
  using attached_keys [OF assms(2,3)] attached_keys [OF assms(2,4)] assms(1)
  by (intro attached_frame [OF assms(2)]) (auto simp: pair_made_def)

lemma pair_moved:
  assumes "pair_made L ns t ti pi (links w)" and "attached L m bridge bidx s" and "ns \<noteq> HostNS"
    and "L (ns, t) = None" and "L (ns, getPeerVethName t) = None" and l: "LName l = t" "LIndex l = ti"
  shows "attached (links (snd (LinkSetNsFd h ns l HostNS w))) m bridge bidx s"
proof -
  from pair_entries(1) [OF assms(1)] obtain i where i: "links w (ns, LName l) = Some i" "LIndex (IfLink i) = LIndex l"
    using l by auto
  have at: "attached (links w) m bridge bidx s" using pair_attached [OF assms(1,2,4,5)] .
  have "attached (links w') m bridge bidx s" if "LinkSetNsFd h ns l HostNS w = (Inr (), w')" for w'
  proof -
    from set_ns [OF that assms(3) i] obtain idx where
      free: "links w (HostNS, t) = None" and
      L': "links w' = (links w)((ns, t) := None, (HostNS, t) \<mapsto>
        i\<lparr>IfLink := (IfLink i)\<lparr>LIndex := idx\<rparr>, IfUp := False, IfMaster := None\<rparr>)" using l by auto
    show ?thesis
      using attached_keys [OF assms(2,4)] attached_keys [OF at free] by (intro attached_frame [OF at]) (auto simp: L')
  qed
  with at set_ns_err [of ns l HostNS w] show ?thesis
    by (cases "LinkSetNsFd h ns l HostNS w"; cases "fst (LinkSetNsFd h ns l HostNS w)") auto
qed

text \<open>The peer joins the bridge and the spoke moves, however far that gets.\<close>

lemma pair_finish:
  assumes S: "pair_made L ns t ti pi (links w)" and l: "LName l = t" "LIndex l = ti"
    and p: "LName p = getPeerVethName t" "LIndex p = pi"
    and at: "attached L m bridge bidx s" "ns \<noteq> HostNS" "L (ns, t) = None" "L (ns, getPeerVethName t) = None"
  shows "attached (links (snd (calling (LinkSetMaster h ns p b) e3 (\<lambda>_.
    calling (LinkSetFwdMask h ns p BRSlaveGrpFwdMask) e4 (\<lambda>_.
    calling (LinkSetUp h ns p) e5 (\<lambda>_. calling (LinkSetNsFd h ns l HostNS) e6 give))) w))) m bridge bidx s"
proof -
  let ?A = "\<lambda>w. attached (links w) m bridge bidx s" and ?S = "\<lambda>w. pair_made L ns t ti pi (links w)"
  have SA: "?A v" if "?S v" for v using pair_attached [OF that at(1,3,4)] .
  have moved: "?A (snd (calling (LinkSetNsFd h ns l HostNS) e6 give v))" if "?S v" for v
    using pair_moved [OF that at l] by simp
  have up: "?A (snd (calling (LinkSetUp h ns p) e5 (\<lambda>_. calling (LinkSetNsFd h ns l HostNS) e6 give) v))" if "?S v" for v
    by (rule calling_step [where P = ?A and S = ?S])
      (rule pair_set_up [OF that], use p in simp, erule SA, erule moved)
  have mask: "?A (snd (calling (LinkSetFwdMask h ns p BRSlaveGrpFwdMask) e4 (\<lambda>_.
      calling (LinkSetUp h ns p) e5 (\<lambda>_. calling (LinkSetNsFd h ns l HostNS) e6 give)) v))" if "?S v" for v
    by (rule calling_step [where P = ?A and S = ?S])
      (rule pair_port(2) [OF that p], erule SA, erule up)
  show ?thesis
    by (rule calling_step [where P = ?A and S = ?S]) (rule pair_port(1) [OF S p], erule SA, erule mask)
qed

lemma make_spoke_attached:
  assumes "attached (links w) m bridge bidx s" and "ns \<noteq> HostNS"
    and "getPeerVethName t \<notin> {s, getPeerVethName s, bridge}"
  shows "attached (links (snd (make_spoke h ns br t mtu w))) m bridge bidx s"
proof -
  let ?A = "\<lambda>w. attached (links w) m bridge bidx s"
  define w1 where "w1 = snd (LinkDelete h ns (getPeerVethName t) w)"
  have at1: "?A w1" using LinkDelete_attached_any [OF assms(1,3)] by (simp add: w1_def)
  have rest: "?A (snd (calling (LinkSetUp h ns l) e1 (\<lambda>_. calling (LinkByName h ns (getPeerVethName t)) e2 (\<lambda>p.
      calling (LinkSetMaster h ns p b) e3 (\<lambda>_. calling (LinkSetFwdMask h ns p BRSlaveGrpFwdMask) e4 (\<lambda>_.
      calling (LinkSetUp h ns p) e5 (\<lambda>_. calling (LinkSetNsFd h ns l HostNS) e6 give))))) w2))"
    if l: "LinkAdd h ns la None w1 = (Inr l, w2)" and la: "LName la = t" "LKind la = Veth (getPeerVethName t)"
    for la l w2 and b :: link and e1 e2 e3 e4 e5 e6
  proof -
    from add_veth [OF l la(2)] la obtain i j where free: "links w1 (ns, t) = None" "links w1 (ns, getPeerVethName t) = None"
      and lt: "LName l = t" and L2: "links w2 = (links w1)((ns, t) \<mapsto> i, (ns, getPeerVethName t) \<mapsto> j)"
      and li: "LIndex (IfLink i) = LIndex l"
      by (auto simp: fresh_iface_def)
    let ?S = "\<lambda>w. pair_made (links w1) ns t (LIndex l) (LIndex (IfLink j)) (links w)"
    have S2: "?S w2" using L2 li by (auto simp: pair_made_def)
    have SA: "?A v" if "?S v" for v using pair_attached [OF that at1 free] .
    have found: "?A (snd (calling (LinkByName h ns (getPeerVethName t)) e2 (\<lambda>p.
          calling (LinkSetMaster h ns p b) e3 (\<lambda>_. calling (LinkSetFwdMask h ns p BRSlaveGrpFwdMask) e4 (\<lambda>_.
          calling (LinkSetUp h ns p) e5 (\<lambda>_. calling (LinkSetNsFd h ns l HostNS) e6 give)))) v))" if S3: "?S v" for v
    proof (rule calling_rule [where P = ?A])
      show "?A v'" if "LinkByName h ns (getPeerVethName t) v = (Inl e, v')" for e v'
        using SA [OF S3] by_name_err [OF that] by simp
      fix p v' assume p: "LinkByName h ns (getPeerVethName t) v = (Inr p, v')"
      from by_name_Inr [OF p] pair_entries(2) [OF S3]
      have "links v' = links v" "LName p = getPeerVethName t" "LIndex p = LIndex (IfLink j)" by auto
      with S3 show "?A (snd (calling (LinkSetMaster h ns p b) e3 (\<lambda>_. calling (LinkSetFwdMask h ns p BRSlaveGrpFwdMask) e4 (\<lambda>_.
          calling (LinkSetUp h ns p) e5 (\<lambda>_. calling (LinkSetNsFd h ns l HostNS) e6 give))) v'))"
        by (intro pair_finish [OF _ lt refl _ _ at1 assms(2) free]) simp_all
    qed
    show ?thesis
      by (rule calling_step [where P = ?A and S = ?S])
        (rule pair_set_up [OF S2], use lt in simp, erule SA, erule found)
  qed
  show ?thesis
    unfolding make_spoke_def Let_def
  proof (rule ignoring_rule [where P = ?A], unfold w1_def [symmetric], rule at1,
      rule evaluating_rule [where P = ?A, OF at1], rule calling_rule [where P = ?A])
    fix b e w2 assume "LinkAdd h ns (no_attrs\<lparr>LParentIndex := LIndex b, LName := t, LTxQLen := - 1, LMTU := mtu,
      LKind := Veth (getPeerVethName t)\<rparr>) None w1 = (Inl e, w2)"
    with add_err at1 show "?A w2" by metis
  qed (rule rest, assumption, simp_all)
qed

lemma setup_lan_ns_attached:
  assumes at: "attached (links w) m bridge bidx s" and ns: "ns \<noteq> HostNS"
    and peer: "getPeerVethName t \<notin> {s, getPeerVethName s, bridge}"
    and vx: "\<And>vx. VxLANName lan = Some vx \<Longrightarrow> vx \<notin> {s, getPeerVethName s, bridge}"
  shows "attached (links (snd (setup_lan_ns h ns lan t mtu idx w))) m bridge bidx s"
proof -
  let ?A = "\<lambda>w. attached (links w) m bridge bidx s"
  have spoke: "?A (snd (running (make_spoke h ns br t mtu) e (\<lambda>_. give x) w'))" if "?A w'" for br e and x :: bool and w'
    using make_spoke_attached [OF that ns peer] by simp
  show ?thesis
    unfolding setup_lan_ns_def
  proof (rule running_rule [where P = ?A])
    show "?A (snd (ensure_bridge h ns lan mtu w))" using ensure_bridge_attached [OF at] .
    fix br w1 assume "ensure_bridge h ns lan mtu w = (Inr br, w1)"
    then have at1: "?A w1" using ensure_bridge_attached [OF at, of ns] by (metis snd_conv)
    show "?A (snd (running (check_vxlan h ns lan idx) (\<lambda>e. e) (\<lambda>differs.
      running (drop_vxlan h ns lan differs) (\<lambda>e. e) (\<lambda>needToAdd.
      running (make_spoke h ns br t mtu) (\<lambda>e. e) (\<lambda>_. give needToAdd))) w1))"
    proof (rule running_rule [where P = ?A])
      show "?A (snd (check_vxlan h ns lan idx w1))" using at1 by (simp add: check_vxlan_links_any)
      fix x w2 assume "check_vxlan h ns lan idx w1 = (Inr x, w2)"
      then have at2: "?A w2" using check_vxlan_links_any at1 by (metis snd_conv)
      show "?A (snd (running (drop_vxlan h ns lan x) (\<lambda>e. e) (\<lambda>needToAdd.
        running (make_spoke h ns br t mtu) (\<lambda>e. e) (\<lambda>_. give needToAdd)) w2))"
        by (rule running_step [where P = ?A and S = ?A])
          (rule drop_vxlan_attached [OF at2 vx], assumption+, erule spoke)
    qed
  qed
qed

lemma add_vxlan_attached:
  assumes at: "attached (links w) m bridge bidx s"
    and vx: "\<And>vx. VxLANName lan = Some vx \<Longrightarrow> vx \<notin> {s, getPeerVethName s, bridge}"
  shows "attached (links (snd (add_vxlan h ns lan dev mtu x w))) m bridge bidx s"
proof -
  let ?A = "\<lambda>w. attached (links w) m bridge bidx s"
  have frame: "?A w2" if "?A w1" "\<And>o' n. VxLANName lan \<noteq> Some n \<Longrightarrow> links w2 (o', n) = links w1 (o', n)" for w1 w2
    using that vx by (intro attached_frame [OF that(1)]) auto
  have at': "?A w'" if "deref (VxLANName lan) = Inr name" "ensureVXLANIf h name dev ns vni grp mtu' port w = (r, w')"
    for name vni grp mtu' port r w'
    using ensureVXLANIf_links [OF that(2)] at attached_new [OF at] by auto
  have made: "?A (snd (CreateVXLANIF h lan dev ns mtu' port w))" for mtu' port
    unfolding CreateVXLANIF_def
    by (rule evaluating_rule [where P = ?A, OF at], rule evaluating_rule [where P = ?A, OF at],
        rule evaluating_rule [where P = ?A, OF at], rule branch_rule [where P = ?A])
      (auto dest: at' split: fault.split)
  have attach: "?A (snd (do_in h ns (attach_vxlan h ns lan) w'))" if "?A w'" for w'
  proof (rule do_in_rule [where P = ?A])
    show at': "?A (snd (EnterNS h ns w'))" using that by (simp add: enter)
    show "?A (snd (attach_vxlan h ns lan (snd (EnterNS h ns w'))))"
      using attach_vxlan_frame [OF surjective_pairing] by (intro frame [OF at']) auto
  qed
  show ?thesis
  proof (cases x)
    case True
    show ?thesis
      unfolding add_vxlan_def if_P [OF True]
    proof (rule evaluating_rule [where P = ?A, OF at], rule running_rule [where P = ?A])
      fix port w' and u :: unit assume "CreateVXLANIF h lan dev ns mtu (sint port) w = (Inr u, w')"
      with made [of mtu "sint port"] have at': "?A w'" by simp
      show "?A (snd (ignoring_error (do_in h ns (attach_vxlan h ns lan)) (give ()) w'))"
        by (rule ignoring_rule [where P = ?A]) (simp_all add: attach [OF at'])
    qed (rule made)
  qed (simp add: add_vxlan_def at)
qed

lemma spoke_up_attached:
  assumes "attached (links w) m bridge bidx s"
  shows "attached (links (snd (spoke_up h t w))) m bridge bidx s"
  unfolding spoke_up_def by (rule found_up_attached [OF assms])

lemma ensure_dummy_attached_any:
  assumes at: "attached (links w) m bridge bidx s"
  shows "attached (links (snd (ensure_dummy h w))) m bridge bidx s"
  unfolding ensure_dummy_def
proof (rule branch_rule [where P = "\<lambda>w. attached (links w) m bridge bidx s"])
  let ?A = "\<lambda>w. attached (links w) m bridge bidx s" and ?l = "no_attrs\<lparr>LName := dummyIfName, LKind := Dummy\<rparr>"
  fix e w1 assume "LinkByName h HostNS dummyIfName w = (Inl e, w1)"
  then have at1: "?A w1" using by_name_err at by metis
  have "?A (snd (LinkAdd h HostNS ?l None w1))" by (rule add_attached [OF at1]) simp
  then show "?A (snd (calling (LinkAdd h HostNS ?l None) (Wrap ''failed to create dummy link'') (\<lambda>_.
      calling (LinkByName h HostNS dummyIfName) (Wrap ''failed to get newly created dummy link'') (\<lambda>_. give ())) w1))"
    by (intro calling_step [where P = ?A and S = ?A]) auto
next
  show "attached (links (snd (give () w1))) m bridge bidx s" if "LinkByName h HostNS dummyIfName w = (Inr x, w1)" for x w1
    using by_name [OF that] at by simp
qed

lemma RecreateMacvtap_attached:
  assumes at: "attached (links w) m bridge bidx s" and "m \<noteq> HostNS" and "name \<notin> {s, getPeerVethName s}"
  shows "attached (links (snd (RecreateMacvtap h name lower mode w))) m bridge bidx s"
  unfolding RecreateMacvtap_def
proof (rule running_rule [where P = "\<lambda>w. attached (links w) m bridge bidx s"])
  let ?A = "\<lambda>w. attached (links w) m bridge bidx s"
  show del: "?A (snd (LinkDelete h HostNS name w))"
    using LinkDelete_attached [OF surjective_pairing at] assms(2,3) by auto
  fix u w1 assume "LinkDelete h HostNS name w = (Inr u, w1)"
  with del have at1: "?A w1" by simp
  show "?A (snd (CreateMacvtap h name lower mode w1))"
    unfolding CreateMacvtap_def Let_def
  proof (rule calling_rule [where P = ?A])
    show "?A w2" if "LinkByName h HostNS lower w1 = (Inl e, w2)" for e w2
      using by_name_err [OF that] at1 by simp
    fix l w2 assume "LinkByName h HostNS lower w1 = (Inr l, w2)"
    with by_name at1 have at2: "?A w2" by metis
    show "?A (snd (evaluating (ModeFromString mode) (\<lambda>nlmode. calling (LinkAdd h HostNS (no_attrs\<lparr>LName := name,
        LParentIndex := LIndex l, LTxQLen := LTxQLen l, LKind := Macvtap nlmode\<rparr>) None) (Note ''failed to create macvtap'')
        (\<lambda>mv'. calling (LinkSetUp h HostNS mv') (Note ''failed to set UP'') (\<lambda>_. give (LIndex mv')))) w2))"
    proof (rule evaluating_rule [where P = ?A, OF at2], rule calling_rule [where P = ?A])
      fix md e w3 assume "LinkAdd h HostNS (no_attrs\<lparr>LName := name, LParentIndex := LIndex l, LTxQLen := LTxQLen l,
        LKind := Macvtap md\<rparr>) None w2 = (Inl e, w3)"
      with add_err at2 show "?A w3" by metis
    next
      fix md mv w3 assume "LinkAdd h HostNS (no_attrs\<lparr>LName := name, LParentIndex := LIndex l, LTxQLen := LTxQLen l,
        LKind := Macvtap md\<rparr>) None w2 = (Inr mv, w3)"
      from added_up_attached [OF at2 _ this]
      show "?A (snd (calling (LinkSetUp h HostNS mv) (Note ''failed to set UP'') (\<lambda>_. give (LIndex mv)) w3))" by simp
    qed
  qed
qed

lemma make_macvtap_attached:
  assumes at: "attached (links w) m bridge bidx s" and apart: "m \<noteq> HostNS" "name \<notin> {s, getPeerVethName s}"
  shows "attached (links (snd (make_macvtap h name t mode dummy w))) m bridge bidx s"
proof (cases dummy)
  case True
  show ?thesis
    unfolding make_macvtap_def using True ensure_dummy_attached_any [OF at]
    by (auto intro!: running_rule [where P = "\<lambda>w. attached (links w) m bridge bidx s"] RecreateMacvtap_attached [OF _ apart])
qed (simp add: make_macvtap_def RecreateMacvtap_attached [OF at apart])

text \<open>The namespace of the LAN is there and opens, so \<open>Ensure\<close> does not make it anew.\<close>

lemma open_lan_ns_there:
  assumes "Stat h (nsPath n) w = (Inr (), w0)" and "GetNS h (nsPath n) w0 = (Inr ns, w1)"
  shows "open_lan_ns h n w = (Inr ns, w1)" and "links w1 = links w"
  using assms stat [of "nsPath n" w] get_ns_links [of "nsPath n" w0]
  by (simp_all add: open_lan_ns_def branch_def)

lemma Ensure_attached:
  assumes ns: "NS lan = Some n" "Stat h (nsPath n) w = (Inr (), w0)" "GetNS h (nsPath n) w0 = (Inr ns, w1)"
    and at: "attached (links w) m bridge bidx s" and host: "m \<noteq> HostNS"
    and vx: "VxLANName lan = Some vx" "{vx, getPeerVethName t} \<inter> {s, getPeerVethName s, bridge} = {}"
    and name: "name \<notin> {s, getPeerVethName s}"
  shows "attached (links (snd (Ensure h name t lan hostname mode dummy w))) m bridge bidx s"
proof -
  let ?A = "\<lambda>w. attached (links w) m bridge bidx s"
  have ns': "ns \<noteq> HostNS" using get_ns [OF ns(3)] .
  have vx': "v \<notin> {s, getPeerVethName s, bridge}" if "VxLANName lan = Some v" for v using vx that by auto
  have peer: "getPeerVethName t \<notin> {s, getPeerVethName s, bridge}" using vx(2) by auto
  note open_there = open_lan_ns_there [OF ns(2,3)]
  have tail: "?A (snd (running (add_vxlan h ns lan dev mtu x) e1 (\<lambda>_. running (spoke_up h t) e2 (\<lambda>_.
      make_macvtap h name t mode dummy)) v))" if "?A v" for v dev mtu x e1 e2
    by (rule running_step [where P = ?A and S = ?A], rule add_vxlan_attached [OF that vx'], assumption+,
        rule running_step [where P = ?A and S = ?A], erule spoke_up_attached, assumption,
        rule make_macvtap_attached [OF _ host name])
  have inside: "?A (snd (running (do_in h ns (setup_lan_ns h ns lan t mtu dev)) e (\<lambda>x.
      running (add_vxlan h ns lan dev mtu x) e1 (\<lambda>_. running (spoke_up h t) e2 (\<lambda>_.
      make_macvtap h name t mode dummy))) v))" if "?A v" for v dev mtu e e1 e2
    by (rule running_step [where P = ?A and S = ?A], rule do_in_rule [where P = ?A], simp add: enter that,
        rule setup_lan_ns_attached [OF _ ns' peer vx'], simp_all add: enter that tail)
  have device: "?A (snd (calling (LinkByName h HostNS d) e (k :: link \<Rightarrow> ('w, int) act) v))"
    if "?A v" "\<And>l v'. ?A v' \<Longrightarrow> ?A (snd (k l v'))" for v d e k
    using that by (intro calling_rule [where P = ?A]) (auto dest: by_name by_name_err)
  have lo: "?A (snd (running (lo_up h ns) e (k :: unit \<Rightarrow> ('w, int) act) v))"
    if "?A v" "\<And>v'. ?A v' \<Longrightarrow> ?A (snd (k () v'))" for v e k
    using lo_up_attached [OF that(1)] that(2) by (intro running_step [where P = ?A and S = ?A]) auto
  have "?A (snd (running (lo_up h ns) (\<lambda>e. e) (\<lambda>_.
     calling (LinkByName h HostNS (vx_dev_name lan hostname)) (Wrap ''vxlan dev not found'') (\<lambda>vxDevLink.
     let mtu = LMTU vxDevLink - maxVxLANEncapOverhead; devIndex = LIndex vxDevLink
     in running (do_in h ns (setup_lan_ns h ns lan t mtu devIndex)) (\<lambda>e. e) (\<lambda>needToAdd.
        running (add_vxlan h ns lan devIndex mtu needToAdd) (\<lambda>e. e) (\<lambda>_.
        running (spoke_up h t) (\<lambda>e. e) (\<lambda>_. make_macvtap h name t mode dummy))))) w1))"
    unfolding Let_def by (rule lo) (use open_there(2) at in simp, rule device, assumption, erule inside)
  then show ?thesis
    by (simp add: Ensure_def ns(1) deref_def running_def attempt_def open_there(1))
qed

subsection \<open>The VxLAN link in a second call\<close>

text \<open>
  A link with the settings \<open>CreateVXLANIF\<close> gives it is found to differ exactly when its group
  does not survive printing and parsing.
\<close>

lemma vxlan_link_differs:
  assumes "ParseAddr g = Inr grp" and "VNI lan = Some vni" and "VxPort lan = Some port"
    and "LKind (vxlan_link name dev (sint vni) grp mtu (sint port)) = Vxlan vx"
  shows "vxlan_differs lan grp dev vx = Inr (\<not> plain_addr grp)"
proof -
  from assms(4) have vx: "Group vx = AsSlice grp" "VxlanId vx = sint vni" "VtepDevIndex vx = dev" "Port vx = sint port"
    by (auto simp: vxlan_link_def)
  have wf: "wf_addr grp" using ParseAddr_wf [OF assms(1)] .
  obtain a where a: "ParseAddr (IP_String (AsSlice grp)) = Inr a" using print_parse [OF wf] by blast
  have "grp = a \<longleftrightarrow> plain_addr grp" using print_parse_plain [OF wf] a by auto
  with a vx assms(2,3) show ?thesis
    by (simp add: vxlan_differs_def MustParseAddr_def deref_def)
qed

lemma check_vxlan_again:
  assumes "VxLANGrp lan = Some g" and "ParseAddr g = Inr grp" and "VNI lan = Some vni" and "VxPort lan = Some port"
    and "VxLANName lan = Some vxname" and "links w (ns, vxname) = Some i"
    and "LKind (IfLink i) = LKind (vxlan_link vxname dev (sint vni) grp mtu (sint port))"
    and "LinkByName h ns vxname w = (Inr l, w1)"
  shows "check_vxlan h ns lan dev w = (Inr (\<not> plain_addr grp), w1)"
proof -
  obtain vx where kind: "LKind (vxlan_link vxname dev (sint vni) grp mtu (sint port)) = Vxlan vx"
    by (simp add: vxlan_link_def)
  have l: "LKind l = Vxlan vx" using by_name [OF assms(8)] assms(6,7) kind by auto
  from vxlan_link_differs [OF assms(2,3,4) kind] assms l show ?thesis
    by (simp add: check_vxlan_def deref_def MustParseAddr_def branch_def)
qed

text \<open>
  Two spokes of one LAN, set up one after the other in a namespace that stays where it is
  mounted: both are attached, to one and the same bridge.
\<close>

lemma Ensure_twice:
  assumes first: "Ensure h name s lan hostname mode dummy w = (Inr i1, w1)" "names_apart lan s" "name \<notin> {s, getPeerVethName s}"
    and ns: "NS lan = Some n" "open_lan_ns h n w = (Inr ns, w0)"
      "Stat h (nsPath n) w1 = (Inr (), v0)" "GetNS h (nsPath n) v0 = (Inr ns, v1)"
    and snd: "Ensure h name' t lan hostname mode' dummy' w1 = (Inr i2, w2)" "names_apart lan t" "name' \<notin> {t, getPeerVethName t}"
    and apart: "s \<noteq> t" "getPeerVethName t \<noteq> s" "name' \<notin> {s, getPeerVethName s}"
  shows "\<exists>bridge bidx. BridgeName lan = Some bridge \<and>
    attached (links w2) ns bridge bidx s \<and> attached (links w2) ns bridge bidx t"
proof -
  from Ensure_effect_in [OF first(1,2)] first(3) ns(1,2) obtain bridge bidx where
    bridge: "BridgeName lan = Some bridge" and s: "attached (links w1) ns bridge bidx s" by auto
  from first(2) bridge obtain vx where vx: "VxLANName lan = Some vx" "{vx} \<inter> {s, getPeerVethName s, bridge} = {}"
    by (auto simp: names_apart_def)
  have peer: "getPeerVethName t \<notin> {s, getPeerVethName s, bridge}"
    using snd(2) bridge apart(1,2) by (auto simp: names_apart_def getPeerVethName_def)
  have "ns \<noteq> HostNS" using get_ns [OF ns(4)] .
  from Ensure_attached [OF ns(1,3,4) s this vx(1) _ apart(3), where t = t] vx(2) peer snd(1)
  have s2: "attached (links w2) ns bridge bidx s" by (metis Un_insert_left insert_disjoint(1) insert_is_Un snd_conv)
  from Ensure_effect_in [OF snd(1,2)] snd(3) ns(1) open_lan_ns_there [OF ns(3,4)] bridge obtain bidx2 where
    "attached (links w2) ns bridge bidx2 t" by auto
  moreover from this s2 have "bidx2 = bidx" by (auto simp: attached_def bridge_at_def)
  ultimately show ?thesis using bridge s2 by blast
qed

end

end
