(* ===== verification/Willing.thy ===== *)
theory Willing
  imports Coexist
begin

section \<open>When \<open>Ensure\<close> succeeds\<close>

text \<open>
  The contract \<open>kernel\<close> says what a call does when it succeeds. The contract here says when it
  does: the kernel refuses nothing but links that are not acceptable or whose name is taken.
  With it, \<open>Ensure\<close> is shown to return a result, not only to be right when it does.
\<close>

subsection \<open>Actions that give a result\<close>

text \<open>The action returns a value, and the value and the world it leaves are as stated.\<close>

definition gives :: "('w \<Rightarrow> ('e + 'a) \<times> 'w) \<Rightarrow> 'w \<Rightarrow> ('a \<Rightarrow> 'w \<Rightarrow> bool) \<Rightarrow> bool" where
  "gives m w Q \<longleftrightarrow> (\<exists>x w'. m w = (Inr x, w') \<and> Q x w')"

lemma gives_mono: "gives m w Q \<Longrightarrow> (\<And>x w'. Q x w' \<Longrightarrow> R x w') \<Longrightarrow> gives m w R"
  by (auto simp: gives_def)

lemma gives_conj: "gives m w Q \<Longrightarrow> (\<And>x w'. m w = (Inr x, w') \<Longrightarrow> R x w') \<Longrightarrow> gives m w (\<lambda>x w'. Q x w' \<and> R x w')"
  by (auto simp: gives_def)

lemma gives_give [simp]: "gives (give x) w Q \<longleftrightarrow> Q x w"
  by (simp add: gives_def)

lemma gives_Pair [simp]: "gives (Pair (Inr x)) w Q \<longleftrightarrow> Q x w"
  by (simp add: gives_def)

lemma gives_calling [simp]: "gives (calling m h k) w Q \<longleftrightarrow> gives m w (\<lambda>x w'. gives (k x) w' Q)"
  by (auto simp: gives_def effect)

lemma gives_running [simp]: "gives (running m h k) w Q \<longleftrightarrow> gives m w (\<lambda>x w'. gives (k x) w' Q)"
  by (auto simp: gives_def effect)

lemma gives_do_in [simp]: "gives (do_in h ns m) w Q \<longleftrightarrow> gives (EnterNS h ns) w (\<lambda>_ w'. gives m w' Q)"
  by (simp add: do_in_def)

lemma gives_branch: "gives m w (\<lambda>x w'. gives (k2 x) w' Q) \<Longrightarrow> gives (branch m k1 k2) w Q"
  by (auto simp: gives_def branch_def)

lemma gives_branch_err: "m w = (Inl e, w') \<Longrightarrow> gives (k1 e) w' Q \<Longrightarrow> gives (branch m k1 k2) w Q"
  by (simp add: gives_def branch_def)

lemma gives_ignoring: "gives m w (\<lambda>_ w'. gives k w' Q) \<Longrightarrow> gives (ignoring_error m k) w Q"
  by (auto simp: gives_def ignoring_error_def)

subsection \<open>Links the kernel accepts\<close>

definition name_fits :: "string \<Rightarrow> bool" where
  "name_fits n \<longleftrightarrow> n \<noteq> '''' \<and> length n \<le> 15 \<and> n \<noteq> ''.'' \<and> n \<noteq> ''..'' \<and>
     (\<forall>c \<in> set n. c \<noteq> CHR ''/'' \<and> c \<noteq> CHR '':'' \<and> (of_char c :: nat) \<notin> {9, 10, 11, 12, 13, 32, 160})"

definition acceptable :: "link \<Rightarrow> bool" where
  "acceptable l \<longleftrightarrow> name_fits (LName l) \<and> (LMTU l = 0 \<or> 68 \<le> LMTU l \<and> LMTU l \<le> 65535) \<and>
     (case LKind l of
        Veth p \<Rightarrow> name_fits p \<and> p \<noteq> LName l
      | Vxlan vx \<Rightarrow> 0 \<le> VxlanId vx \<and> VxlanId vx < 2 ^ 24 \<and>
          (\<exists>a. wf_addr a \<and> IsMulticast a \<and> Group vx = AsSlice a)
      | _ \<Rightarrow> True)"

text \<open>A link the netlink library can show as the kind it is.\<close>

fun readable :: "link_kind \<Rightarrow> bool" where
  "readable (OtherKind t) \<longleftrightarrow> t \<noteq> ''bridge''"
| "readable (Vxlan vx) \<longleftrightarrow> length (Group vx) \<in> {4, 16}"
| "readable _ \<longleftrightarrow> True"

text \<open>A virtual link, one that can be deleted.\<close>

definition removable :: "link_kind \<Rightarrow> bool" where
  "removable k \<longleftrightarrow> readable k \<and> (\<forall>t. k \<noteq> OtherKind t)"

text \<open>The link objects of a table, without what is set on them.\<close>

definition view :: "table \<Rightarrow> netns \<times> string \<Rightarrow> link option" where
  "view L k = map_option IfLink (L k)"

lemma view_simps [simp]:
  "view L k = None \<longleftrightarrow> L k = None" "view L k = Some l \<longleftrightarrow> (\<exists>i. L k = Some i \<and> IfLink i = l)"
  by (auto simp: view_def)

lemma view_upd: "L k = Some i \<Longrightarrow> IfLink j = IfLink i \<Longrightarrow> view (L(k \<mapsto> j)) = view L"
  by (auto simp: view_def)

text \<open>
  Both ends of a veth pair are known by their names: \<open>k\<close> is the only link called \<open>p\<close> whose
  other end is called \<open>n\<close>.
\<close>

definition other_end :: "(netns \<times> string \<Rightarrow> link option) \<Rightarrow> string \<Rightarrow> string \<Rightarrow> netns \<times> string \<Rightarrow> bool" where
  "other_end V n p k \<longleftrightarrow> snd k = p \<and> (\<forall>k'. (\<exists>l. V k' = Some l \<and> snd k' = p \<and> LKind l = Veth n) \<longleftrightarrow> k' = k)"

lemma other_end_there: "other_end V n p k \<Longrightarrow> \<exists>l. V k = Some l \<and> LKind l = Veth n"
  unfolding other_end_def by blast

subsection \<open>Room for an attachment\<close>

text \<open>
  There is room for a spoke: its name is free inside the namespace and on the host, or on the
  host it is the other end of the pair that is deleted first.
\<close>

definition spoke_room :: "(netns \<times> string \<Rightarrow> link option) \<Rightarrow> netns \<Rightarrow> string \<Rightarrow> bool" where
  "spoke_room V ns t \<longleftrightarrow> V (ns, t) = None \<and>
     (\<forall>l. V (ns, getPeerVethName t) = Some l \<longrightarrow> removable (LKind l)) \<and>
     (V (HostNS, t) = None \<or>
      (\<exists>l. V (ns, getPeerVethName t) = Some l \<and> LKind l = Veth t \<and>
         other_end V (getPeerVethName t) t (HostNS, t)))"

text \<open>A link that depends on none of these links of a namespace.\<close>

definition apart :: "(netns \<times> string \<Rightarrow> link option) \<Rightarrow> netns \<Rightarrow> string set \<Rightarrow> link \<Rightarrow> bool" where
  "apart V ns N l \<longleftrightarrow> (\<forall>n \<in> N. \<forall>d. V (ns, n) = Some d \<longrightarrow>
     LKind l \<noteq> Veth (LName d) \<and> \<not> (stacked (LKind l) \<and> LParentIndex l = LIndex d))"

text \<open>
  A host ready for an attachment of spoke \<open>t\<close> of a LAN, with the underlay device \<open>dev\<close> and the
  macvtap \<open>name\<close>: the loopback and the underlay are there, the names of bridge and VxLAN link are
  free or those of such links, there is room for the spoke, and the name of the macvtap is free
  or that of a virtual link. The dummy link of veth attachments is free or a dummy.
\<close>

definition site_ready ::
    "(netns \<times> string \<Rightarrow> link option) \<Rightarrow> netns \<Rightarrow> LANSpec \<Rightarrow> string \<Rightarrow> string \<Rightarrow> string \<Rightarrow> bool" where
  "site_ready V ns lan dev t name \<longleftrightarrow>
     (\<exists>lo k. V (ns, ''lo'') = Some lo \<and> LKind lo = OtherKind k \<and> k \<noteq> ''bridge'') \<and>
     (\<exists>d. V (HostNS, dev) = Some d \<and> readable (LKind d) \<and> 142 \<le> LMTU d \<and> LMTU d \<le> 65609 \<and> dev \<noteq> t \<and>
        apart V ns ({getPeerVethName t} \<union> set_option (VxLANName lan)) d) \<and>
     (\<forall>b l. BridgeName lan = Some b \<longrightarrow> V (ns, b) = Some l \<longrightarrow> LKind l = Bridge) \<and>
     (\<forall>v l. VxLANName lan = Some v \<longrightarrow> V (ns, v) = Some l \<longrightarrow>
        (\<exists>vx. LKind l = Vxlan vx \<and> length (Group vx) \<in> {4, 16})) \<and>
     spoke_room V ns t \<and>
     (\<forall>l. V (HostNS, name) = Some l \<longrightarrow> removable (LKind l)) \<and>
     (\<forall>l. V (HostNS, dummyIfName) = Some l \<longrightarrow> LKind l = Dummy)"

text \<open>The names a call of \<open>Ensure\<close> uses are names the kernel takes, and they are different.\<close>

definition names_fit :: "LANSpec \<Rightarrow> string \<Rightarrow> string \<Rightarrow> bool" where
  "names_fit lan t name \<longleftrightarrow> names_apart lan t \<and>
     (\<forall>n \<in> {t, getPeerVethName t, name} \<union> set_option (BridgeName lan) \<union> set_option (VxLANName lan). name_fits n) \<and>
     name \<noteq> t \<and> name \<noteq> getPeerVethName t \<and> dummyIfName \<notin> {t, name}"

text \<open>The bridge and the veth pair as \<open>Ensure\<close> asks for them.\<close>

definition bridge_link :: "string \<Rightarrow> int \<Rightarrow> link" where
  "bridge_link n mtu = no_attrs\<lparr>LName := n, LMTU := mtu, LTxQLen := -1, LKind := Bridge\<rparr>"

definition spoke_link :: "string \<Rightarrow> int \<Rightarrow> int \<Rightarrow> link" where
  "spoke_link t mtu idx = no_attrs\<lparr>LParentIndex := idx, LName := t, LTxQLen := -1, LMTU := mtu,
     LKind := Veth (getPeerVethName t)\<rparr>"

subsection \<open>The contract\<close>

text \<open>
  \<open>well w\<close>: the kernel has the memory and the process the rights for what is asked.
  \<open>busy w ns idx md\<close>: the link of that index has a macvtap on it that excludes one of mode \<open>md\<close>.
  A new link has none, and calls that add no macvtap make no link busy.
\<close>

definition calmer :: "('w \<Rightarrow> bool) \<Rightarrow> ('w \<Rightarrow> netns \<Rightarrow> int \<Rightarrow> MacvlanMode \<Rightarrow> bool) \<Rightarrow> 'w \<Rightarrow> 'w \<Rightarrow> bool" where
  "calmer well busy w w' \<longleftrightarrow> (well w \<longrightarrow> well w') \<and> (\<forall>ns idx md. busy w' ns idx md \<longrightarrow> busy w ns idx md)"

locale willing_kernel = kernel h links
  for h :: "'w host" and links :: "'w \<Rightarrow> table" +
  fixes well :: "'w \<Rightarrow> bool"
    and busy :: "'w \<Rightarrow> netns \<Rightarrow> int \<Rightarrow> MacvlanMode \<Rightarrow> bool"
  assumes find_ok: "well w \<Longrightarrow> links w (ns, n) = Some i \<Longrightarrow> readable (LKind (IfLink i)) \<Longrightarrow>
      \<exists>l w'. LinkByName h ns n w = (Inr l, w')"
    and miss_ok: "well w \<Longrightarrow> links w (ns, n) = None \<Longrightarrow> \<exists>w'. LinkByName h ns n w = (Inl LinkNotFound, w')"
    and enter_ok: "well w \<Longrightarrow> \<exists>w'. EnterNS h ns w = (Inr (), w')"
    and add_ok: "well w \<Longrightarrow> acceptable l \<Longrightarrow> LKind l \<in> {Bridge, Dummy} \<Longrightarrow> links w (ns, LName l) = None \<Longrightarrow>
      \<exists>l' w'. LinkAdd h ns l None w = (Inr l', w')"
    and add_veth_ok: "well w \<Longrightarrow> acceptable l \<Longrightarrow> LKind l = Veth p \<Longrightarrow> links w (ns, LName l) = None \<Longrightarrow>
      links w (ns, p) = None \<Longrightarrow> \<exists>l' w'. LinkAdd h ns l None w = (Inr l', w')"
    and add_macvtap_ok: "well w \<Longrightarrow> acceptable l \<Longrightarrow> LKind l = Macvtap md \<Longrightarrow> links w (ns, LName l) = None \<Longrightarrow>
      links w (ns, m) = Some i \<Longrightarrow> LIndex (IfLink i) = LParentIndex l \<Longrightarrow> \<not> busy w ns (LParentIndex l) md \<Longrightarrow>
      \<exists>l' w'. LinkAdd h ns l None w = (Inr l', w')"
    and add_vxlan_ok: "well w \<Longrightarrow> acceptable l \<Longrightarrow> LKind l = Vxlan vx \<Longrightarrow> links w (ns', LName l) = None \<Longrightarrow>
      links w (ns, m) = Some i \<Longrightarrow> LIndex (IfLink i) = VtepDevIndex vx \<Longrightarrow>
      \<exists>r w'. LinkAdd h ns l (Some ns') w = (r, w') \<and> (\<forall>e. r = Inl e \<longrightarrow> is_EEXIST e)"
    and up_ok: "well w \<Longrightarrow> links w (ns, LName l) = Some i \<Longrightarrow> LIndex (IfLink i) = LIndex l \<Longrightarrow>
      \<forall>vx. LKind (IfLink i) \<noteq> Vxlan vx \<Longrightarrow> \<exists>w'. LinkSetUp h ns l w = (Inr (), w')"
    and master_ok: "well w \<Longrightarrow> links w (ns, LName l) = Some i \<Longrightarrow> LIndex (IfLink i) = LIndex l \<Longrightarrow>
      LKind (IfLink i) = Veth p \<Longrightarrow> bridge_at (links w) ns (LName b) (LIndex b) \<Longrightarrow>
      \<exists>w'. LinkSetMaster h ns l b w = (Inr (), w')"
    and mask_ok: "well w \<Longrightarrow> links w (ns, LName l) = Some i \<Longrightarrow> LIndex (IfLink i) = LIndex l \<Longrightarrow>
      IfMaster i = Some bidx \<Longrightarrow> \<exists>w'. LinkSetFwdMask h ns l BRSlaveGrpFwdMask w = (Inr (), w')"
    and set_ns_ok: "well w \<Longrightarrow> links w (ns, LName l) = Some i \<Longrightarrow> LIndex (IfLink i) = LIndex l \<Longrightarrow>
      LKind (IfLink i) = Veth p \<Longrightarrow> links w (HostNS, LName l) = None \<Longrightarrow>
      \<exists>w'. LinkSetNsFd h ns l HostNS w = (Inr (), w')"
    and del_ok: "well w \<Longrightarrow> links w (ns, LName l) = Some i \<Longrightarrow> LIndex (IfLink i) = LIndex l \<Longrightarrow>
      removable (LKind (IfLink i)) \<Longrightarrow> \<exists>w'. LinkDel h ns l w = (Inr (), w')"
    and del_pair: "LinkDel h ns l w = (Inr (), w') \<Longrightarrow> links w (ns, LName l) = Some i \<Longrightarrow>
      LIndex (IfLink i) = LIndex l \<Longrightarrow> LKind (IfLink i) = Veth p \<Longrightarrow> other_end (view (links w)) (LName l) p k \<Longrightarrow>
      links w' k = None"
    and calm_by_name: "calmer well busy w (snd (LinkByName h ns n w))"
    and calm_enter: "calmer well busy w (snd (EnterNS h ns w))"
    and calm_up: "calmer well busy w (snd (LinkSetUp h ns l w))"
    and calm_master: "calmer well busy w (snd (LinkSetMaster h ns l b w))"
    and calm_mask: "calmer well busy w (snd (LinkSetFwdMask h ns l fwd w))"
    and calm_del: "calmer well busy w (snd (LinkDel h ns l w))"
    and calm_add: "(\<forall>md. LKind l \<noteq> Macvtap md) \<Longrightarrow> calmer well busy w (snd (LinkAdd h ns l t w))"
    and well_add: "well w \<Longrightarrow> well (snd (LinkAdd h ns l t w))"
    and well_set_ns: "well w \<Longrightarrow> well (snd (LinkSetNsFd h ns l ns' w))"
    and new_free: "LinkAdd h ns l None w = (Inr l', w') \<Longrightarrow> \<not> busy w' ns (LIndex l') md"
    and moved_free: "LinkSetNsFd h ns l ns' w = (Inr (), w') \<Longrightarrow> \<not> busy w ns (LIndex l) md \<Longrightarrow>
      links w' (ns', LName l) = Some i \<Longrightarrow> \<not> busy w' ns' (LIndex (IfLink i)) md"
    and moved_other: "LinkSetNsFd h ns l ns' w = (Inr (), w') \<Longrightarrow> \<not> busy w ns (LIndex l) md \<Longrightarrow>
      busy w' ns2 idx md \<Longrightarrow> busy w ns2 idx md"
begin

subsection \<open>Single calls\<close>

text \<open>The table is \<open>L\<close>, and the links in \<open>F\<close> are free for macvtaps of these modes.\<close>

definition state :: "'w \<Rightarrow> table \<Rightarrow> (netns \<times> int \<times> MacvlanMode) set \<Rightarrow> bool" where
  "state w L F \<longleftrightarrow> well w \<and> links w = L \<and> (\<forall>ns idx md. (ns, idx, md) \<in> F \<longrightarrow> \<not> busy w ns idx md)"

lemma stateI [intro]: "calmer well busy w w' \<Longrightarrow> state w L F \<Longrightarrow> links w' = L' \<Longrightarrow> state w' L' F"
  unfolding state_def calmer_def by blast

lemma state_less: "state w L (F \<union> G) \<Longrightarrow> state w L F"
  by (auto simp: state_def)

lemma state_calm:
  assumes "calmer well busy w (snd (m w))" and "state w L F" and "m w = (r, w')" and "links w' = L'"
  shows "state w' L' F"
  using stateI [of w w' L F L'] assms by simp

lemma give_find:
  assumes s: "state w L F" and i: "L (ns, n) = Some i" "readable (LKind (IfLink i))"
    and Q: "\<And>w'. state w' L F \<Longrightarrow> LName (IfLink i) = n \<Longrightarrow> Q (IfLink i) w'"
  shows "gives (LinkByName h ns n) w Q"
proof -
  from s i find_ok [of w ns n i] obtain l w' where call: "LinkByName h ns n w = (Inr l, w')"
    by (auto simp: state_def)
  from by_name [OF call] s i have l: "links w' = L" "l = IfLink i" "LName l = n" by (auto simp: state_def)
  with state_calm [of w "LinkByName h ns n", OF calm_by_name s call] call Q show ?thesis
    by (auto simp: gives_def)
qed

lemma find_missing:
  assumes "state w L F" and "L (ns, n) = None"
  shows "\<exists>w'. LinkByName h ns n w = (Inl LinkNotFound, w') \<and> state w' L F"
proof -
  from assms miss_ok [of w ns n] obtain w' where call: "LinkByName h ns n w = (Inl LinkNotFound, w')"
    by (auto simp: state_def)
  from by_name_err [OF call] assms(1) have "links w' = L" by (simp add: state_def)
  with state_calm [of w "LinkByName h ns n", OF calm_by_name assms(1) call] call show ?thesis by blast
qed

lemma give_enter:
  assumes s: "state w L F" and Q: "\<And>w'. state w' L F \<Longrightarrow> Q () w'"
  shows "gives (EnterNS h ns) w Q"
proof -
  from s enter_ok [of w ns] obtain w' where call: "EnterNS h ns w = (Inr (), w')" by (auto simp: state_def)
  from enter [of ns w] call s have "links w' = L" by (simp add: state_def)
  with state_calm [of w "EnterNS h ns", OF calm_enter s call] call Q show ?thesis by (auto simp: gives_def)
qed

lemma give_up:
  assumes s: "state w L F" and i: "L (ns, LName l) = Some i" "LIndex (IfLink i) = LIndex l"
    and kind: "\<forall>vx. LKind (IfLink i) \<noteq> Vxlan vx"
    and Q: "\<And>w'. state w' (L((ns, LName l) \<mapsto> i\<lparr>IfUp := True\<rparr>)) F \<Longrightarrow> Q () w'"
  shows "gives (LinkSetUp h ns l) w Q"
proof -
  from s i kind up_ok [of w ns l i] obtain w' where call: "LinkSetUp h ns l w = (Inr (), w')" by (auto simp: state_def)
  from set_up [OF call] i s have "links w' = L((ns, LName l) \<mapsto> i\<lparr>IfUp := True\<rparr>)" by (simp add: state_def)
  with state_calm [of w "LinkSetUp h ns l", OF calm_up s call] call Q show ?thesis by (auto simp: gives_def)
qed

lemma give_master:
  assumes s: "state w L F" and i: "L (ns, LName l) = Some i" "LIndex (IfLink i) = LIndex l"
    and kind: "LKind (IfLink i) = Veth p" "bridge_at L ns (LName b) (LIndex b)"
    and Q: "\<And>w'. state w' (L((ns, LName l) \<mapsto> i\<lparr>IfMaster := Some (LIndex b)\<rparr>)) F \<Longrightarrow> Q () w'"
  shows "gives (LinkSetMaster h ns l b) w Q"
proof -
  from s i kind master_ok [of w ns l i p b] obtain w' where call: "LinkSetMaster h ns l b w = (Inr (), w')"
    by (auto simp: state_def)
  from set_master [OF call] i s have "links w' = L((ns, LName l) \<mapsto> i\<lparr>IfMaster := Some (LIndex b)\<rparr>)"
    by (simp add: state_def)
  with state_calm [of w "LinkSetMaster h ns l b", OF calm_master s call] call Q show ?thesis by (auto simp: gives_def)
qed

lemma give_mask:
  assumes s: "state w L F" and i: "L (ns, LName l) = Some i" "LIndex (IfLink i) = LIndex l" "IfMaster i = Some bidx"
    and Q: "\<And>w'. state w' (L((ns, LName l) \<mapsto> i\<lparr>IfMask := BRSlaveGrpFwdMask\<rparr>)) F \<Longrightarrow> Q () w'"
  shows "gives (LinkSetFwdMask h ns l BRSlaveGrpFwdMask) w Q"
proof -
  from s i mask_ok [of w ns l i bidx] obtain w' where call: "LinkSetFwdMask h ns l BRSlaveGrpFwdMask w = (Inr (), w')"
    by (auto simp: state_def)
  from set_mask [OF call] i s have "links w' = L((ns, LName l) \<mapsto> i\<lparr>IfMask := BRSlaveGrpFwdMask\<rparr>)"
    by (simp add: state_def)
  with state_calm [of w "LinkSetFwdMask h ns l BRSlaveGrpFwdMask", OF calm_mask s call] call Q show ?thesis
    by (auto simp: gives_def)
qed

text \<open>A new link is free for macvtaps.\<close>

definition free_on :: "netns \<Rightarrow> int \<Rightarrow> (netns \<times> int \<times> MacvlanMode) set" where
  "free_on ns idx = {ns} \<times> {idx} \<times> UNIV"

lemma state_new:
  assumes "LinkAdd h ns l None w = (Inr l', w')" and "state w' L F"
  shows "state w' L (F \<union> free_on ns (LIndex l'))"
  using assms new_free [OF assms(1)] by (auto simp: state_def free_on_def)

lemma give_add:
  assumes s: "state w L F" and l: "acceptable l" "LKind l \<in> {Bridge, Dummy}" and free: "L (ns, LName l) = None"
    and Q: "\<And>l' i w'. LName l' = LName l \<Longrightarrow> LKind l' = LKind l \<Longrightarrow> fresh_iface l' i \<Longrightarrow>
      state w' (L((ns, LName l) \<mapsto> i)) (F \<union> free_on ns (LIndex l')) \<Longrightarrow> Q l' w'"
  shows "gives (LinkAdd h ns l None) w Q"
proof -
  from s l free add_ok [of w l ns] obtain l' w' where call: "LinkAdd h ns l None w = (Inr l', w')"
    by (auto simp: state_def)
  from l(2) have kind: "\<forall>p. LKind l \<noteq> Veth p" "\<forall>md. LKind l \<noteq> Macvtap md" by auto
  from add [OF call kind(1)] s obtain idx i where i: "l' = l\<lparr>LIndex := idx\<rparr>" "fresh_iface l' i"
    "links w' = L((ns, LName l) \<mapsto> i)" by (auto simp: state_def)
  from state_calm [of w "LinkAdd h ns l None", OF calm_add [OF kind(2)] s call i(3)]
  have "state w' (L((ns, LName l) \<mapsto> i)) (F \<union> free_on ns (LIndex l'))" by (rule state_new [OF call])
  with i(1,2) call Q show ?thesis by (auto simp: gives_def)
qed

lemma give_add_veth:
  assumes s: "state w L F" and l: "acceptable l" "LKind l = Veth p"
    and free: "L (ns, LName l) = None" "L (ns, p) = None"
    and Q: "\<And>l' i j w'. LName l' = LName l \<Longrightarrow> LKind l' = Veth p \<Longrightarrow> fresh_iface l' i \<Longrightarrow> LName (IfLink j) = p \<Longrightarrow>
      LKind (IfLink j) = Veth (LName l) \<Longrightarrow>
      state w' (L((ns, LName l) \<mapsto> i, (ns, p) \<mapsto> j)) (F \<union> free_on ns (LIndex l')) \<Longrightarrow> Q l' w'"
  shows "gives (LinkAdd h ns l None) w Q"
proof -
  from s l free add_veth_ok [of w l p ns] obtain l' w' where call: "LinkAdd h ns l None w = (Inr l', w')"
    by (auto simp: state_def)
  from l(2) have kind: "\<forall>md. LKind l \<noteq> Macvtap md" by auto
  from add_veth [OF call l(2)] s obtain idx i j where i: "l' = l\<lparr>LIndex := idx\<rparr>" "fresh_iface l' i"
    "LName (IfLink j) = p" "LKind (IfLink j) = Veth (LName l)" "links w' = L((ns, LName l) \<mapsto> i, (ns, p) \<mapsto> j)"
    by (auto simp: state_def)
  from state_calm [of w "LinkAdd h ns l None", OF calm_add [OF kind] s call i(5)]
  have "state w' (L((ns, LName l) \<mapsto> i, (ns, p) \<mapsto> j)) (F \<union> free_on ns (LIndex l'))" by (rule state_new [OF call])
  with i(1-4) call Q l(2) show ?thesis by (auto simp: gives_def)
qed

lemma give_add_macvtap:
  assumes s: "state w L F" and l: "acceptable l" "LKind l = Macvtap md" and free: "L (ns, LName l) = None"
    and lower: "L (ns, m) = Some k" "LIndex (IfLink k) = LParentIndex l" "(ns, LParentIndex l, md) \<in> F"
    and Q: "\<And>l' i w'. LName l' = LName l \<Longrightarrow> LKind l' = Macvtap md \<Longrightarrow> fresh_iface l' i \<Longrightarrow>
      state w' (L((ns, LName l) \<mapsto> i)) {} \<Longrightarrow> Q l' w'"
  shows "gives (LinkAdd h ns l None) w Q"
proof -
  from s l free lower add_macvtap_ok [of w l md ns m k] obtain l' w' where call: "LinkAdd h ns l None w = (Inr l', w')"
    unfolding state_def by blast
  from l(2) have kind: "\<forall>p. LKind l \<noteq> Veth p" by auto
  from add [OF call kind] s obtain idx i where i: "l' = l\<lparr>LIndex := idx\<rparr>" "fresh_iface l' i"
    "links w' = L((ns, LName l) \<mapsto> i)" by (auto simp: state_def)
  from well_add [of w ns l None] call s i(3) have "state w' (L((ns, LName l) \<mapsto> i)) {}" by (simp add: state_def)
  with i(1,2) call Q l(2) show ?thesis by (auto simp: gives_def)
qed

text \<open>The spoke moves to the host namespace and stays free for macvtaps.\<close>

lemma give_set_ns:
  assumes s: "state w L F" and ns: "ns \<noteq> HostNS" and i: "L (ns, LName l) = Some i" "LIndex (IfLink i) = LIndex l"
    and kind: "LKind (IfLink i) = Veth p" and free: "L (HostNS, LName l) = None" "free_on ns (LIndex l) \<subseteq> F"
    and Q: "\<And>j w'. LKind (IfLink j) = Veth p \<Longrightarrow>
      state w' (L((ns, LName l) := None, (HostNS, LName l) \<mapsto> j)) (F \<union> free_on HostNS (LIndex (IfLink j))) \<Longrightarrow> Q () w'"
  shows "gives (LinkSetNsFd h ns l HostNS) w Q"
proof -
  from s i kind free set_ns_ok [of w ns l i p] obtain w' where call: "LinkSetNsFd h ns l HostNS w = (Inr (), w')"
    by (auto simp: state_def)
  from set_ns [OF call ns] i s obtain idx where L': "links w' = L((ns, LName l) := None,
      (HostNS, LName l) \<mapsto> i\<lparr>IfLink := (IfLink i)\<lparr>LIndex := idx\<rparr>, IfUp := False, IfMaster := None\<rparr>)"
    by (auto simp: state_def)
  let ?j = "i\<lparr>IfLink := (IfLink i)\<lparr>LIndex := idx\<rparr>, IfUp := False, IfMaster := None\<rparr>"
  have nb: "\<not> busy w ns (LIndex l) md" for md
    using s free(2) by (auto simp: state_def free_on_def)
  have "\<not> busy w' HostNS (LIndex (IfLink ?j)) md" for md
    by (rule moved_free [OF call nb]) (simp add: L')
  moreover have "busy w m k md" if "busy w' m k md" for m k md
    using moved_other [OF call nb that] .
  moreover have "well w'"
    using well_set_ns [of w ns l HostNS] call s by (simp add: state_def)
  ultimately have "state w' (links w') (F \<union> free_on HostNS (LIndex (IfLink ?j)))"
    using s unfolding state_def free_on_def by blast
  with call Q [of ?j w'] kind L' show ?thesis by (auto simp: gives_def)
qed

text \<open>A VxLAN link is added, or one of its identifier exists elsewhere.\<close>

lemma vxlan_added:
  assumes s: "state w L F" and l: "acceptable l" "LKind l = Vxlan vx" and free: "L (ns', LName l) = None"
    and dev: "L (ns, m) = Some k" "LIndex (IfLink k) = VtepDevIndex vx"
  shows "\<exists>r w' L'. LinkAdd h ns l (Some ns') w = (r, w') \<and> (\<forall>e. r = Inl e \<longrightarrow> is_EEXIST e) \<and>
    state w' L' F \<and> (\<forall>k. k \<noteq> (ns', LName l) \<longrightarrow> L' k = L k)"
proof -
  from s l free dev add_vxlan_ok [of w l vx ns' ns m k] obtain r w' where
    call: "LinkAdd h ns l (Some ns') w = (r, w')" "\<forall>e. r = Inl e \<longrightarrow> is_EEXIST e"
    unfolding state_def by blast
  from l(2) have kind: "\<forall>p. LKind l \<noteq> Veth p" "\<forall>md. LKind l \<noteq> Macvtap md" by auto
  have "\<exists>L'. links w' = L' \<and> (\<forall>k. k \<noteq> (ns', LName l) \<longrightarrow> L' k = L k)"
    using call(1) s add_err [of ns l "Some ns'" w _ w'] add_into [OF _ kind(1), of ns ns' w _ w']
    by (cases r) (fastforce simp: state_def)+
  with call state_calm [of w "LinkAdd h ns l (Some ns')", OF calm_add [OF kind(2)] s call(1)]
  show ?thesis by blast
qed

subsection \<open>Deleting by name\<close>

text \<open>
  What is left of a table: the link of that name is gone, nothing appears, what does not depend
  on it stays, and the other end of a veth pair goes with it.
\<close>

definition removal :: "table \<Rightarrow> netns \<Rightarrow> string \<Rightarrow> table \<Rightarrow> bool" where
  "removal L ns n L' \<longleftrightarrow> L' (ns, n) = None \<and>
     (\<forall>k i'. L' k = Some i' \<longrightarrow> (\<exists>i. L k = Some i \<and> same_link i i')) \<and>
     (\<forall>k i. L k = Some i \<and> k \<noteq> (ns, n) \<and> (\<forall>d. L (ns, n) = Some d \<longrightarrow> \<not> cascades d i) \<longrightarrow>
        (\<exists>i'. L' k = Some i' \<and> same_link i i')) \<and>
     (\<forall>d p k. L (ns, n) = Some d \<and> LKind (IfLink d) = Veth p \<and> other_end (view L) n p k \<longrightarrow> L' k = None)"

lemma give_delete:
  assumes s: "state w L F" and r: "\<And>i. L (ns, n) = Some i \<Longrightarrow> removable (LKind (IfLink i))"
    and Q: "\<And>L' w'. state w' L' F \<Longrightarrow> removal L ns n L' \<Longrightarrow> Q () w'"
  shows "gives (LinkDelete h ns n) w Q"
proof (cases "L (ns, n)")
  case None
  from find_missing [OF s None] obtain w' where "LinkByName h ns n w = (Inl LinkNotFound, w')" "state w' L F" by blast
  moreover have "removal L ns n L" using None by (auto simp: removal_def)
  ultimately show ?thesis
    unfolding LinkDelete_def by (intro gives_branch_err) (auto intro: Q)
next
  case (Some d)
  note rem = r [OF Some]
  have found: "gives (LinkDel h ns (IfLink d)) w1 Q" if s1: "state w1 L F" and n: "LName (IfLink d) = n" for w1
  proof -
    from s1 Some n rem del_ok [of w1 ns "IfLink d" d] obtain w' where call: "LinkDel h ns (IfLink d) w1 = (Inr (), w')"
      by (auto simp: state_def)
    from del [OF call, of d] Some n s1 have del': "deleted L (ns, n) d (links w')" by (simp add: state_def)
    have "links w' k = None" if "LKind (IfLink d) = Veth p" "other_end (view L) n p k" for p k
      using del_pair [OF call, of d p k] that Some n s1 by (simp add: state_def)
    with del' Some have "removal L ns n (links w')"
      unfolding removal_def by (auto dest: deleted_gone deleted_survivor deleted_frame)
    with state_calm [of w1 "LinkDel h ns (IfLink d)", OF calm_del s1 call refl] call Q show ?thesis by (auto simp: gives_def)
  qed
  show ?thesis
    unfolding LinkDelete_def
  proof (rule gives_branch, rule give_find [OF s Some])
    show "readable (LKind (IfLink d))" using rem by (simp add: removable_def)
    fix w1 assume "state w1 L F" "LName (IfLink d) = n"
    from found [OF this] show "gives (calling (LinkDel h ns (IfLink d)) (\<lambda>e. e) give) w1 Q" by simp
  qed
qed

lemma removal_gone: "removal L ns n L' \<Longrightarrow> L' (ns, n) = None"
  by (simp add: removal_def)

lemma removal_survivor: "removal L ns n L' \<Longrightarrow> L' k = Some i' \<Longrightarrow> \<exists>i. L k = Some i \<and> same_link i i'"
  unfolding removal_def by blast

lemma removal_none: "removal L ns n L' \<Longrightarrow> L k = None \<Longrightarrow> L' k = None"
  using removal_survivor by (cases "L' k") fastforce+

lemma removal_keeps:
  assumes "removal L ns n L'" and "L k = Some i" and "k \<noteq> (ns, n)" and "\<And>d. L (ns, n) = Some d \<Longrightarrow> \<not> cascades d i"
  shows "\<exists>i'. L' k = Some i' \<and> IfLink i' = IfLink i"
  using assms unfolding removal_def same_link_def by metis

lemma removal_pair:
  "removal L ns n L' \<Longrightarrow> L (ns, n) = Some d \<Longrightarrow> LKind (IfLink d) = Veth p \<Longrightarrow> other_end (view L) n p k \<Longrightarrow> L' k = None"
  unfolding removal_def by blast

subsection \<open>The stretches of \<open>Ensure\<close>\<close>

lemma give_lo_up:
  assumes s: "state w L F" and lo: "L (ns, ''lo'') = Some i" "readable (LKind (IfLink i))"
    "\<forall>vx. LKind (IfLink i) \<noteq> Vxlan vx"
    and Q: "\<And>w'. state w' (L((ns, ''lo'') \<mapsto> i\<lparr>IfUp := True\<rparr>)) F \<Longrightarrow> Q () w'"
  shows "gives (lo_up h ns) w Q"
  unfolding lo_up_def gives_running gives_do_in gives_calling
proof (rule give_enter [OF s], rule give_find [where L = L and F = F and ns = ns and n = "''lo''" and i = i], assumption, rule lo(1), rule lo(2))
  fix w1 assume "state w1 L F" "LName (IfLink i) = ''lo''"
  then show "gives (LinkSetUp h ns (IfLink i)) w1 (\<lambda>x w'. gives (give x) w' (\<lambda>x w'. gives (give x) w' Q))"
    using lo by (intro give_up [where L = L and F = F and i = i]) (auto intro: Q)
qed

text \<open>The bridge, found or made; no other link changes.\<close>

lemma give_bridge:
  assumes s: "state w L F" and name: "BridgeName lan = Some n"
    and there: "\<And>i. L (ns, n) = Some i \<Longrightarrow> LKind (IfLink i) = Bridge" and fits: "acceptable (bridge_link n mtu)"
    and Q: "\<And>L' b w'. state w' L' F \<Longrightarrow> LName b = n \<Longrightarrow> bridge_at L' ns n (LIndex b) \<Longrightarrow>
      (\<And>k. k \<noteq> (ns, n) \<Longrightarrow> L' k = L k) \<Longrightarrow> Q (Some b) w'"
  shows "gives (ensure_bridge h ns lan mtu) w Q"
proof (cases "L (ns, n)")
  case (Some i)
  note kind = there [OF Some]
  have "Q (Some (IfLink i)) w'" if "state w' L F" "LName (IfLink i) = n" for w'
    using that Some kind by (intro Q) (auto simp: bridge_at_def)
  with kind show ?thesis
    unfolding ensure_bridge_def name deref_simps evaluating_Inr
    by (intro gives_branch give_find [OF s Some]) auto
next
  case None
  from find_missing [OF s None] obtain w1 where miss: "LinkByName h ns n w = (Inl LinkNotFound, w1)" and s1: "state w1 L F"
    by blast
  have made: "gives (LinkSetUp h ns l) w2 (\<lambda>_ w'. gives (branch (LinkByName h ns n) (\<lambda>_. give None)
      (\<lambda>br'. give (Some br'))) w' Q)"
    if l: "LName l = n" "LKind l = Bridge" "fresh_iface l i" and s2: "state w2 (L((ns, n) \<mapsto> i)) F" for l i w2
  proof (rule give_up [OF s2])
    let ?i = "i\<lparr>IfUp := True\<rparr>"
    from l have i: "LIndex (IfLink i) = LIndex l" "LKind (IfLink i) = Bridge" by (auto simp: fresh_iface_def)
    then show "LIndex (IfLink i) = LIndex l" "\<forall>vx. LKind (IfLink i) \<noteq> Vxlan vx" by auto
    show "(L((ns, n) \<mapsto> i)) (ns, LName l) = Some i" using l by simp
    fix w' assume s': "state w' ((L((ns, n) \<mapsto> i))((ns, LName l) \<mapsto> ?i)) F"
    have "gives (give (Some (IfLink ?i))) w3 Q" if "state w3 (L((ns, n) \<mapsto> ?i)) F" "LName (IfLink ?i) = n" for w3
      using Q [OF that] i by (simp add: bridge_at_def)
    with s' l i show "gives (branch (LinkByName h ns n) (\<lambda>_. give None) (\<lambda>br'. give (Some br'))) w' Q"
      by (intro gives_branch give_find [where L = "L((ns, n) \<mapsto> ?i)" and F = F and i = ?i]) auto
  qed
  show ?thesis
    unfolding ensure_bridge_def name deref_simps evaluating_Inr Let_def bridge_link_def [symmetric]
  proof (rule gives_branch_err, rule miss, unfold gives_calling, rule give_add [OF s1 fits])
    show "LKind (bridge_link n mtu) \<in> {Bridge, Dummy}" "L (ns, LName (bridge_link n mtu)) = None"
      using None by (simp_all add: bridge_link_def)
  next
    fix l' i w2
    assume "LName l' = LName (bridge_link n mtu)" "LKind l' = LKind (bridge_link n mtu)" "fresh_iface l' i"
      and s2: "state w2 (L((ns, LName (bridge_link n mtu)) \<mapsto> i)) (F \<union> free_on ns (LIndex l'))"
    with made [of l' i w2] state_less [OF s2] show "gives (LinkSetUp h ns l') w2 (\<lambda>_ w'.
        gives (branch (LinkByName h ns n) (\<lambda>_. give None) (\<lambda>br'. give (Some br'))) w' Q)"
      by (simp add: bridge_link_def)
  qed
qed

text \<open>The comparison of the VxLAN link, and its removal.\<close>

lemma give_check_vxlan:
  assumes s: "state w L F" and spec: "valid_spec lan" "VxPort lan = Some port" "VxLANName lan = Some v"
    and kind: "\<And>i. L (ns, v) = Some i \<Longrightarrow> \<exists>vx. LKind (IfLink i) = Vxlan vx \<and> length (Group vx) \<in> {4, 16}"
    and Q: "\<And>x w'. state w' L F \<Longrightarrow> (\<not> x \<Longrightarrow> L (ns, v) \<noteq> None) \<Longrightarrow> Q x w'"
  shows "gives (check_vxlan h ns lan idx) w Q"
proof -
  from spec(1) obtain g grp vni where g: "VxLANGrp lan = Some g" "ParseAddr g = Inr grp" "VNI lan = Some vni"
    by (auto simp: valid_spec_def)
  have start: "check_vxlan h ns lan idx = branch (LinkByName h ns v) (\<lambda>_. give True) (\<lambda>l. case LKind l of
      Vxlan vx \<Rightarrow> evaluating (vxlan_differs lan grp idx vx) give | _ \<Rightarrow> raise (Error (NotAVxlan v)))"
    by (simp add: check_vxlan_def g spec(3) MustParseAddr_def)
  show ?thesis
  proof (cases "L (ns, v)")
    case None
    from find_missing [OF s None] obtain w1 where "LinkByName h ns v w = (Inl LinkNotFound, w1)" "state w1 L F" by blast
    then show ?thesis
      unfolding start by (intro gives_branch_err) (auto intro: Q)
  next
    case (Some i)
    from kind [OF Some] obtain vx where vx: "LKind (IfLink i) = Vxlan vx" "length (Group vx) \<in> {4, 16}" by blast
    from group_text_parses [OF vx(2)] obtain a where a: "ParseAddr (IP_String (Group vx)) = Inr a" by blast
    have "\<exists>x. vxlan_differs lan grp idx vx = Inr x"
      by (simp add: vxlan_differs_def MustParseAddr_def a g(3) spec(2))
    then obtain x where x: "vxlan_differs lan grp idx vx = Inr x" ..
    have "Q x w'" if "state w' L F" for w'
      using that Some by (intro Q) auto
    with vx x show ?thesis
      unfolding start by (intro gives_branch give_find [where L = L and F = F and i = i, OF s Some]) auto
  qed
qed

lemma give_drop_vxlan:
  assumes s: "state w L F" and v: "VxLANName lan = Some v"
    and kind: "\<And>i. L (ns, v) = Some i \<Longrightarrow> \<exists>vx. LKind (IfLink i) = Vxlan vx \<and> length (Group vx) \<in> {4, 16}"
    and Q: "\<And>L' w'. state w' L' F \<Longrightarrow> (if x then removal L ns v L' else L' = L) \<Longrightarrow> Q x w'"
  shows "gives (drop_vxlan h ns lan x) w Q"
proof (cases x)
  case True
  have "gives (LinkDelete h ns v) w (\<lambda>_ w'. gives (give True) w' Q)"
  proof (rule give_delete [OF s])
    show "removable (LKind (IfLink i))" if "L (ns, v) = Some i" for i
      using kind [OF that] by (auto simp: removable_def)
  qed (use Q True in auto)
  with True show ?thesis
    unfolding drop_vxlan_def v deref_simps evaluating_Inr by (auto intro: gives_ignoring)
qed (use Q [OF s] in \<open>simp add: drop_vxlan_def\<close>)

lemma spoke_room_cleared:
  assumes "spoke_room (view L) ns t" and "removal L ns (getPeerVethName t) L1"
  shows "L1 (ns, t) = None" and "L1 (ns, getPeerVethName t) = None" and "L1 (HostNS, t) = None"
  using assms(1) removal_none [OF assms(2)] removal_gone [OF assms(2)] removal_pair [OF assms(2)]
  by (auto simp: spoke_room_def)

lemma spoke_room_other:
  assumes "spoke_room V ns t" and "\<And>k. k \<noteq> (ns, b) \<Longrightarrow> V' k = V k" and "b \<noteq> t" and "b \<noteq> getPeerVethName t"
  shows "spoke_room V' ns t"
proof -
  have eq: "V' (ns, t) = V (ns, t)" "V' (ns, getPeerVethName t) = V (ns, getPeerVethName t)" "V' (HostNS, t) = V (HostNS, t)"
    using assms(2-4) by auto
  have "other_end V' (getPeerVethName t) t k \<longleftrightarrow> other_end V (getPeerVethName t) t k" for k
    unfolding other_end_def using assms(2,3) by (metis snd_conv)
  with assms(1) show ?thesis unfolding spoke_room_def eq by simp
qed

lemma spoke_room_removal:
  assumes "spoke_room (view L) ns t" and rem: "removal L ns v L'" and "v \<noteq> t" and "v \<noteq> getPeerVethName t"
    and named: "\<And>d. L (ns, v) = Some d \<Longrightarrow> LName (IfLink d) = v"
  shows "spoke_room (view L') ns t"
proof -
  let ?p = "getPeerVethName t"
  have old: "\<exists>i. L k = Some i \<and> IfLink i = IfLink i'" if "L' k = Some i'" for k i'
    using removal_survivor [OF rem that] by (auto simp: same_link_def)
  have kept: "\<exists>i'. L' k = Some i' \<and> IfLink i' = IfLink i"
    if "L k = Some i" "k \<noteq> (ns, v)" "LKind (IfLink i) = Veth q" "q \<noteq> v" for k i q
    using removal_keeps [OF rem that(1,2)] named that(3,4) by (auto simp: cascades_def)
  have free: "L' (ns, t) = None" using assms(1) removal_none [OF rem] by (auto simp: spoke_room_def)
  have peer: "removable (LKind (IfLink i'))" if "L' (ns, ?p) = Some i'" for i'
    using old [OF that] assms(1) by (auto simp: spoke_room_def)
  show ?thesis
  proof (cases "L (HostNS, t)")
    case None
    with removal_none [OF rem None] free peer show ?thesis by (auto simp: spoke_room_def)
  next
    case (Some i)
    with assms(1) obtain j where j: "L (ns, ?p) = Some j" "LKind (IfLink j) = Veth t"
      and other: "other_end (view L) ?p t (HostNS, t)" by (auto simp: spoke_room_def)
    from other have "\<exists>l. view L (HostNS, t) = Some l \<and> snd (HostNS, t) = t \<and> LKind l = Veth ?p"
      unfolding other_end_def by blast
    with Some have i: "LKind (IfLink i) = Veth ?p" by simp
    from kept [OF j(1) _ j(2)] assms(3,4) obtain j' where j': "L' (ns, ?p) = Some j'" "IfLink j' = IfLink j" by auto
    from kept [OF Some _ i] assms(3,4) obtain i' where i': "L' (HostNS, t) = Some i'" "IfLink i' = IfLink i" by auto
    have "other_end (view L') ?p t (HostNS, t)"
      unfolding other_end_def
    proof (intro conjI allI iffI)
      fix k assume "\<exists>l. view L' k = Some l \<and> snd k = t \<and> LKind l = Veth ?p"
      then have "\<exists>l. view L k = Some l \<and> snd k = t \<and> LKind l = Veth ?p" using old by fastforce
      with other show "k = (HostNS, t)" unfolding other_end_def by blast
    qed (use i i' in auto)
    with free peer j j' show ?thesis by (auto simp: spoke_room_def)
  qed
qed

lemma apart_cong: "(\<And>n. n \<in> N \<Longrightarrow> V' (ns, n) = V (ns, n)) \<Longrightarrow> apart V' ns N l = apart V ns N l"
  by (simp add: apart_def)

lemma apart_cascades: "apart (view L) ns N (IfLink i) \<Longrightarrow> n \<in> N \<Longrightarrow> L (ns, n) = Some d \<Longrightarrow> \<not> cascades d i"
  by (auto simp: apart_def cascades_def)

lemma apart_kept:
  assumes "removal L ns n L'" and "apart (view L) ns N (IfLink i)" and "n \<in> N" and "L k = Some i" and "k \<noteq> (ns, n)"
  shows "\<exists>i'. L' k = Some i' \<and> IfLink i' = IfLink i \<and> apart (view L') ns N (IfLink i')"
proof -
  from removal_keeps [OF assms(1,4,5)] apart_cascades [OF assms(2,3)]
  obtain i' where i': "L' k = Some i'" "IfLink i' = IfLink i" by blast
  have "apart (view L') ns N (IfLink i)"
    using assms(2) removal_survivor [OF assms(1)] unfolding apart_def same_link_def by fastforce
  with i' show ?thesis by auto
qed

text \<open>The names of a LAN and of a spoke, taken together.\<close>

lemma state_keyed: "state w L F \<Longrightarrow> L (ns, n) = Some i \<Longrightarrow> LName (IfLink i) = n"
  using keyed by (auto simp: state_def)

lemma give_spoke:
  assumes s: "state w L F" and ns: "ns \<noteq> HostNS" and room: "spoke_room (view L) ns t"
    and br: "bridge_at L ns (LName b) (LIndex b)" "LName b \<noteq> getPeerVethName t" "LName b \<noteq> t"
    and fits: "acceptable (spoke_link t mtu (LIndex b))"
    and Q: "\<And>L1 i j w'. removal L ns (getPeerVethName t) L1 \<Longrightarrow> LKind (IfLink i) = Veth (getPeerVethName t) \<Longrightarrow>
      state w' (L1((ns, getPeerVethName t) \<mapsto> j, (HostNS, t) \<mapsto> i)) (F \<union> free_on HostNS (LIndex (IfLink i))) \<Longrightarrow> Q () w'"
  shows "gives (make_spoke h ns (Some b) t mtu) w Q"
proof -
  let ?p = "getPeerVethName t"
  have rest: "gives (LinkSetUp h ns l) w2 (\<lambda>_. \<lambda>w. gives (LinkByName h ns ?p) w (\<lambda>p w.
      gives (LinkSetMaster h ns p b) w (\<lambda>_ w. gives (LinkSetFwdMask h ns p BRSlaveGrpFwdMask) w (\<lambda>_ w.
      gives (LinkSetUp h ns p) w (\<lambda>_ w. gives (LinkSetNsFd h ns l HostNS) w (\<lambda>x w. gives (give x) w Q))))))"
    if L1: "removal L ns ?p L1" and l: "LName l = t" "LKind l = Veth ?p" "fresh_iface l i"
      and j: "LName (IfLink j) = ?p" "LKind (IfLink j) = Veth t"
      and s2: "state w2 (L1((ns, t) \<mapsto> i, (ns, ?p) \<mapsto> j)) (F \<union> free_on ns (LIndex l))" for L1 l i j w2
  proof -
    let ?F = "F \<union> free_on ns (LIndex l)" and ?i = "i\<lparr>IfUp := True\<rparr>"
    let ?L = "\<lambda>j. L1((ns, t) \<mapsto> ?i, (ns, ?p) \<mapsto> j)"
    let ?j1 = "j\<lparr>IfMaster := Some (LIndex b)\<rparr>"
    let ?j2 = "?j1\<lparr>IfMask := BRSlaveGrpFwdMask\<rparr>"
    let ?j3 = "?j2\<lparr>IfUp := True\<rparr>"
    from l have i: "LIndex (IfLink i) = LIndex l" "LKind (IfLink i) = Veth ?p" by (auto simp: fresh_iface_def)
    have "bridge_at L1 ns (LName b) (LIndex b)"
    proof -
      from br(1) obtain k where k: "L (ns, LName b) = Some k" "LKind (IfLink k) = Bridge" "LIndex (IfLink k) = LIndex b"
        by (auto simp: bridge_at_def)
      from removal_keeps [OF L1 k(1)] br(2) k(2,3) cascades_base show ?thesis by (auto simp: bridge_at_def)
    qed
    with br(2,3) have br': "bridge_at (?L j) ns (LName b) (LIndex b)" by (simp add: bridge_at_def)
    have i': "(?L k) (ns, LName l) = Some ?i" for k using l(1) by simp
    have j': "(?L k) (ns, LName (IfLink j)) = Some k" for k using j(1) by simp
    have moved: "gives (LinkSetNsFd h ns l HostNS) w (\<lambda>x w. gives (give x) w Q)" if s7: "state w (?L ?j3) ?F" for w
    proof (rule give_set_ns [OF s7 ns i'])
      show "LIndex (IfLink ?i) = LIndex l" "LKind (IfLink ?i) = Veth ?p" using i by simp_all
      show "(?L ?j3) (HostNS, LName l) = None"
        using spoke_room_cleared(3) [OF room L1] l(1) ns by simp
      fix k w' assume k: "LKind (IfLink k) = Veth ?p"
        and s8: "state w' ((?L ?j3)((ns, LName l) := None, (HostNS, LName l) \<mapsto> k)) (?F \<union> free_on HostNS (LIndex (IfLink k)))"
      have "(?L ?j3)((ns, LName l) := None, (HostNS, LName l) \<mapsto> k) = L1((ns, ?p) \<mapsto> ?j3, (HostNS, t) \<mapsto> k)"
        using spoke_room_cleared(1) [OF room L1] l(1) ns by (auto simp: fun_eq_iff)
      with s8 have "state w' (L1((ns, ?p) \<mapsto> ?j3, (HostNS, t) \<mapsto> k)) ((F \<union> free_on HostNS (LIndex (IfLink k))) \<union> free_on ns (LIndex l))"
        by (simp add: Un_ac)
      with Q [OF L1 k state_less] show "gives (give ()) w' Q" by simp
    qed simp
    have up: "gives (LinkSetUp h ns (IfLink j)) w (\<lambda>_ w. gives (LinkSetNsFd h ns l HostNS) w (\<lambda>x w. gives (give x) w Q))"
      if s6: "state w (?L ?j2) ?F" for w
      by (rule give_up [where L = "?L ?j2" and F = ?F and i = ?j2]) (use j moved s6 in simp_all)
    have mask: "gives (LinkSetFwdMask h ns (IfLink j) BRSlaveGrpFwdMask) w (\<lambda>_ w.
        gives (LinkSetUp h ns (IfLink j)) w (\<lambda>_ w. gives (LinkSetNsFd h ns l HostNS) w (\<lambda>x w. gives (give x) w Q)))"
      if s5: "state w (?L ?j1) ?F" for w
      by (rule give_mask [where L = "?L ?j1" and F = ?F and i = ?j1 and bidx = "LIndex b"]) (use j up s5 in simp_all)
    have master: "gives (LinkSetMaster h ns (IfLink j) b) w (\<lambda>_ w. gives (LinkSetFwdMask h ns (IfLink j) BRSlaveGrpFwdMask) w (\<lambda>_ w.
        gives (LinkSetUp h ns (IfLink j)) w (\<lambda>_ w. gives (LinkSetNsFd h ns l HostNS) w (\<lambda>x w. gives (give x) w Q))))"
      if s4: "state w (?L j) ?F" for w
      by (rule give_master [where L = "?L j" and F = ?F and i = j]) (use j mask s4 br' in simp_all)
    show ?thesis
    proof (rule give_up [OF s2])
      show "(L1((ns, t) \<mapsto> i, (ns, ?p) \<mapsto> j)) (ns, LName l) = Some i" using l(1) by simp
      show "LIndex (IfLink i) = LIndex l" "\<forall>vx. LKind (IfLink i) \<noteq> Vxlan vx" using i by simp_all
      fix w3 assume "state w3 ((L1((ns, t) \<mapsto> i, (ns, ?p) \<mapsto> j))((ns, LName l) \<mapsto> ?i)) ?F"
      then have s3: "state w3 (?L j) ?F" using l(1) by (simp add: fun_upd_twist)
      show "gives (LinkByName h ns ?p) w3 (\<lambda>p w.
        gives (LinkSetMaster h ns p b) w (\<lambda>_ w. gives (LinkSetFwdMask h ns p BRSlaveGrpFwdMask) w (\<lambda>_ w.
        gives (LinkSetUp h ns p) w (\<lambda>_ w. gives (LinkSetNsFd h ns l HostNS) w (\<lambda>x w. gives (give x) w Q)))))"
        by (rule give_find [where i = j, OF s3]) (use j master in simp_all)
    qed
  qed
  show ?thesis
    unfolding make_spoke_def Let_def deref_simps evaluating_Inr spoke_link_def [symmetric]
  proof (rule gives_ignoring, rule give_delete [OF s])
    show "removable (LKind (IfLink i))" if "L (ns, ?p) = Some i" for i
      using room that by (auto simp: spoke_room_def)
    fix L1 w1 assume s1: "state w1 L1 F" and L1: "removal L ns ?p L1"
    note free = spoke_room_cleared [OF room L1]
    show "gives (calling (LinkAdd h ns (spoke_link t mtu (LIndex b)) None) (Note ''failed to create veth interface'') (\<lambda>vlink.
            calling (LinkSetUp h ns vlink) (Wrap ''failed to veth up'') (\<lambda>_.
            calling (LinkByName h ns ?p) (Wrap ''failed to find peer veth'') (\<lambda>peerLink.
            calling (LinkSetMaster h ns peerLink b) (Wrap ''failed to set veth to master'') (\<lambda>_.
            calling (LinkSetFwdMask h ns peerLink BRSlaveGrpFwdMask) (Wrap ''failed to set veth slave grp fwd mask'') (\<lambda>_.
            calling (LinkSetUp h ns peerLink) (Wrap ''failed to peer veth up'') (\<lambda>_.
            calling (LinkSetNsFd h ns vlink HostNS) (\<lambda>e. e) give))))))) w1 Q"
      unfolding gives_calling
    proof (rule give_add_veth [OF s1 fits])
      show "LKind (spoke_link t mtu (LIndex b)) = Veth ?p" by (simp add: spoke_link_def)
    qed (use free rest [OF L1] in \<open>simp_all add: spoke_link_def\<close>)
  qed
qed

text \<open>
  What the work inside the namespace leaves of the host's other links: none appears, and those
  that depend on nothing inside the namespace stay.
\<close>

definition host_part :: "table \<Rightarrow> netns \<Rightarrow> string \<Rightarrow> string set \<Rightarrow> table \<Rightarrow> bool" where
  "host_part L ns t N L' \<longleftrightarrow>
     (\<forall>n k. n \<noteq> t \<longrightarrow> L' (HostNS, n) = Some k \<longrightarrow> (\<exists>k0. L (HostNS, n) = Some k0 \<and> IfLink k = IfLink k0)) \<and>
     (\<forall>n k. n \<noteq> t \<longrightarrow> L (HostNS, n) = Some k \<longrightarrow> apart (view L) ns N (IfLink k) \<longrightarrow>
        (\<exists>k'. L' (HostNS, n) = Some k' \<and> IfLink k' = IfLink k))"

lemma host_part_steps:
  assumes b: "\<And>k. k \<noteq> (ns, b) \<Longrightarrow> L1 k = L k" "ns \<noteq> HostNS" "b \<notin> {v, p}"
    and v: "if x then removal L1 ns v L2 else L2 = L1"
    and p: "removal L2 ns p L3"
  shows "host_part L ns t {p, v} (L3((ns, p) \<mapsto> j, (HostNS, t) \<mapsto> i))"
proof -
  have up: "\<exists>k0. L (HostNS, n) = Some k0 \<and> IfLink k = IfLink k0" if "L3 (HostNS, n) = Some k" for n k
  proof -
    from removal_survivor [OF p that] obtain k2 where k2: "L2 (HostNS, n) = Some k2" "IfLink k2 = IfLink k"
      by (auto simp: same_link_def)
    have "\<exists>k1. L1 (HostNS, n) = Some k1 \<and> IfLink k1 = IfLink k"
      using v k2 removal_survivor [of L1 ns v L2 "(HostNS, n)" k2] by (cases x) (auto simp: same_link_def)
    with b show ?thesis by auto
  qed
  have down: "\<exists>k'. L3 (HostNS, n) = Some k' \<and> IfLink k' = IfLink k"
    if k: "L (HostNS, n) = Some k" "apart (view L) ns {p, v} (IfLink k)" for n k
  proof -
    have k1: "L1 (HostNS, n) = Some k" using k(1) b(1) [of "(HostNS, n)"] b(2) by simp
    have "view L1 (ns, m) = view L (ns, m)" if "m \<in> {p, v}" for m
      using b(1) [of "(ns, m)"] b(3) that by (auto simp: view_def)
    then have a1: "apart (view L1) ns {p, v} (IfLink k)"
      using k(2) apart_cong [of "{p, v}" "view L1" ns "view L"] by blast
    have "\<exists>k2. L2 (HostNS, n) = Some k2 \<and> IfLink k2 = IfLink k \<and> apart (view L2) ns {p, v} (IfLink k2)"
    proof (cases x)
      case True
      with v have rem: "removal L1 ns v L2" by simp
      show ?thesis by (rule apart_kept [OF rem a1 _ k1]) (use b(2) in simp_all)
    next
      case False
      with v k1 a1 show ?thesis by simp
    qed
    then obtain k2 where k2: "L2 (HostNS, n) = Some k2" "IfLink k2 = IfLink k" "apart (view L2) ns {p, v} (IfLink k2)"
      by blast
    have "(HostNS, n) \<noteq> (ns, p)" using b(2) by simp
    from apart_kept [OF p k2(3) _ k2(1) this] k2(2) show ?thesis by auto
  qed
  show ?thesis
    unfolding host_part_def using up down b(2) by auto
qed

lemma give_setup:
  assumes s: "state w L F" and ns: "ns \<noteq> HostNS" and spec: "valid_spec lan" "VxPort lan = Some port"
    and names: "BridgeName lan = Some b" "VxLANName lan = Some v" "distinct [b, v, t, getPeerVethName t]"
    and bridge: "\<And>i. L (ns, b) = Some i \<Longrightarrow> LKind (IfLink i) = Bridge"
    and vx: "\<And>i. L (ns, v) = Some i \<Longrightarrow> \<exists>vx. LKind (IfLink i) = Vxlan vx \<and> length (Group vx) \<in> {4, 16}"
    and room: "spoke_room (view L) ns t"
    and fits: "acceptable (bridge_link b mtu)" "\<And>k. acceptable (spoke_link t mtu k)"
    and Q: "\<And>x L' i w'. state w' L' (F \<union> free_on HostNS (LIndex (IfLink i))) \<Longrightarrow> (x \<Longrightarrow> L' (ns, v) = None) \<Longrightarrow>
      L' (HostNS, t) = Some i \<Longrightarrow> LKind (IfLink i) = Veth (getPeerVethName t) \<Longrightarrow>
      host_part L ns t {getPeerVethName t, v} L' \<Longrightarrow> Q x w'"
  shows "gives (setup_lan_ns h ns lan t mtu idx) w Q"
  unfolding setup_lan_ns_def gives_running
proof (rule give_bridge [OF s names(1) bridge fits(1)])
  let ?p = "getPeerVethName t"
  fix L1 w1 and br :: link assume s1: "state w1 L1 F" and br: "LName br = b" "bridge_at L1 ns b (LIndex br)"
    and L1: "\<And>k. k \<noteq> (ns, b) \<Longrightarrow> L1 k = L k"
  have vx1: "\<exists>vx. LKind (IfLink i) = Vxlan vx \<and> length (Group vx) \<in> {4, 16}" if "L1 (ns, v) = Some i" for i
    using vx [of i] that L1 names(3) by auto
  have room1: "spoke_room (view L1) ns t"
    by (rule spoke_room_other [OF room, where b = b]) (use L1 names(3) in \<open>auto simp: view_def\<close>)
  have spoke: "gives (make_spoke h ns (Some br) t mtu) w3 (\<lambda>_. Q x)"
    if s3: "state w3 L2 F" and L2: "if x then removal L1 ns v L2 else L2 = L1" for x L2 w3
  proof (rule give_spoke [OF s3 ns])
    show "spoke_room (view L2) ns t"
      using L2 room1 spoke_room_removal [OF room1 _ _ _ state_keyed [OF s1]] names(3) by (cases x) auto
    from br(2) obtain k where k: "L1 (ns, b) = Some k" "LKind (IfLink k) = Bridge" "LIndex (IfLink k) = LIndex br"
      by (auto simp: bridge_at_def)
    show "bridge_at L2 ns (LName br) (LIndex br)"
    proof (cases x)
      case True
      with L2 have "removal L1 ns v L2" by simp
      from removal_keeps [OF this k(1)] names(3) k(2,3) cascades_base br(1) show ?thesis by (auto simp: bridge_at_def)
    qed (use L2 br in simp)
    show "LName br \<noteq> ?p" "LName br \<noteq> t" using names(3) br(1) by auto
    fix L3 i j w' assume L3: "removal L2 ns ?p L3" and i: "LKind (IfLink i) = Veth ?p"
      and s': "state w' (L3((ns, ?p) \<mapsto> j, (HostNS, t) \<mapsto> i)) (F \<union> free_on HostNS (LIndex (IfLink i)))"
    have "L3 (ns, v) = None" if x
      using L2 that removal_none [OF L3] removal_gone [of L1 ns v L2] by simp
    moreover have "host_part L ns t {?p, v} (L3((ns, ?p) \<mapsto> j, (HostNS, t) \<mapsto> i))"
      by (rule host_part_steps [OF L1 ns _ L2 L3]) (use names(3) in auto)
    ultimately show "Q x w'"
      using i names(3) ns by (intro Q [OF s']) auto
  qed (rule fits(2))
  show "gives (check_vxlan h ns lan idx) w1 (\<lambda>x. \<lambda>w. gives (drop_vxlan h ns lan x) w (\<lambda>x w.
      gives (make_spoke h ns (Some br) t mtu) w (\<lambda>_ w. gives (give x) w Q)))"
    by (rule give_check_vxlan [OF s1 spec names(2) vx1], assumption, rule give_drop_vxlan [OF _ names(2) vx1], assumption+)
      (simp add: spoke)
qed

text \<open>The VxLAN link joins the bridge, or does not; either way the call goes on.\<close>

lemma calmer_refl: "calmer well busy w w"
  by (simp add: calmer_def)

lemma calmer_trans: "calmer well busy w w' \<Longrightarrow> calmer well busy w' w'' \<Longrightarrow> calmer well busy w w''"
  by (simp add: calmer_def)

lemma calm_calling:
  assumes "\<And>w. calmer well busy w (snd (m w))" and "\<And>x w. calmer well busy w (snd (k x w))"
  shows "calmer well busy w (snd (calling m e k w))"
proof (rule calling_rule [where P = "calmer well busy w"])
  show "calmer well busy w w'" if "m w = (Inl f, w')" for f w'
    using assms(1) [of w] that by simp
  show "calmer well busy w (snd (k x w'))" if "m w = (Inr x, w')" for x w'
    using assms(1) [of w] assms(2) that calmer_trans by (metis snd_conv)
qed

lemma calm_attach: "calmer well busy w (snd (do_in h ns (attach_vxlan h ns lan) w))"
proof -
  have eval: "calmer well busy w (snd (evaluating v k w))" if "\<And>x w. calmer well busy w (snd (k x w))"
    for v :: "string verdict" and k :: "string \<Rightarrow> ('w, unit) act" and w
    using that by (intro evaluating_rule [where P = "calmer well busy w"]) (auto simp: calmer_refl)
  show ?thesis
    unfolding do_in_def attach_vxlan_def
    by (intro calm_calling calm_enter calm_by_name calm_master calm_mask calm_up eval) (simp add: calmer_refl)
qed

lemma give_add_vxlan:
  assumes s: "state w L F" and spec: "valid_spec lan" "VxPort lan = Some port" "VxLANName lan = Some v"
    and free: "x \<Longrightarrow> L (ns, v) = None" and dev: "L (HostNS, d) = Some i" "LIndex (IfLink i) = idx"
    and fits: "name_fits v" "68 \<le> mtu" "mtu \<le> 65535"
    and Q: "\<And>L' w'. state w' L' F \<Longrightarrow> (\<And>k. k \<noteq> (ns, v) \<Longrightarrow> L' k = L k) \<Longrightarrow> Q () w'"
  shows "gives (add_vxlan h ns lan idx mtu x) w Q"
proof (cases x)
  case True
  from spec(1) obtain g grp vni where g: "VxLANGrp lan = Some g" "ParseAddr g = Inr grp" "IsMulticast grp"
    "VNI lan = Some vni" "0 < sint vni" "sint vni < 2 ^ 24"
    by (auto simp: valid_spec_def)
  have usable: "usable lan" using spec(1,2) stored_usable by simp
  let ?l = "vxlan_link v idx (sint vni) grp (word_of_int mtu) (sint port)"
  have mtu: "uint (word_of_int mtu :: 32 word) = mtu" using fits by (simp add: uint_word_of_int)
  have l: "acceptable ?l" "LName ?l = v"
    using g fits(1) ParseAddr_wf [OF g(2)] by (auto simp: acceptable_def vxlan_link_def mtu fits)
  obtain vx where vx: "LKind ?l = Vxlan vx" "VtepDevIndex vx = idx" by (simp add: vxlan_link_def)
  from vxlan_added [OF s l(1) vx(1), of ns HostNS d i] free [OF True] dev vx(2) l(2)
  obtain r w1 L1 where call: "LinkAdd h HostNS ?l (Some ns) w = (r, w1)" "\<forall>e. r = Inl e \<longrightarrow> is_EEXIST e"
    and s1: "state w1 L1 F" and L1: "\<forall>k. k \<noteq> (ns, v) \<longrightarrow> L1 k = L k" by auto
  have create: "CreateVXLANIF h lan idx ns mtu (sint port) w = (Inr (), w1)"
    using call g spec(3)
    by (cases r) (auto simp: CreateVXLANIF_def ensureVXLANIf_def MustParseAddr_def branch_def calling_def attempt_def)
  let ?attach = "do_in h ns (attach_vxlan h ns lan)"
  obtain r2 w2 where att: "?attach w1 = (r2, w2)" by fastforce
  have np: "\<not> panics r2"
  proof -
    have "\<not> crashes ?attach w1"
      unfolding crashes_do_in using attach_vxlan_no_crash [OF usable, of h ns] by blast
    with att show ?thesis by (simp add: crashes_def)
  qed
  have "links w2 k = links w1 k" if "k \<noteq> (ns, v)" for k
    using att attach_vxlan_links [of ns lan _ r2 w2 k] that spec(3) enter [of ns w1] by (auto simp: do_in_iff)
  with L1 s1 have L2: "links w2 k = L k" if "k \<noteq> (ns, v)" for k
    using that unfolding state_def by metis
  from calm_attach [of w1 ns lan] att s1 have s2: "state w2 (links w2) F" by (auto intro: stateI)
  show ?thesis
    using create att np Q [OF s2 L2] True
    by (cases r2) (auto simp: add_vxlan_def spec(2) running_def attempt_def ignoring_error_def gives_def split: fault.splits)
qed (use Q [OF s] in \<open>simp add: add_vxlan_def\<close>)


lemma give_spoke_up:
  assumes s: "state w L F" and i: "L (HostNS, t) = Some i" "LKind (IfLink i) = Veth p"
    and Q: "\<And>w'. state w' (L((HostNS, t) \<mapsto> i\<lparr>IfUp := True\<rparr>)) F \<Longrightarrow> Q () w'"
  shows "gives (spoke_up h t) w Q"
  unfolding spoke_up_def gives_calling
proof (rule give_find [where i = i, OF s i(1)])
  show "readable (LKind (IfLink i))" using i(2) by simp
  fix w1 assume "state w1 L F" "LName (IfLink i) = t"
  with i show "gives (LinkSetUp h HostNS (IfLink i)) w1 (\<lambda>x w. gives (give x) w Q)"
    by (intro give_up [where L = L and F = F and i = i]) (auto intro: Q)
qed

lemma give_recreate:
  assumes s: "state w L F" and lower: "L (HostNS, m) = Some k" "readable (LKind (IfLink k))" "m \<noteq> name"
    and mode: "ModeFromString mode = Inr md" "(HostNS, LIndex (IfLink k), md) \<in> F" and fits: "name_fits name"
    and old: "\<And>d. L (HostNS, name) = Some d \<Longrightarrow> removable (LKind (IfLink d)) \<and> \<not> cascades d k"
  shows "gives (RecreateMacvtap h name m mode) w (\<lambda>_ _. True)"
  unfolding RecreateMacvtap_def gives_running
proof (rule give_delete [OF s])
  show "removable (LKind (IfLink d))" if "L (HostNS, name) = Some d" for d using old [OF that] by simp
  fix L1 w1 assume s1: "state w1 L1 F" and L1: "removal L HostNS name L1"
  from removal_keeps [OF L1 lower(1)] lower(3) old obtain k1 where k1: "L1 (HostNS, m) = Some k1" "IfLink k1 = IfLink k"
    by auto
  let ?l = "no_attrs\<lparr>LName := name, LParentIndex := LIndex (IfLink k), LTxQLen := LTxQLen (IfLink k), LKind := Macvtap md\<rparr>"
  have up: "gives (LinkSetUp h HostNS l) w3 (\<lambda>_ _. True)"
    if "LName l = name" "LKind l = Macvtap md" "fresh_iface l i" "state w3 (L1((HostNS, name) \<mapsto> i)) {}" for l i w3
    by (rule give_up [OF that(4), where i = i]) (use that in \<open>auto simp: fresh_iface_def\<close>)
  have "gives (LinkAdd h HostNS ?l None) w2 (\<lambda>l w. gives (LinkSetUp h HostNS l) w (\<lambda>_ _. True))" if s2: "state w2 L1 F" for w2
  proof (rule give_add_macvtap [OF s2, where md = md and m = m and k = k1])
    show "acceptable ?l" using fits by (simp add: acceptable_def no_attrs_def)
  qed (use k1 removal_gone [OF L1] mode up in simp_all)
  then show "gives (CreateMacvtap h name m mode) w1 (\<lambda>_ _. True)"
    unfolding CreateMacvtap_def gives_calling mode(1) evaluating_Inr Let_def
    by (intro give_find [where i = k1, OF s1 k1(1)]) (use k1 lower(2) in simp_all)
qed

text \<open>The dummy link is there, or is made, and takes another private macvtap.\<close>

lemma give_dummy:
  assumes s: "state w L F"
    and there: "\<And>k. L (HostNS, dummyIfName) = Some k \<Longrightarrow> LKind (IfLink k) = Dummy \<and> (HostNS, LIndex (IfLink k), md) \<in> F"
    and Q: "\<And>L' F' k w'. state w' L' F' \<Longrightarrow> L' (HostNS, dummyIfName) = Some k \<Longrightarrow> LKind (IfLink k) = Dummy \<Longrightarrow>
      (HostNS, LIndex (IfLink k), md) \<in> F' \<Longrightarrow> (\<And>n. n \<noteq> dummyIfName \<Longrightarrow> L' (HostNS, n) = L (HostNS, n)) \<Longrightarrow> Q () w'"
  shows "gives (ensure_dummy h) w Q"
proof (cases "L (HostNS, dummyIfName)")
  case (Some k)
  have "gives (give ()) w' Q" if "state w' L F" for w'
    using Q [where L' = L and F' = F and k = k, OF that Some] there [OF Some] by simp
  with there [OF Some] show ?thesis
    unfolding ensure_dummy_def by (intro gives_branch give_find [where i = k, OF s Some]) simp_all
next
  case None
  from find_missing [OF s None] obtain w1 where miss: "LinkByName h HostNS dummyIfName w = (Inl LinkNotFound, w1)"
    and s1: "state w1 L F" by blast
  let ?l = "no_attrs\<lparr>LName := dummyIfName, LKind := Dummy\<rparr>"
  have found: "gives (LinkByName h HostNS dummyIfName) w2 (\<lambda>_ w. Q () w)"
    if l: "LName l = dummyIfName" "LKind l = Dummy" "fresh_iface l i"
      and s2: "state w2 (L((HostNS, dummyIfName) \<mapsto> i)) (F \<union> free_on HostNS (LIndex l))" for l i w2
  proof (rule give_find [OF s2, where i = i])
    from l have i: "LIndex (IfLink i) = LIndex l" "LKind (IfLink i) = Dummy" by (auto simp: fresh_iface_def)
    then show "readable (LKind (IfLink i))" by simp
    fix w' assume "state w' (L((HostNS, dummyIfName) \<mapsto> i)) (F \<union> free_on HostNS (LIndex l))"
    from Q [OF this, of i] i show "Q () w'" by (simp add: free_on_def)
  qed simp
  show ?thesis
    unfolding ensure_dummy_def
  proof (rule gives_branch_err, rule miss, unfold gives_calling, rule give_add [OF s1])
    show "acceptable ?l" by (simp add: acceptable_def no_attrs_def name_fits_def dummyIfName_def)
  qed (use None found in simp_all)
qed

lemma give_macvtap:
  assumes s: "state w L F" and spoke: "L (HostNS, t) = Some i" "LKind (IfLink i) = Veth (getPeerVethName t)"
    and mode: "ModeFromString mode = Inr md" "(HostNS, LIndex (IfLink i), md) \<in> F"
    and names: "name_fits name" "name \<notin> {t, getPeerVethName t, dummyIfName}"
    and old: "\<And>d. L (HostNS, name) = Some d \<Longrightarrow> removable (LKind (IfLink d))"
    and dum: "\<And>k. dummy \<Longrightarrow> L (HostNS, dummyIfName) = Some k \<Longrightarrow>
      LKind (IfLink k) = Dummy \<and> (HostNS, LIndex (IfLink k), MODE_PRIVATE) \<in> F"
  shows "gives (make_macvtap h name t mode dummy) w (\<lambda>_ _. True)"
proof (cases dummy)
  case True
  have "gives (RecreateMacvtap h name dummyIfName ''private'') w' (\<lambda>_ _. True)"
    if "state w' L' F'" "L' (HostNS, dummyIfName) = Some k" "LKind (IfLink k) = Dummy" "(HostNS, LIndex (IfLink k), MODE_PRIVATE) \<in> F'"
      "\<And>n. n \<noteq> dummyIfName \<Longrightarrow> L' (HostNS, n) = L (HostNS, n)" for w' L' F' k
    by (rule give_recreate [OF that(1,2), where md = MODE_PRIVATE])
      (use that(3-5) names old in \<open>auto simp: ModeFromString_def cascades_def\<close>)
  with dum True show ?thesis
    unfolding make_macvtap_def gives_running by (auto intro!: give_dummy [OF s, where md = MODE_PRIVATE])
next
  case False
  have "\<not> cascades d i" if "L (HostNS, name) = Some d" for d
    using state_keyed [OF s that] spoke(2) names(2) by (auto simp: cascades_def)
  with False show ?thesis
    using give_recreate [OF s spoke(1) _ _ mode names(1)] spoke(2) names(2) old by (auto simp: make_macvtap_def)
qed

text \<open>The links \<open>Ensure\<close> asks for are acceptable.\<close>

lemma asked_for:
  assumes "names_fit lan t name" and "68 \<le> mtu" and "mtu \<le> 65535"
  shows "BridgeName lan = Some b \<Longrightarrow> acceptable (bridge_link b mtu)" and "acceptable (spoke_link t mtu k)"
  using assms by (auto simp: names_fit_def acceptable_def bridge_link_def spoke_link_def no_attrs_def getPeerVethName_def)

lemma Ensure_inside:
  assumes s: "state w L F" and ns: "ns \<noteq> HostNS" and spec: "valid_spec lan" "VxPort lan = Some port"
    and fit: "names_fit lan t name" and ready: "site_ready (view L) ns lan dev t name"
    and d: "L (HostNS, dev) = Some d" and mode: "ModeFromString mode = Inr md"
    and dum: "\<And>k. dummy \<Longrightarrow> L (HostNS, dummyIfName) = Some k \<Longrightarrow> (HostNS, LIndex (IfLink k), MODE_PRIVATE) \<in> F"
    and mtu: "mtu = LMTU (IfLink d) - maxVxLANEncapOverhead"
  shows "gives (setup_lan_ns h ns lan t mtu (LIndex (IfLink d))) w (\<lambda>x w.
    gives (add_vxlan h ns lan (LIndex (IfLink d)) mtu x) w (\<lambda>_ w.
    gives (spoke_up h t) w (\<lambda>_ w. gives (make_macvtap h name t mode dummy) w (\<lambda>_ _. True))))"
proof -
  let ?p = "getPeerVethName t"
  from fit obtain b v where names: "BridgeName lan = Some b" "VxLANName lan = Some v" "distinct [b, v, t, ?p]"
    and fits: "name_fits v" "name_fits name" "name \<notin> {t, ?p, dummyIfName}" "dummyIfName \<noteq> t"
    by (auto simp: names_fit_def names_apart_def)
  from ready d names(2) have dev: "142 \<le> LMTU (IfLink d)" "LMTU (IfLink d) \<le> 65609" "dev \<noteq> t" "apart (view L) ns {?p, v} (IfLink d)"
    by (auto simp: site_ready_def insert_commute)
  with mtu have range: "68 \<le> mtu" "mtu \<le> 65535" by (simp_all add: maxVxLANEncapOverhead_def)
  note site = ready [unfolded site_ready_def]
  show ?thesis
  proof (rule give_setup [OF s ns spec names])
    show "LKind (IfLink i) = Bridge" if "L (ns, b) = Some i" for i using site names(1) that by auto
    show "\<exists>vx. LKind (IfLink i) = Vxlan vx \<and> length (Group vx) \<in> {4, 16}" if "L (ns, v) = Some i" for i
      using site names(2) that by auto
    show "spoke_room (view L) ns t" using site by simp
    show "acceptable (bridge_link b mtu)" "acceptable (spoke_link t mtu k)" for k
      using asked_for [OF fit range] names(1) by auto
    fix x L1 w1 and i :: iface
    let ?F = "F \<union> free_on HostNS (LIndex (IfLink i))"
    assume s1: "state w1 L1 ?F" and free: "x \<Longrightarrow> L1 (ns, v) = None" and i: "L1 (HostNS, t) = Some i" "LKind (IfLink i) = Veth ?p"
      and host: "host_part L ns t {?p, v} L1"
    from host d dev(3,4) obtain d1 where d1: "L1 (HostNS, dev) = Some d1" "IfLink d1 = IfLink d"
      unfolding host_part_def by blast
    show "gives (add_vxlan h ns lan (LIndex (IfLink d)) mtu x) w1 (\<lambda>_ w. gives (spoke_up h t) w
        (\<lambda>_ w. gives (make_macvtap h name t mode dummy) w (\<lambda>_ _. True)))"
    proof (rule give_add_vxlan [OF s1 spec names(2) free d1(1)])
      fix L2 w2 assume s2: "state w2 L2 ?F" and L2: "\<And>k. k \<noteq> (ns, v) \<Longrightarrow> L2 k = L1 k"
      from L2 ns have hostL2: "L2 (HostNS, n) = L1 (HostNS, n)" for n by auto
      have seen: "\<exists>k0. L (HostNS, n) = Some k0 \<and> IfLink k = IfLink k0" if "L2 (HostNS, n) = Some k" "n \<noteq> t" for n k
        using host that hostL2 unfolding host_part_def by metis
      show "gives (spoke_up h t) w2 (\<lambda>_ w. gives (make_macvtap h name t mode dummy) w (\<lambda>_ _. True))"
      proof (rule give_spoke_up [OF s2, of t i])
        let ?L3 = "L2((HostNS, t) \<mapsto> i\<lparr>IfUp := True\<rparr>)"
        fix w3 assume s3: "state w3 ?L3 ?F"
        show "gives (make_macvtap h name t mode dummy) w3 (\<lambda>_ _. True)"
        proof (rule give_macvtap [OF s3 _ _ mode, where i = "i\<lparr>IfUp := True\<rparr>"])
          show "removable (LKind (IfLink k))" if "?L3 (HostNS, name) = Some k" for k
            using seen [of name k] that fits(3) site by auto
          show "LKind (IfLink k) = Dummy \<and> (HostNS, LIndex (IfLink k), MODE_PRIVATE) \<in> ?F"
            if "dummy" "?L3 (HostNS, dummyIfName) = Some k" for k
            using seen [of dummyIfName k] that fits(4) site dum by fastforce
        qed (use i fits in \<open>simp_all add: free_on_def\<close>)
      qed (use i hostL2 in auto)
    qed (use d1 range fits in simp_all)
  qed
qed


text \<open>\<open>Ensure\<close> gives a result once the namespace of the LAN is open.\<close>

lemma Ensure_gives:
  assumes run: "NS lan = Some n" "open_lan_ns h n w = (Inr ns, w1)" and well: "well w1"
    and spec: "valid_spec lan" "VxPort lan = Some port" and fit: "names_fit lan t name"
    and ready: "site_ready (view (links w1)) ns lan (vx_dev_name lan hostname) t name"
    and mode: "ModeFromString mode = Inr md"
    and dum: "\<And>l. dummy \<Longrightarrow> view (links w1) (HostNS, dummyIfName) = Some l \<Longrightarrow> \<not> busy w1 HostNS (LIndex l) MODE_PRIVATE"
  shows "\<exists>idx w'. Ensure h name t lan hostname mode dummy w = (Inr idx, w')"
proof -
  let ?dev = "vx_dev_name lan hostname" and ?L = "links w1"
  let ?F = "{(HostNS, LIndex l, MODE_PRIVATE) | l. dummy \<and> view ?L (HostNS, dummyIfName) = Some l}"
  have ns: "ns \<noteq> HostNS" using open_lan_ns_get [OF run(2)] get_ns by blast
  have s: "state w1 ?L ?F" using well dum by (auto simp: state_def)
  from ready obtain lo k d where lo: "?L (ns, ''lo'') = Some lo" "LKind (IfLink lo) = OtherKind k" "k \<noteq> ''bridge''"
    and d: "?L (HostNS, ?dev) = Some d" "readable (LKind (IfLink d))"
    by (auto simp: site_ready_def)
  let ?L1 = "?L((ns, ''lo'') \<mapsto> lo\<lparr>IfUp := True\<rparr>)"
  have same: "view ?L1 = view ?L" using view_upd [where L = ?L, OF lo(1)] by simp
  have d1: "?L1 (HostNS, ?dev) = Some d" using d ns by simp
  have "gives (lo_up h ns) w1 (\<lambda>_ w. gives (LinkByName h HostNS ?dev) w (\<lambda>dl w.
      gives (EnterNS h ns) w (\<lambda>_ w. gives (setup_lan_ns h ns lan t (LMTU dl - maxVxLANEncapOverhead) (LIndex dl)) w (\<lambda>x w.
      gives (add_vxlan h ns lan (LIndex dl) (LMTU dl - maxVxLANEncapOverhead) x) w (\<lambda>_ w.
      gives (spoke_up h t) w (\<lambda>_ w. gives (make_macvtap h name t mode dummy) w (\<lambda>_ _. True)))))))"
  proof (rule give_lo_up [where L = ?L and F = ?F and i = lo])
    show "state w1 ?L ?F" "?L (ns, ''lo'') = Some lo" by (rule s, rule lo(1))
    show "readable (LKind (IfLink lo))" "\<forall>vx. LKind (IfLink lo) \<noteq> Vxlan vx" using lo(2,3) by simp_all
    fix w2 assume s2: "state w2 ?L1 ?F"
    show "gives (LinkByName h HostNS ?dev) w2 (\<lambda>dl w.
      gives (EnterNS h ns) w (\<lambda>_ w. gives (setup_lan_ns h ns lan t (LMTU dl - maxVxLANEncapOverhead) (LIndex dl)) w (\<lambda>x w.
      gives (add_vxlan h ns lan (LIndex dl) (LMTU dl - maxVxLANEncapOverhead) x) w (\<lambda>_ w.
      gives (spoke_up h t) w (\<lambda>_ w. gives (make_macvtap h name t mode dummy) w (\<lambda>_ _. True))))))"
    proof (rule give_find [where L = ?L1 and F = ?F and i = d], rule s2, rule d1, rule d(2), rule give_enter, assumption)
      fix w3 assume s3: "state w3 ?L1 ?F"
      show "gives (setup_lan_ns h ns lan t (LMTU (IfLink d) - maxVxLANEncapOverhead) (LIndex (IfLink d))) w3 (\<lambda>x w.
        gives (add_vxlan h ns lan (LIndex (IfLink d)) (LMTU (IfLink d) - maxVxLANEncapOverhead) x) w (\<lambda>_ w.
        gives (spoke_up h t) w (\<lambda>_ w. gives (make_macvtap h name t mode dummy) w (\<lambda>_ _. True))))"
        by (rule Ensure_inside [where L = ?L1 and F = ?F and dev = ?dev and port = port and md = md])
          (use s3 ns spec fit ready d1 mode in \<open>simp_all add: same del: fun_upd_apply\<close>, use ns in \<open>auto simp: view_def\<close>)
    qed
  qed
  then have "gives (Ensure h name t lan hostname mode dummy) w (\<lambda>_ _. True)"
    using run by (simp add: Ensure_def Let_def gives_def [of "open_lan_ns h n"])
  then show ?thesis by (simp add: gives_def)
qed

end

end
