(* ===== verification/Underlay.thy ===== *)
theory Underlay
  imports Willing
begin

section \<open>The VxLAN link of a node\<close>

text \<open>
  What joins a node to the other nodes of a LAN: the VxLAN link in the namespace of the LAN, as
  the specification asks for it, up on the LAN's bridge. The program drops two kinds of errors
  on the way: those of attaching the link, and that a VxLAN of the identifier exists already.
  The theory shows that the link is in place after a call of \<open>Ensure\<close> when neither happens.
\<close>

text \<open>The link is the one that the specification describes, on the underlay device \<open>dev\<close>.\<close>

definition vxlan_for :: "LANSpec \<Rightarrow> int \<Rightarrow> link \<Rightarrow> bool" where
  "vxlan_for lan dev l \<longleftrightarrow>
     (\<exists>vx g grp vni port. LKind l = Vxlan vx \<and> VxLANGrp lan = Some g \<and> ParseAddr g = Inr grp \<and>
        VNI lan = Some vni \<and> VxPort lan = Some port \<and> IP_String (Group vx) = IP_String (AsSlice grp) \<and>
        VxlanId vx = sint vni \<and> VtepDevIndex vx = dev \<and> Port vx = sint port)"

definition vxlan_port_at :: "table \<Rightarrow> netns \<Rightarrow> LANSpec \<Rightarrow> int \<Rightarrow> string \<Rightarrow> int \<Rightarrow> bool" where
  "vxlan_port_at L ns lan dev v bidx \<longleftrightarrow>
     (\<exists>i. L (ns, v) = Some i \<and> vxlan_for lan dev (IfLink i) \<and> port_of i bidx)"

text \<open>No VxLAN link but the one called \<open>v\<close> in the namespace has the identifier.\<close>

definition vni_free :: "table \<Rightarrow> netns \<Rightarrow> string \<Rightarrow> int \<Rightarrow> bool" where
  "vni_free L ns v vni \<longleftrightarrow>
     (\<forall>k i vx. L k = Some i \<longrightarrow> LKind (IfLink i) = Vxlan vx \<longrightarrow> VxlanId vx = vni \<longrightarrow> k = (ns, v))"

text \<open>Every VxLAN link of the second table is one of the first.\<close>

definition no_new_vxlan :: "table \<Rightarrow> table \<Rightarrow> bool" where
  "no_new_vxlan L L' \<longleftrightarrow>
     (\<forall>k i vx. L' k = Some i \<longrightarrow> LKind (IfLink i) = Vxlan vx \<longrightarrow> (\<exists>j. L k = Some j \<and> IfLink j = IfLink i))"

lemma no_new_refl [simp]: "no_new_vxlan L L"
  by (simp add: no_new_vxlan_def)

lemma no_new_trans: "no_new_vxlan L L1 \<Longrightarrow> no_new_vxlan L1 L2 \<Longrightarrow> no_new_vxlan L L2"
  unfolding no_new_vxlan_def by metis

lemma no_new_upd: "no_new_vxlan L L1 \<Longrightarrow> \<forall>vx. LKind (IfLink i) \<noteq> Vxlan vx \<Longrightarrow> no_new_vxlan L (L1(k \<mapsto> i))"
  by (auto simp: no_new_vxlan_def)

lemma vni_free_later: "vni_free L ns v vni \<Longrightarrow> no_new_vxlan L L' \<Longrightarrow> vni_free L' ns v vni"
  unfolding vni_free_def no_new_vxlan_def by metis

text \<open>
  What \<open>Ensure\<close> needs to find for it: no other VxLAN link has the LAN's identifier; a link of
  the LAN's VxLAN name is such a link, and when it is in order it is up on the bridge; what the
  call deletes is not what a VxLAN link stands on.
\<close>

definition underlay_ready ::
    "table \<Rightarrow> netns \<Rightarrow> LANSpec \<Rightarrow> string \<Rightarrow> string \<Rightarrow> int32 \<Rightarrow> int \<Rightarrow> string \<Rightarrow> string \<Rightarrow> bool" where
  "underlay_ready L ns lan b v vni dev t name \<longleftrightarrow>
     vni_free L ns v (sint vni) \<and>
     (\<forall>i. L (ns, v) = Some i \<longrightarrow> (\<exists>vx. LKind (IfLink i) = Vxlan vx \<and> length (Group vx) \<in> {4, 16}) \<and>
        (vxlan_for lan dev (IfLink i) \<longrightarrow>
           (\<exists>bidx. bridge_at L ns b bidx \<and> port_of i bidx) \<and> LParentIndex (IfLink i) \<in> {0, dev}) \<and>
        apart (view L) ns {getPeerVethName t} (IfLink i)) \<and>
     (\<forall>e. L (HostNS, name) = Some e \<longrightarrow> LIndex (IfLink e) \<notin> {0, dev})"

text \<open>A group that parses back to the group of the specification has its text.\<close>

lemma same_text:
  assumes "ParseAddr (IP_String bs) = Inr a" and "length bs \<in> {4, 16}"
  shows "IP_String (AsSlice a) = IP_String bs"
proof (cases "length bs = 4")
  case True
  then have "ParseAddr (IP_String bs) = Inr (Addr4 bs)" using print_parse [of "Addr4 bs"] by (simp add: wf_addr_def)
  with assms(1) show ?thesis by auto
next
  case False
  with assms(2) have len: "length bs = 16" by simp
  then have bs: "bs \<noteq> []" "drop 12 bs \<noteq> []" by auto
  have "ParseAddr (IP_String bs) = Inr (if Is4In6 (Addr6 bs []) then Addr4 (drop 12 bs) else Addr6 bs [])"
    using print_parse [of "Addr6 bs []"] len by (simp add: wf_addr_def)
  with assms(1) have "a = (if Is4In6 (Addr6 bs []) then Addr4 (drop 12 bs) else Addr6 bs [])" by simp
  with len bs show ?thesis by (auto simp: IP_String_def)
qed

lemma in_order:
  assumes "vxlan_differs lan grp dev vx = Inr False" and "VxLANGrp lan = Some g" and "ParseAddr g = Inr grp"
    and "LKind l = Vxlan vx" and "length (Group vx) \<in> {4, 16}"
  shows "vxlan_for lan dev l"
proof -
  from assms(1) have "ParseAddr (IP_String (Group vx)) = Inr grp" "\<exists>vni. VNI lan = Some vni \<and> VxlanId vx = sint vni"
      "\<exists>port. VxPort lan = Some port \<and> Port vx = sint port" "VtepDevIndex vx = dev"
    by (auto simp: vxlan_differs_def outcome deref_Inr_iff)
  with same_text [OF this(1) assms(5)] assms(2-4) show ?thesis by (auto simp: vxlan_for_def)
qed

subsection \<open>Calls that keep the host well\<close>

definition stays :: "('w \<Rightarrow> bool) \<Rightarrow> ('w \<Rightarrow> 'r \<times> 'w) \<Rightarrow> bool" where
  "stays P m \<longleftrightarrow> (\<forall>w. P w \<longrightarrow> P (snd (m w)))"

lemma staysD: "stays P m \<Longrightarrow> P w \<Longrightarrow> m w = (r, w') \<Longrightarrow> P w'"
  unfolding stays_def by (metis snd_conv)

lemma stays_give: "stays P (give x)" and stays_raise: "stays P (raise e)"
  by (simp_all add: stays_def)

lemma stays_calling: "stays P m \<Longrightarrow> (\<And>x. stays P (k x)) \<Longrightarrow> stays P (calling m h k)"
  by (auto simp: stays_def calling_def attempt_def split: prod.split sum.split)

lemma stays_running: "stays P m \<Longrightarrow> (\<And>x. stays P (k x)) \<Longrightarrow> stays P (running m h k)"
  by (auto simp: stays_def running_def attempt_def split: prod.split sum.split)

lemma stays_evaluating: "(\<And>x. stays P (k x)) \<Longrightarrow> stays P (evaluating v k)"
  by (cases v) (auto simp: stays_def evaluating_def)

lemma stays_ignoring: "stays P m \<Longrightarrow> stays P k \<Longrightarrow> stays P (ignoring_error m k)"
  by (auto simp: stays_def ignoring_error_def split: prod.split sum.split fault.split)

lemma stays_branch: "stays P m \<Longrightarrow> (\<And>e. stays P (k1 e)) \<Longrightarrow> (\<And>x. stays P (k2 x)) \<Longrightarrow> stays P (branch m k1 k2)"
  by (auto simp: stays_def branch_def split: prod.split sum.split)

lemmas stays_rules = stays_give stays_raise stays_calling stays_running stays_evaluating stays_ignoring stays_branch

subsection \<open>The contract\<close>

text \<open>
  What a willing kernel does with VxLAN links beyond that: it refuses one as existing only for
  its name or its identifier, makes it stand on its underlay or on nothing, and takes it as a
  port of a bridge and up.
\<close>

locale joining_kernel = willing_kernel h links well busy
  for h :: "'w host" and links :: "'w \<Rightarrow> table" and well :: "'w \<Rightarrow> bool"
    and busy :: "'w \<Rightarrow> netns \<Rightarrow> int \<Rightarrow> MacvlanMode \<Rightarrow> bool" +
  assumes add_exists: "well w \<Longrightarrow> LinkAdd h HostNS l (Some ns) w = (Inl e, w') \<Longrightarrow> is_EEXIST e \<Longrightarrow>
      LKind l = Vxlan vx \<Longrightarrow> links w (ns, LName l) = None \<Longrightarrow>
      \<exists>k i vx'. links w k = Some i \<and> LKind (IfLink i) = Vxlan vx' \<and> VxlanId vx' = VxlanId vx"
    and vxlan_parent: "LinkAdd h HostNS l (Some ns) w = (Inr l', w') \<Longrightarrow> LKind l = Vxlan vx \<Longrightarrow>
      LParentIndex l = 0 \<Longrightarrow> links w' (ns, LName l) = Some i \<Longrightarrow> LParentIndex (IfLink i) \<in> {0, VtepDevIndex vx}"
    and vxlan_master_ok: "well w \<Longrightarrow> links w (ns, LName l) = Some i \<Longrightarrow> LIndex (IfLink i) = LIndex l \<Longrightarrow>
      LKind (IfLink i) = Vxlan vx \<Longrightarrow> bridge_at (links w) ns (LName br) (LIndex br) \<Longrightarrow>
      \<exists>w'. LinkSetMaster h ns l br w = (Inr (), w')"
    and vxlan_up_ok: "well w \<Longrightarrow> links w (ns, LName l) = Some i \<Longrightarrow> LIndex (IfLink i) = LIndex l \<Longrightarrow>
      LKind (IfLink i) = Vxlan vx \<Longrightarrow> \<exists>w'. LinkSetUp h ns l w = (Inr (), w')"
begin

lemma calm_stays: "(\<And>w. calmer well busy w (snd (m w))) \<Longrightarrow> stays well m"
  by (simp add: stays_def calmer_def)

lemma well_adds: "stays well (LinkAdd h ns l t)" and well_moves: "stays well (LinkSetNsFd h ns l ns')"
  using well_add well_set_ns unfolding stays_def by blast+

lemmas well_calls = calm_stays [OF calm_by_name] calm_stays [OF calm_enter] calm_stays [OF calm_up]
  calm_stays [OF calm_master] calm_stays [OF calm_mask] calm_stays [OF calm_del] well_adds well_moves

lemmas well_rules = stays_rules well_calls

lemma well_delete: "stays well (LinkDelete h ns n)"
  unfolding LinkDelete_def by (intro well_rules) (auto intro!: well_rules)

lemma well_bridge: "stays well (ensure_bridge h ns lan mtu)"
  unfolding ensure_bridge_def Let_def by (intro well_rules) (auto intro!: well_rules)

lemma well_check: "stays well (check_vxlan h ns lan idx)"
  unfolding check_vxlan_def by (intro well_rules) (auto intro!: well_rules split: link_kind.split)

lemma well_drop: "stays well (drop_vxlan h ns lan x)"
  unfolding drop_vxlan_def by (auto intro!: well_rules well_delete)

lemma well_spoke: "stays well (make_spoke h ns br t mtu)"
  unfolding make_spoke_def Let_def by (intro well_rules well_delete)

lemma well_lo: "stays well (lo_up h ns)"
  unfolding lo_up_def do_in_def by (intro well_rules)

subsection \<open>No stretch but one makes VxLAN links\<close>

lemma bridge_no_vxlan: "ensure_bridge h ns lan mtu w = (Inr br, w') \<Longrightarrow> no_new_vxlan (links w) (links w')"
  by (drule ensure_bridge_links) (auto intro!: no_new_upd)

lemma delete_no_vxlan: "LinkDelete h ns n w = (r, w') \<Longrightarrow> no_new_vxlan (links w) (links w')"
  by (drule LinkDelete_effect) (force simp: no_new_vxlan_def same_link_def dest: deleted_survivor)

lemma spoke_no_vxlan:
  assumes "make_spoke h ns br t mtu w = (Inr u, w')" and "ns \<noteq> HostNS"
  shows "no_new_vxlan (links w) (links w')"
proof -
  from make_spoke_links [OF assms] obtain r w1 i j where "LinkDelete h ns (getPeerVethName t) w = (r, w1)"
    "LKind (IfLink j) = Veth t" "LKind (IfLink i) = Veth (getPeerVethName t)"
    "links w' = (links w1)((ns, getPeerVethName t) \<mapsto> j, (HostNS, t) \<mapsto> i)" by blast
  with delete_no_vxlan show ?thesis by (auto intro!: no_new_upd)
qed

subsection \<open>The stretches of \<open>Ensure\<close>\<close>

lemma check_in_order:
  assumes "check_vxlan h ns lan dev w = (Inr False, w')" and "VxLANName lan = Some v"
    and "\<And>i. links w (ns, v) = Some i \<Longrightarrow> \<exists>vx. LKind (IfLink i) = Vxlan vx \<and> length (Group vx) \<in> {4, 16}"
  shows "\<exists>i. links w (ns, v) = Some i \<and> vxlan_for lan dev (IfLink i)"
proof -
  from assms(1,2) obtain g grp l vx where g: "VxLANGrp lan = Some g" "ParseAddr g = Inr grp"
    and l: "LinkByName h ns v w = (Inr l, w')" "LKind l = Vxlan vx" "vxlan_differs lan grp dev vx = Inr False"
    by (auto simp: check_vxlan_def effect outcome deref_Inr_iff split: link_kind.splits)
  from by_name [OF l(1)] obtain i where i: "links w (ns, v) = Some i" "IfLink i = l" by auto
  with assms(3) l(2) have "length (Group vx) \<in> {4, 16}" by fastforce
  with in_order [OF l(3) g l(2)] i show ?thesis by auto
qed

lemma drop_gone:
  assumes "drop_vxlan h ns lan True w = (Inr y, w')" and "well w" and "VxLANName lan = Some v"
    and "\<And>i. links w (ns, v) = Some i \<Longrightarrow> \<exists>vx. LKind (IfLink i) = Vxlan vx \<and> length (Group vx) \<in> {4, 16}"
  shows "y \<and> links w' (ns, v) = None \<and> no_new_vxlan (links w) (links w')"
proof -
  from assms(1,3) obtain r where r: "LinkDelete h ns v w = (r, w')" and y: "y"
    by (auto simp: drop_vxlan_def effect)
  have "gives (LinkDelete h ns v) w (\<lambda>_ w'. links w' (ns, v) = None)"
  proof (rule give_delete [where L = "links w" and F = "{}"])
    show "state w (links w) {}" using assms(2) by (simp add: state_def)
    show "removable (LKind (IfLink i))" if "links w (ns, v) = Some i" for i
      using assms(4) [OF that] by (auto simp: removable_def)
  qed (auto simp: state_def dest: removal_gone)
  with r y delete_no_vxlan [OF r] show ?thesis by (auto simp: gives_def)
qed

text \<open>The work inside the namespace: the VxLAN link is as it was, in order, or it is gone.\<close>

lemma setup_vxlan:
  assumes run: "setup_lan_ns h ns lan t mtu dev w = (Inr y, w')" and ns: "ns \<noteq> HostNS" and well: "well w"
    and names: "BridgeName lan = Some b" "VxLANName lan = Some v" "distinct [b, v, t, getPeerVethName t]"
    and kind: "\<And>i. links w (ns, v) = Some i \<Longrightarrow> \<exists>vx. LKind (IfLink i) = Vxlan vx \<and> length (Group vx) \<in> {4, 16}"
    and port: "\<And>i. links w (ns, v) = Some i \<Longrightarrow> vxlan_for lan dev (IfLink i) \<Longrightarrow>
      \<exists>bidx. bridge_at (links w) ns b bidx \<and> port_of i bidx"
    and nc: "\<And>i d. links w (ns, v) = Some i \<Longrightarrow> links w (ns, getPeerVethName t) = Some d \<Longrightarrow> \<not> cascades d i"
  shows "well w' \<and> no_new_vxlan (links w) (links w') \<and>
    (\<exists>bidx. bridge_at (links w') ns b bidx \<and>
      (if y then links w' (ns, v) = None
       else \<exists>i. links w (ns, v) = Some i \<and> links w' (ns, v) = Some i \<and> vxlan_for lan dev (IfLink i) \<and> port_of i bidx))"
proof -
  let ?p = "getPeerVethName t"
  from run obtain br w1 x w2 x' w3 where
    steps: "ensure_bridge h ns lan mtu w = (Inr br, w1)" "check_vxlan h ns lan dev w1 = (Inr x, w2)"
      "drop_vxlan h ns lan x w2 = (Inr y, w3)" "make_spoke h ns br t mtu w3 = (Inr (), w')"
    by (auto simp: setup_lan_ns_def effect)
  from make_spoke_links [OF steps(4) ns] obtain br' r w4 i j where br: "br = Some br'" and del: "LinkDelete h ns ?p w3 = (r, w4)"
    and L': "links w' = (links w4)((ns, ?p) \<mapsto> j, (HostNS, t) \<mapsto> i)" by blast
  from ensure_bridge_at [OF steps(1) [unfolded br]] names(1) have at1: "bridge_at (links w1) ns b (LIndex br')"
    and b: "LName br' = b" by auto
  have L2: "links w2 = links w1" by (rule check_vxlan_links [OF steps(2)])
  have v1: "links w1 (ns, v) = links w (ns, v)" "links w (ns, k) = Some m \<Longrightarrow> links w1 (ns, k) = Some m"
      "k \<noteq> b \<Longrightarrow> links w1 (ns, k) = links w (ns, k)" for k m
    using ensure_bridge_links [OF steps(1)] names(1,3) by auto
  have well': "well w2" "well w'"
    using well staysD [OF well_bridge _ steps(1)] staysD [OF well_check _ steps(2)] staysD [OF well_drop _ steps(3)]
      staysD [OF well_spoke _ steps(4)] by blast+
  have kind2: "\<exists>vx. LKind (IfLink i) = Vxlan vx \<and> length (Group vx) \<in> {4, 16}" if "links w2 (ns, v) = Some i" for i
    using kind [of i] that by (simp add: L2 v1)
  have drop: "y = x \<and> no_new_vxlan (links w2) (links w3) \<and> bridge_at (links w3) ns b (LIndex br') \<and>
      (if x then links w3 (ns, v) = None else links w3 = links w2)"
  proof (cases x)
    case True
    with drop_gone [OF _ well'(1) names(2) kind2] drop_vxlan_bridge [OF steps(3)] at1 L2 names steps(3) show ?thesis by auto
  next
    case False
    with steps(3) at1 L2 show ?thesis by (simp add: drop_vxlan_def)
  qed
  have new: "no_new_vxlan (links w) (links w')"
    using bridge_no_vxlan [OF steps(1)] drop spoke_no_vxlan [OF steps(4) ns] unfolding L2 by (metis no_new_trans)
  have at4: "bridge_at (links w4) ns b (LIndex br')"
    using LinkDelete_bridge [OF del] drop names(3) by auto
  then have at': "bridge_at (links w') ns b (LIndex br')"
    unfolding L' using names(3) ns by (auto simp: bridge_at_def)
  have same: "links w' (ns, v) = links w4 (ns, v)" using L' names(3) ns by simp
  show ?thesis
  proof (cases x)
    case True
    then have "links w' (ns, v) = None" using drop LinkDelete_none [OF del] same by simp
    with True drop well'(2) new at' show ?thesis by auto
  next
    case False
    with steps(2) have "check_vxlan h ns lan dev w1 = (Inr False, w2)" by simp
    from check_in_order [OF this names(2)] kind2 obtain i where
      i: "links w (ns, v) = Some i" "vxlan_for lan dev (IfLink i)" unfolding L2 v1 by blast
    from port [OF i] obtain bidx where at: "bridge_at (links w) ns b bidx" "port_of i bidx" by blast
    from at(1) at1 v1(2) have bidx: "bidx = LIndex br'" unfolding bridge_at_def by fastforce
    have i3: "links w3 (ns, v) = Some i" using drop False L2 v1(1) i(1) by simp
    have "\<not> cascades d i" if "links w3 (ns, ?p) = Some d" for d
      using nc [OF i(1), of d] that drop False L2 v1(3) [of ?p] names(3) by auto
    moreover have "master_there (links w4) (ns, v) i"
      using at4 at(2) bidx by (auto simp: master_there_def port_of_def bridge_at_def)
    ultimately have "links w4 (ns, v) = Some i" using LinkDelete_same [OF del i3] names(3) by auto
    with False drop well'(2) new at' same i at(2) bidx show ?thesis by auto
  qed
qed

lemma give_vxlan_master:
  assumes s: "state w L F" and i: "L (ns, LName l) = Some i" "LIndex (IfLink i) = LIndex l"
    and kind: "LKind (IfLink i) = Vxlan vx" "bridge_at L ns (LName b) (LIndex b)"
    and Q: "\<And>w'. state w' (L((ns, LName l) \<mapsto> i\<lparr>IfMaster := Some (LIndex b)\<rparr>)) F \<Longrightarrow> Q () w'"
  shows "gives (LinkSetMaster h ns l b) w Q"
proof -
  from s i kind vxlan_master_ok [of w ns l i vx b] obtain w' where call: "LinkSetMaster h ns l b w = (Inr (), w')"
    by (auto simp: state_def)
  from set_master [OF call] i s have "links w' = L((ns, LName l) \<mapsto> i\<lparr>IfMaster := Some (LIndex b)\<rparr>)"
    by (simp add: state_def)
  with state_calm [of w "LinkSetMaster h ns l b", OF calm_master s call] call Q show ?thesis by (auto simp: gives_def)
qed

lemma give_vxlan_up:
  assumes s: "state w L F" and i: "L (ns, LName l) = Some i" "LIndex (IfLink i) = LIndex l" "LKind (IfLink i) = Vxlan vx"
    and Q: "\<And>w'. state w' (L((ns, LName l) \<mapsto> i\<lparr>IfUp := True\<rparr>)) F \<Longrightarrow> Q () w'"
  shows "gives (LinkSetUp h ns l) w Q"
proof -
  from s i vxlan_up_ok [of w ns l i vx] obtain w' where call: "LinkSetUp h ns l w = (Inr (), w')" by (auto simp: state_def)
  from set_up [OF call] i s have "links w' = L((ns, LName l) \<mapsto> i\<lparr>IfUp := True\<rparr>)" by (simp add: state_def)
  with state_calm [of w "LinkSetUp h ns l", OF calm_up s call] call Q show ?thesis by (auto simp: gives_def)
qed

text \<open>Attaching a VxLAN link that is there succeeds.\<close>

lemma give_attach:
  assumes s: "state w L F" and names: "VxLANName lan = Some v" "BridgeName lan = Some b" "b \<noteq> v"
    and i: "L (ns, v) = Some i" "LKind (IfLink i) = Vxlan vx" "length (Group vx) \<in> {4, 16}"
    and br: "bridge_at L ns b bidx"
    and Q: "\<And>w'. state w' (L((ns, v) \<mapsto> i\<lparr>IfMaster := Some bidx, IfMask := BRSlaveGrpFwdMask, IfUp := True\<rparr>)) F \<Longrightarrow> Q () w'"
  shows "gives (do_in h ns (attach_vxlan h ns lan)) w Q"
proof -
  from br obtain k where k: "L (ns, b) = Some k" "LKind (IfLink k) = Bridge" "LIndex (IfLink k) = bidx"
    by (auto simp: bridge_at_def)
  let ?l = "IfLink i" and ?i1 = "i\<lparr>IfMaster := Some bidx\<rparr>"
  let ?i2 = "?i1\<lparr>IfMask := BRSlaveGrpFwdMask\<rparr>"
  have up: "gives (LinkSetUp h ns ?l) w (\<lambda>x w. gives (give x) w Q)"
    if "state w (L((ns, v) \<mapsto> ?i2)) F" "LName ?l = v" for w
    by (rule give_vxlan_up [where L = "L((ns, v) \<mapsto> ?i2)" and F = F and i = ?i2 and vx = vx]) (use that i Q in simp_all)
  have mask: "gives (LinkSetFwdMask h ns ?l BRSlaveGrpFwdMask) w (\<lambda>_ w. gives (LinkSetUp h ns ?l) w (\<lambda>x w. gives (give x) w Q))"
    if "state w (L((ns, v) \<mapsto> ?i1)) F" "LName ?l = v" for w
    by (rule give_mask [where L = "L((ns, v) \<mapsto> ?i1)" and F = F and i = ?i1 and bidx = bidx]) (use that i up in simp_all)
  have master: "gives (LinkSetMaster h ns ?l (IfLink k)) w (\<lambda>_ w. gives (LinkSetFwdMask h ns ?l BRSlaveGrpFwdMask) w (\<lambda>_ w.
      gives (LinkSetUp h ns ?l) w (\<lambda>x w. gives (give x) w Q)))"
    if "state w L F" "LName ?l = v" "LName (IfLink k) = b" for w
    by (rule give_vxlan_master [where L = L and F = F and i = i and vx = vx]) (use that i k br mask in simp_all)
  show ?thesis
    unfolding attach_vxlan_def gives_do_in names deref_simps evaluating_Inr gives_calling
  proof (rule give_enter [OF s], rule give_find [where L = L and F = F and i = i], assumption, rule i(1))
    show "readable (LKind (IfLink i))" using i(2,3) by simp
    fix w1 assume s1: "state w1 L F" and n: "LName (IfLink i) = v"
    show "gives (LinkByName h ns b) w1 (\<lambda>x w. gives (LinkSetMaster h ns ?l x) w (\<lambda>_ w.
        gives (LinkSetFwdMask h ns ?l BRSlaveGrpFwdMask) w (\<lambda>_ w. gives (LinkSetUp h ns ?l) w (\<lambda>x w. gives (give x) w Q))))"
      by (rule give_find [where L = L and F = F and i = k, OF s1 k(1)]) (use k(2) master n in simp_all)
  qed
qed

lemma add_vxlan_joins:
  assumes run: "add_vxlan h ns lan dev mtu True w = (Inr u, w')" and well: "well w"
    and names: "VxLANName lan = Some v" "BridgeName lan = Some b" "b \<noteq> v" and vni: "VNI lan = Some vni"
    and br: "bridge_at (links w) ns b bidx" and free: "links w (ns, v) = None" "vni_free (links w) ns v (sint vni)"
  shows "(\<exists>i. links w' (ns, v) = Some i \<and> vxlan_for lan dev (IfLink i) \<and> port_of i bidx \<and> LParentIndex (IfLink i) \<in> {0, dev}) \<and>
    (\<forall>k. k \<noteq> (ns, v) \<longrightarrow> links w' k = links w k)"
proof -
  from run obtain port :: int32 and w1 r where port: "VxPort lan = Some port"
    and create: "CreateVXLANIF h lan dev ns mtu (sint port) w = (Inr (), w1)"
    and att: "do_in h ns (attach_vxlan h ns lan) w1 = (r, w')"
    by (auto simp: add_vxlan_def effect deref_Inr_iff)
  from create names(1) vni obtain g grp r0 where g: "VxLANGrp lan = Some g" "ParseAddr g = Inr grp"
    and ens: "ensureVXLANIf h v dev ns (sint vni) grp (word_of_int mtu) (sint port) w = (r0, w1)"
    and r0: "r0 = Inr () \<or> (\<exists>e. r0 = Inl (Error e) \<and> is_EEXIST e)"
    by (auto simp: CreateVXLANIF_def effect outcome deref_Inr_iff split: fault.splits if_splits)
  let ?l = "vxlan_link v dev (sint vni) grp (word_of_int mtu) (sint port)"
  obtain vx where l: "LName ?l = v" "LKind ?l = Vxlan vx" "LParentIndex ?l = 0"
    and vx: "VxlanId vx = sint vni" "VtepDevIndex vx = dev" "Port vx = sint port" "Group vx = AsSlice grp"
    by (simp add: vxlan_link_def no_attrs_def)
  obtain a where add: "LinkAdd h HostNS ?l (Some ns) w = (a, w1)" and a: "a = Inl e \<Longrightarrow> is_EEXIST e" for e
    using ens r0 by (cases "LinkAdd h HostNS ?l (Some ns) w"; cases "fst (LinkAdd h HostNS ?l (Some ns) w)")
      (auto simp: ensureVXLANIf_def both_ways split: if_splits)
  have "a \<noteq> Inl e" for e
  proof
    assume e: "a = Inl e"
    from add_exists [OF well add [unfolded e] a [OF e] l(2)] free vx(1) l(1) show False by (fastforce simp: vni_free_def)
  qed
  then obtain l' where l': "LinkAdd h HostNS ?l (Some ns) w = (Inr l', w1)" using add by (cases a) auto
  from add_into [OF l'] l obtain idx i where i: "fresh_iface (?l\<lparr>LIndex := idx\<rparr>) i"
    and L1: "links w1 = (links w)((ns, v) \<mapsto> i)" by auto
  then have kind: "LKind (IfLink i) = Vxlan vx" using l(2) by (simp add: fresh_iface_def)
  have par: "LParentIndex (IfLink i) \<in> {0, dev}" using vxlan_parent [OF l' l(2,3), of i] l(1) L1 vx(2) by simp
  have for_lan: "vxlan_for lan dev (IfLink i)" using kind g vni port vx by (auto simp: vxlan_for_def)
  have len: "length (Group vx) \<in> {4, 16}" using ParseAddr_wf [OF g(2)] vx(4) by (cases grp) (auto simp: wf_addr_def)
  have "well w1" using staysD [OF well_adds well l'] .
  then have s1: "state w1 (links w1) {}" by (simp add: state_def)
  have br1: "bridge_at (links w1) ns b bidx" using br L1 names(3) by (simp add: bridge_at_def)
  have "gives (do_in h ns (attach_vxlan h ns lan)) w1
      (\<lambda>_ w'. links w' = (links w1)((ns, v) \<mapsto> i\<lparr>IfMaster := Some bidx, IfMask := BRSlaveGrpFwdMask, IfUp := True\<rparr>))"
    by (rule give_attach [OF s1 names _ kind len br1]) (use L1 in \<open>simp_all add: state_def\<close>)
  with att L1 for_lan par show ?thesis by (auto simp: gives_def port_of_def)
qed

text \<open>The macvtap of the call leaves the VxLAN link alone.\<close>

lemma make_macvtap_vxlan:
  assumes run: "make_macvtap h name t mode dummy w = (Inr idx, w')" and ns: "ns \<noteq> HostNS" and name: "name \<noteq> dummyIfName"
    and i: "links w (ns, v) = Some i" "port_of i bidx" and br: "bridge_at (links w) ns b bidx"
    and nc: "\<And>d. links w (HostNS, name) = Some d \<Longrightarrow> \<not> cascades d i"
  shows "links w' (ns, v) = Some i"
proof -
  have recreate: "links w' (ns, v) = Some i"
    if run: "RecreateMacvtap h name m mode w = (Inr idx, w')" and i: "links w (ns, v) = Some i" and br: "bridge_at (links w) ns b bidx"
      and nc: "\<And>d. links w (HostNS, name) = Some d \<Longrightarrow> \<not> cascades d i" for m mode w
  proof -
    from run obtain w1 where del: "LinkDelete h HostNS name w = (Inr (), w1)" and
      make: "CreateMacvtap h name m mode w1 = (Inr idx, w')" by (auto simp: RecreateMacvtap_def effect)
    have "bridge_at (links w1) ns b bidx"
    proof -
      from br obtain k where k: "links w (ns, b) = Some k" "LKind (IfLink k) = Bridge" "LIndex (IfLink k) = bidx"
        by (auto simp: bridge_at_def)
      from LinkDelete_frame [OF del k(1)] ns k cascades_base show ?thesis by (fastforce simp: bridge_at_def same_link_def)
    qed
    then have "master_there (links w1) (ns, v) i" using \<open>port_of i bidx\<close> by (auto simp: master_there_def port_of_def bridge_at_def)
    with LinkDelete_same [OF del i _ nc] ns have "links w1 (ns, v) = Some i" by auto
    with CreateMacvtap_effect [OF make] ns show ?thesis by auto
  qed
  show ?thesis
  proof (cases dummy)
    case False
    with recreate [OF _ i(1) br nc] run show ?thesis by (auto simp: make_macvtap_def)
  next
    case True
    with run obtain w1 where dum: "ensure_dummy h w = (Inr (), w1)"
      and rest: "RecreateMacvtap h name dummyIfName ''private'' w1 = (Inr idx, w')"
      by (auto simp: make_macvtap_def effect)
    have "links w1 k = links w k" if "k \<noteq> (HostNS, dummyIfName)" for k
      using dum that by (auto simp: ensure_dummy_def effect no_attrs_def dest!: by_name by_name_err add)
    with recreate [OF rest] i(1) br nc ns name show ?thesis by (auto simp: bridge_at_def)
  qed
qed

subsection \<open>The node joins the LAN\<close>

lemma lo_up_links:
  assumes "lo_up h ns w = (Inr u, w')"
  shows "\<exists>i. links w (ns, ''lo'') = Some i \<and> links w' = (links w)((ns, ''lo'') \<mapsto> i\<lparr>IfUp := True\<rparr>)"
proof -
  from assms obtain w1 l w2 where run: "EnterNS h ns w = (Inr (), w1)" "LinkByName h ns ''lo'' w1 = (Inr l, w2)"
    "LinkSetUp h ns l w2 = (Inr (), w')" by (auto simp: lo_up_def effect)
  from by_name [OF run(2)] enter [of ns w] run(1) obtain i where
    "links w2 = links w" "LName l = ''lo''" "links w (ns, ''lo'') = Some i" "IfLink i = l" by auto
  with set_up [OF run(3), of i] show ?thesis by auto
qed

text \<open>Nothing new appears on the host but the spoke.\<close>

lemma setup_survivor:
  assumes run: "setup_lan_ns h ns lan t mtu dev w = (Inr y, w')" and ns: "ns \<noteq> HostNS" and n: "n \<noteq> t"
    and k: "links w' (HostNS, n) = Some k"
  shows "\<exists>k0. links w (HostNS, n) = Some k0 \<and> IfLink k0 = IfLink k"
proof -
  have before: "\<exists>i. links w (HostNS, n) = Some i \<and> IfLink i = IfLink k"
    if "LinkDelete h ns m w = (r, w')" "links w' (HostNS, n) = Some k" for m w r w' k
    using LinkDelete_effect [OF that(1)] that(2) by (auto simp: same_link_def dest!: deleted_survivor)
  from run obtain br w1 x w2 w3 where
    steps: "ensure_bridge h ns lan mtu w = (Inr br, w1)" "check_vxlan h ns lan dev w1 = (Inr x, w2)"
      "drop_vxlan h ns lan x w2 = (Inr y, w3)" "make_spoke h ns br t mtu w3 = (Inr (), w')"
    by (auto simp: setup_lan_ns_def effect)
  from make_spoke_links [OF steps(4) ns] obtain r w4 i j where del: "LinkDelete h ns (getPeerVethName t) w3 = (r, w4)"
    and "links w' = (links w4)((ns, getPeerVethName t) \<mapsto> j, (HostNS, t) \<mapsto> i)" by blast
  with k n ns have "links w4 (HostNS, n) = Some k" by auto
  from before [OF del this] obtain k3 where k3: "links w3 (HostNS, n) = Some k3" "IfLink k3 = IfLink k" by blast
  have "\<exists>k2. links w2 (HostNS, n) = Some k2 \<and> IfLink k2 = IfLink k3"
  proof (cases x)
    case True
    with steps(3) obtain v r where "LinkDelete h ns v w2 = (r, w3)" by (auto simp: drop_vxlan_def effect deref_Inr_iff)
    from before [OF this k3(1)] show ?thesis .
  next
    case False
    with steps(3) k3 show ?thesis by (simp add: drop_vxlan_def)
  qed
  with k3(2) check_vxlan_links [OF steps(2)] ensure_bridge_links [OF steps(1)] ns show ?thesis by auto
qed

lemma Ensure_vxlan:
  assumes run: "Ensure h name t lan hostname mode dummy w = (Inr idx, w')"
    and opened: "NS lan = Some n" "open_lan_ns h n w = (Inr ns, w1)" "well w1"
    and names: "BridgeName lan = Some b" "VxLANName lan = Some v" "VNI lan = Some vni" "names_apart lan t"
    and name: "name \<notin> {t, getPeerVethName t, dummyIfName}"
    and d: "links w1 (HostNS, vx_dev_name lan hostname) = Some d" "dev = LIndex (IfLink d)"
    and ready: "underlay_ready (links w1) ns lan b v vni dev t name"
  shows "\<exists>bidx. attached (links w') ns b bidx t \<and> vxlan_port_at (links w') ns lan dev v bidx"
proof -
  let ?p = "getPeerVethName t"
  from run opened(1,2) obtain dl and w2 w3 w4 y w5 w6 w7 where
    steps: "lo_up h ns w1 = (Inr (), w2)" "LinkByName h HostNS (vx_dev_name lan hostname) w2 = (Inr dl, w3)"
      "EnterNS h ns w3 = (Inr (), w4)"
      "setup_lan_ns h ns lan t (LMTU dl - maxVxLANEncapOverhead) (LIndex dl) w4 = (Inr y, w5)"
      "add_vxlan h ns lan (LIndex dl) (LMTU dl - maxVxLANEncapOverhead) y w5 = (Inr (), w6)"
      "spoke_up h t w6 = (Inr (), w7)" "make_macvtap h name t mode dummy w7 = (Inr idx, w')"
    by (auto simp: Ensure_def effect Let_def)
  have ns: "ns \<noteq> HostNS" using open_lan_ns_get [OF opened(2)] get_ns by blast
  from names have dist: "distinct [b, v, t, ?p]" by (auto simp: names_apart_def)
  from lo_up_links [OF steps(1)] obtain lo where lo: "links w1 (ns, ''lo'') = Some lo"
    "links w2 = (links w1)((ns, ''lo'') \<mapsto> lo\<lparr>IfUp := True\<rparr>)" by blast
  have L4: "links w4 = links w2" using by_name [OF steps(2)] enter [of ns w3] steps(3) by simp
  have w4: "well w4" using staysD [OF well_lo opened(3) steps(1)] staysD [OF calm_stays [OF calm_by_name] _ steps(2)]
    staysD [OF calm_stays [OF calm_enter] _ steps(3)] by blast
  have dl: "LIndex dl = dev" using by_name [OF steps(2)] lo(2) d ns by auto
  have old: "\<exists>i1. links w1 k = Some i1 \<and> IfLink i = IfLink i1 \<and> (port_of i1 bidx \<longrightarrow> i = i1)"
    if "links w4 k = Some i" for k i bidx
    using that lo unfolding L4 by (auto simp: port_of_def intro: iface.equality split: if_splits)
  have new4: "no_new_vxlan (links w1) (links w4)" using old unfolding no_new_vxlan_def by metis
  have at4: "bridge_at (links w4) ns b bidx" if "bridge_at (links w1) ns b bidx" for bidx
    using that lo unfolding L4 by (auto simp: bridge_at_def)
  have kind: "\<exists>vx. LKind (IfLink i) = Vxlan vx \<and> length (Group vx) \<in> {4, 16}" if "links w4 (ns, v) = Some i" for i
    using old [OF that] ready unfolding underlay_ready_def by metis
  have port: "\<exists>bidx. bridge_at (links w4) ns b bidx \<and> port_of i bidx"
    if i: "links w4 (ns, v) = Some i" "vxlan_for lan dev (IfLink i)" for i
  proof -
    from old [OF i(1)] obtain i1 where i1: "links w1 (ns, v) = Some i1" "IfLink i = IfLink i1" by blast
    with ready i(2) obtain bidx where bidx: "bridge_at (links w1) ns b bidx" "port_of i1 bidx"
      unfolding underlay_ready_def by metis
    from old [OF i(1), of bidx] i1 bidx(2) have "i = i1" by auto
    with bidx at4 show ?thesis by blast
  qed
  have nc: "\<not> cascades e i" if i: "links w4 (ns, v) = Some i" and e: "links w4 (ns, ?p) = Some e" for i e
  proof -
    from old [OF i] obtain i1 where i1: "links w1 (ns, v) = Some i1" "IfLink i = IfLink i1" by blast
    from old [OF e] obtain e1 where e1: "links w1 (ns, ?p) = Some e1" "IfLink e = IfLink e1" by blast
    from ready i1(1) have "apart (view (links w1)) ns {?p} (IfLink i1)" by (simp add: underlay_ready_def)
    with apart_cascades [of "links w1" ns "{?p}" i1 ?p e1] e1 i1(2) show ?thesis by (simp add: cascades_def)
  qed
  from setup_vxlan [OF steps(4) [unfolded dl] ns w4 names(1,2) dist kind port nc] obtain bidx where
    w5: "well w5" and new5: "no_new_vxlan (links w4) (links w5)" and at5: "bridge_at (links w5) ns b bidx" and
    v5: "if y then links w5 (ns, v) = None
      else \<exists>i. links w4 (ns, v) = Some i \<and> links w5 (ns, v) = Some i \<and> vxlan_for lan dev (IfLink i) \<and> port_of i bidx"
    by blast
  have joined: "(\<exists>i. links w6 (ns, v) = Some i \<and> vxlan_for lan dev (IfLink i) \<and> port_of i bidx \<and> LParentIndex (IfLink i) \<in> {0, dev}) \<and>
    (\<forall>k. k \<noteq> (ns, v) \<longrightarrow> links w6 k = links w5 k)"
  proof (cases y)
    case True
    have free: "vni_free (links w5) ns v (sint vni)"
      using ready vni_free_later no_new_trans [OF new4 new5] unfolding underlay_ready_def by blast
    from steps(5) True have run: "add_vxlan h ns lan dev (LMTU dl - maxVxLANEncapOverhead) True w5 = (Inr (), w6)" by (simp add: dl)
    with add_vxlan_joins [OF run w5 names(2,1) _ names(3) at5 _ free] v5 True dist show ?thesis by auto
  next
    case False
    with v5 obtain i where i: "links w4 (ns, v) = Some i" "links w5 (ns, v) = Some i" "vxlan_for lan dev (IfLink i)" "port_of i bidx"
      by auto
    from old [OF i(1)] ready i(3) have "LParentIndex (IfLink i) \<in> {0, dev}" unfolding underlay_ready_def by metis
    with i steps(5) False show ?thesis by (simp add: add_vxlan_def)
  qed
  then obtain i where i: "links w6 (ns, v) = Some i" "vxlan_for lan dev (IfLink i)" "port_of i bidx" "LParentIndex (IfLink i) \<in> {0, dev}"
    and L6: "\<And>k. k \<noteq> (ns, v) \<Longrightarrow> links w6 k = links w5 k" by blast
  from spoke_up_effect [OF steps(6)] obtain s where
    s: "links w6 (HostNS, t) = Some s" "links w7 = (links w6)((HostNS, t) \<mapsto> s\<lparr>IfUp := True\<rparr>)" by blast
  from setup_lan_ns_effect [OF steps(4) ns] names(1,2) dist obtain bidx0 where
    three: "bridge_at (links w5) ns b bidx0" "veth_port_at (links w5) ns ?p t bidx0" "veth_at (links w5) HostNS t ?p" by auto
  from three(1) at5 have same: "bidx0 = bidx" by (auto simp: bridge_at_def)
  have att7: "attached (links w7) ns b bidx t"
    using three same s L6 dist ns by (auto simp: attached_def bridge_at_def veth_port_at_def veth_at_def veth_up_at_def)
  from make_macvtap_effect [OF steps(7) att7 ns] name have att: "attached (links w') ns b bidx t" by auto
  have i7: "links w7 (ns, v) = Some i" using i(1) s(2) ns by simp
  have "\<not> cascades e i" if e: "links w7 (HostNS, name) = Some e" for e
  proof -
    from e name s(2) L6 ns have "links w5 (HostNS, name) = Some e" by auto
    from setup_survivor [OF steps(4) ns _ this] name obtain e4 where "links w4 (HostNS, name) = Some e4" "IfLink e4 = IfLink e" by auto
    with old obtain e1 where "links w1 (HostNS, name) = Some e1" "IfLink e1 = IfLink e" by metis
    with ready have "LIndex (IfLink e) \<notin> {0, dev}" unfolding underlay_ready_def by metis
    moreover obtain vx where "LKind (IfLink i) = Vxlan vx" using i(2) by (auto simp: vxlan_for_def)
    ultimately show ?thesis using i(4) by (auto simp: cascades_def)
  qed
  with make_macvtap_vxlan [OF steps(7) ns _ i7 i(3), of b] att7 name have "links w' (ns, v) = Some i"
    by (auto simp: attached_def)
  with att i(2,3) show ?thesis by (auto simp: vxlan_port_at_def)
qed

end

end
