(* ===== verification/CniVeth.thy ===== *)
theory CniVeth
  imports NetHost "HOL-Library.Multiset"
begin

section \<open>The CNI plugin that moves a spoke into a pod\<close>

text \<open>
  Models \<open>cni/k8slanveth/main.go\<close>. The CNI libraries (the JSON decoder, the parser of earlier
  results, the IPAM plugins it runs, the printer of results) are fields of \<open>cni_host\<close>, which
  extends the host of \<open>NetHost\<close>. The program never looks into the addresses and routes that an
  IPAM plugin returns.
\<close>

subsection \<open>Data\<close>

record IPConfig =
  IPInterface :: "int option"
  Address :: string
  Gateway :: string

record Route =
  Dst :: string
  GW :: string

record DNS =
  Nameservers :: "string slice"
  Domain :: string
  Search :: "string slice"
  Options :: "string slice"

text \<open>The fields of the configuration that are read after it is parsed.\<close>

record PluginConf =
  CNIVersion :: string
  IPAMType :: string
  ConfDNS :: DNS
  VethName :: string
  EnableDad :: bool

record CmdArgs =
  Netns :: string
  IfName :: string
  Args :: string
  StdinData :: string

record cni_interface =
  PodIfName :: string
  Mac :: string
  Sandbox :: string

record cni_result =
  ResultVersion :: string
  ResultInterfaces :: "cni_interface list"
  IPs :: "IPConfig slice"
  Routes :: "Route slice"
  ResultDNS :: DNS

definition no_dns :: DNS where
  "no_dns = \<lparr>Nameservers = None, Domain = '''', Search = None, Options = None\<rparr>"

record ('w, 'r) cni_host = "'w host" +
  Unmarshal :: "string \<Rightarrow> go_error + PluginConf"
  ParsePrevResult :: "PluginConf \<Rightarrow> go_error + PluginConf"
  HardwareAddr :: "link \<Rightarrow> string"
  NSPath :: "netns \<Rightarrow> string"
  ImplementedSpecVersion :: string
  ExecAdd :: "string \<Rightarrow> string \<Rightarrow> ('w, 'r) call"
  ExecDel :: "string \<Rightarrow> string \<Rightarrow> ('w, unit) call"
  ExecStatus :: "string \<Rightarrow> string \<Rightarrow> ('w, unit) call"
  NewResultFromResult :: "'r \<Rightarrow> go_error + cni_result"
  Sysctl :: "string \<Rightarrow> string \<Rightarrow> ('w, string) call"
  ConfigureIface :: "netns \<Rightarrow> string \<Rightarrow> cni_result \<Rightarrow> ('w, unit) call"
  PrintResult :: "cni_result \<Rightarrow> string \<Rightarrow> ('w, unit) call"


subsection \<open>Commands\<close>

definition parseConfig :: "('w, 'r) cni_host \<Rightarrow> string \<Rightarrow> PluginConf verdict" where
  "parseConfig H stdin =
     (case Unmarshal H stdin of
       Inl err \<Rightarrow> Inl (Error (Note ''failed to parse network configuration'' err))
     | Inr conf \<Rightarrow>
         (case ParsePrevResult H conf of
           Inl err \<Rightarrow> Inl (Error (Note ''could not parse prevResult'' err))
         | Inr conf' \<Rightarrow> Inr conf'))"

definition dnsConfSet :: "DNS \<Rightarrow> bool" where
  "dnsConfSet d \<longleftrightarrow> Nameservers d \<noteq> None \<or> Search d \<noteq> None \<or> Options d \<noteq> None \<or> Domain d \<noteq> ''''"

definition rename_in_pod :: "('w, 'r) cni_host \<Rightarrow> netns \<Rightarrow> link \<Rightarrow> string \<Rightarrow> ('w, link) act" where
  "rename_in_pod H podNS vlink ifname =
     do_in (host.truncate H) podNS
       (calling (LinkSetName H podNS vlink ifname) (\<lambda>e. e) (\<lambda>_.
        calling (LinkByName H podNS ifname) (\<lambda>e. e) give))"

text \<open>\<open>_, _ = sysctl.Sysctl(name, value)\<close>.\<close>

definition set_sysctl :: "('w, 'r) cni_host \<Rightarrow> string \<Rightarrow> string \<Rightarrow> ('w, 'b) act \<Rightarrow> ('w, 'b) act" where
  "set_sysctl H name v k = ignoring_error (calling (Sysctl H name v) (\<lambda>e. e) (\<lambda>_. give ())) k"

definition configure_pod ::
    "('w, 'r) cni_host \<Rightarrow> netns \<Rightarrow> bool \<Rightarrow> string \<Rightarrow> cni_result \<Rightarrow> ('w, unit) act" where
  "configure_pod H podNS enableDad ifname result =
     do_in (host.truncate H) podNS
       ((if enableDad then
           (\<lambda>k. set_sysctl H (''/net/ipv6/conf/'' @ ifname @ ''/enhanced_dad'') ''1''
                  (set_sysctl H (''net/ipv6/conf/'' @ ifname @ ''/accept_dad'') ''1'' k))
         else set_sysctl H (''net/ipv6/conf/'' @ ifname @ ''/accept_dad'') ''0'')
        (set_sysctl H (''net/ipv4/conf/'' @ ifname @ ''/arp_notify'') ''1''
          (calling (ConfigureIface H podNS ifname result) (\<lambda>e. e) give)))"

text \<open>
  The deferred release: it runs \<open>ExecDel\<close> when the function returns before \<open>success\<close> is
  set. Nothing can fail between the end of this stretch and that assignment.
\<close>

definition release_on_failure :: "('w, 'a) act \<Rightarrow> ('w, unit) call \<Rightarrow> ('w, 'a) act" where
  "release_on_failure m release =
     (\<lambda>w. case m w of (Inl f, w') \<Rightarrow> (Inl f, snd (release w')) | (Inr x, w') \<Rightarrow> (Inr x, w'))"

definition apply_ipam ::
    "('w, 'r) cni_host \<Rightarrow> PluginConf \<Rightarrow> CmdArgs \<Rightarrow> netns \<Rightarrow> cni_result \<Rightarrow> ('w, cni_result) act" where
  "apply_ipam H conf args podNS result =
     calling (ExecAdd H (IPAMType conf) (StdinData args)) (\<lambda>e. e) (\<lambda>r.
     release_on_failure
       (case NewResultFromResult H r of
          Inl err \<Rightarrow> raise (Error err)
        | Inr ipamResult \<Rightarrow>
            let result' = result\<lparr>IPs := IPs ipamResult, Routes := Routes ipamResult,
                                 ResultDNS := ResultDNS ipamResult\<rparr>
            in if length (elems (IPs result')) = 0
               then raise (Error (OtherErr ''IPAM plugin returned missing IP config''))
               else running (configure_pod H podNS (EnableDad conf) (IfName args) result')
                      (\<lambda>e. e) (\<lambda>_. give result'))
       (ExecDel H (IPAMType conf) (StdinData args)))"

text \<open>The part of \<open>cmdAdd\<close> after the link is in the pod under its new name.\<close>

definition finish_add ::
    "('w, 'r) cni_host \<Rightarrow> PluginConf \<Rightarrow> CmdArgs \<Rightarrow> netns \<Rightarrow> link \<Rightarrow> ('w, unit) act" where
  "finish_add H conf args podNS vlink =
     (let result = \<lparr>ResultVersion = ImplementedSpecVersion H,
           ResultInterfaces = [\<lparr>PodIfName = LName vlink, Mac = HardwareAddr H vlink, Sandbox = NSPath H podNS\<rparr>],
           IPs = None, Routes = None, ResultDNS = no_dns\<rparr>
      in running (if IPAMType conf \<noteq> '''' then apply_ipam H conf args podNS result else give result)
           (\<lambda>e. e) (\<lambda>result'.
         let result'' = (if dnsConfSet (ConfDNS conf) then result'\<lparr>ResultDNS := ConfDNS conf\<rparr> else result')
         in calling (PrintResult H result'' (CNIVersion conf)) (\<lambda>e. e) give))"

definition cmdAdd :: "('w, 'r) cni_host \<Rightarrow> CmdArgs \<Rightarrow> ('w, unit) act" where
  "cmdAdd H args =
     evaluating (parseConfig H (StdinData args)) (\<lambda>conf.
     calling (GetNS H (Netns args)) (Note ''failed to open pod netns'') (\<lambda>podNS.
     calling (LinkByName H HostNS (VethName conf)) (Wrap ''failed to locate veth interface'') (\<lambda>vlink.
     calling (LinkSetNsFd H HostNS vlink podNS) (Wrap ''failed to move veth interface'') (\<lambda>_.
     running (rename_in_pod H podNS vlink (IfName args)) (Wrap ''failed to rename veth interface'') (\<lambda>vlink'.
     finish_add H conf args podNS vlink')))))"

definition cmdDel :: "('w, 'r) cni_host \<Rightarrow> CmdArgs \<Rightarrow> ('w, unit) act" where
  "cmdDel H args = evaluating (parseConfig H (StdinData args)) (\<lambda>_. give ())"

definition cmdCheck :: "CmdArgs \<Rightarrow> ('w, unit) act" where
  "cmdCheck args = raise (Error (OtherErr ''not implemented''))"

definition cmdStatus :: "('w, 'r) cni_host \<Rightarrow> CmdArgs \<Rightarrow> ('w, unit) act" where
  "cmdStatus H args =
     evaluating (parseConfig H (StdinData args)) (\<lambda>conf.
     calling (ExecStatus H (IPAMType conf) (StdinData args)) (\<lambda>e. e) give)"

subsection \<open>No command panics\<close>

lemma parseConfig_no_panic [simp]: "\<not> panics (parseConfig H d)"
  by (auto simp: parseConfig_def split: sum.split)

lemma crashes_set_sysctl: "crashes (set_sysctl H n v k) w \<Longrightarrow> \<exists>w'. crashes k w'"
  by (auto simp: set_sysctl_def crashes_rules)

lemma configure_pod_no_crash: "\<not> crashes (configure_pod H podNS dad ifname result) w"
  by (auto simp: configure_pod_def crashes_rules split: if_splits dest!: crashes_set_sysctl)

lemma crashes_release [simp]: "crashes (release_on_failure m k) w \<longleftrightarrow> crashes m w"
  by (cases "m w"; cases "fst (m w)") (auto simp: crashes_def release_on_failure_def)

lemma apply_ipam_no_crash: "\<not> crashes (apply_ipam H conf args podNS result) w"
  by (auto simp: apply_ipam_def crashes_rules Let_def configure_pod_no_crash split: sum.splits if_splits)

lemma finish_add_no_crash: "\<not> crashes (finish_add H conf args podNS l) w"
  by (auto simp: finish_add_def crashes_rules Let_def apply_ipam_no_crash split: if_splits)

lemma cmdAdd_no_crash: "\<not> crashes (cmdAdd H args) w"
  by (auto simp: cmdAdd_def rename_in_pod_def crashes_rules finish_add_no_crash)

subsection \<open>Leases of the IPAM plugin\<close>

text \<open>
  What the plugin relies on in the IPAM plugins it runs: an ADD that succeeds allocates, one
  that fails does not, a DEL releases, whatever it returns; the other calls have nothing to do
  with it. An allocation is the type of the IPAM plugin with the configuration it was given.
\<close>

text \<open>The allocation an ADD is to leave, none when the configuration names no IPAM plugin.\<close>

definition leased :: "PluginConf \<Rightarrow> CmdArgs \<Rightarrow> (string \<times> string) multiset" where
  "leased conf args = (if IPAMType conf = '''' then {#} else {#(IPAMType conf, StdinData args)#})"

locale ipam_leases =
  fixes H :: "('w, 'r) cni_host"
    and leases :: "'w \<Rightarrow> (string \<times> string) multiset"
  assumes exec_add: "ExecAdd H t d w = (Inr r, w') \<Longrightarrow> leases w' = add_mset (t, d) (leases w)"
    and exec_add_err: "ExecAdd H t d w = (Inl e, w') \<Longrightarrow> leases w' = leases w"
    and exec_del: "leases (snd (ExecDel H t d w)) = leases w - {#(t, d)#}"
    and keeps_get_ns: "keeps leases (GetNS H p)"
    and keeps_by_name: "keeps leases (LinkByName H ns n)"
    and keeps_set_ns: "keeps leases (LinkSetNsFd H ns l ns')"
    and keeps_set_name: "keeps leases (LinkSetName H ns l n)"
    and keeps_enter: "keeps leases (EnterNS H ns)"
    and keeps_sysctl: "keeps leases (Sysctl H k v)"
    and keeps_configure: "keeps leases (ConfigureIface H ns n res)"
    and keeps_print: "keeps leases (PrintResult H res v)"
begin

lemmas calls_framed = keeps_by_name keeps_set_name keeps_enter keeps_sysctl keeps_configure

lemma keeps_do_in_pod: "keeps leases m \<Longrightarrow> keeps leases (do_in (host.truncate H) ns m)"
  by (rule keeps_do_in) (simp_all add: keeps_enter host.truncate_def)

lemma keeps_set_sysctl: "keeps leases k \<Longrightarrow> keeps leases (set_sysctl H n v k)"
  by (simp add: set_sysctl_def framing calls_framed)

lemma keeps_configure_pod: "keeps leases (configure_pod H podNS dad ifname result)"
  by (simp add: configure_pod_def keeps_do_in_pod keeps_set_sysctl framing calls_framed)

lemma keeps_rename: "keeps leases (rename_in_pod H podNS vlink ifname)"
  by (simp add: rename_in_pod_def keeps_do_in_pod framing calls_framed)

lemma apply_ipam_leases:
  assumes "apply_ipam H conf args podNS result w = (r, w')"
  shows "leases w' =
    (if succeeds r then add_mset (IPAMType conf, StdinData args) (leases w) else leases w)"
proof (cases "ExecAdd H (IPAMType conf) (StdinData args) w")
  case (Pair res w1)
  show ?thesis
  proof (cases res)
    case (Inl e)
    with Pair assms exec_add_err show ?thesis
      by (fastforce simp: apply_ipam_def calling_def)
  next
    case (Inr raw)
    let ?body = "(case NewResultFromResult H raw of
          Inl err \<Rightarrow> raise (Error err)
        | Inr ipamResult \<Rightarrow>
            let result' = result\<lparr>IPs := IPs ipamResult, Routes := Routes ipamResult,
                                 ResultDNS := ResultDNS ipamResult\<rparr>
            in if length (elems (IPs result')) = 0
               then raise (Error (OtherErr ''IPAM plugin returned missing IP config''))
               else running (configure_pod H podNS (EnableDad conf) (IfName args) result')
                      (\<lambda>e. e) (\<lambda>_. give result'))"
    obtain r1 w2 where body: "?body w1 = (r1, w2)" by (cases "?body w1") blast
    have "keeps leases ?body"
      by (simp add: framing keeps_configure_pod Let_def split: sum.split)
    from keepsD [OF this body] exec_add Pair Inr
    have "leases w2 = add_mset (IPAMType conf, StdinData args) (leases w)" by simp
    moreover have "(r, w') = (case r1 of
        Inl f \<Rightarrow> (Inl f, snd (ExecDel H (IPAMType conf) (StdinData args) w2)) | Inr x \<Rightarrow> (Inr x, w2))"
      using assms Pair Inr body
      by (simp add: apply_ipam_def calling_def release_on_failure_def split: sum.split)
    ultimately show ?thesis
      by (cases r1) (simp_all add: exec_del)
  qed
qed

text \<open>What the end of an ADD leaves: nothing after a failure, unless it is printing that failed.\<close>

lemma finish_add_leases:
  assumes "finish_add H conf args podNS l w = (r, w')"
  shows "succeeds r \<and> leases w' = leases w + leased conf args \<or> \<not> succeeds r \<and> leases w' = leases w \<or>
    (\<exists>res v e w1. PrintResult H res v w1 = (Inl e, w') \<and> r = Inl (Error e))"
proof -
  define result where "result = \<lparr>ResultVersion = ImplementedSpecVersion H,
    ResultInterfaces = [\<lparr>PodIfName = LName l, Mac = HardwareAddr H l, Sandbox = NSPath H podNS\<rparr>],
    IPs = None, Routes = None, ResultDNS = no_dns\<rparr>"
  let ?ipam = "if IPAMType conf \<noteq> '''' then apply_ipam H conf args podNS result else give result"
  obtain r1 w1 where ipam: "?ipam w = (r1, w1)" by (cases "?ipam w") blast
  then have after: "leases w1 = (if succeeds r1 \<and> IPAMType conf \<noteq> ''''
      then add_mset (IPAMType conf, StdinData args) (leases w) else leases w)"
    using apply_ipam_leases by (auto split: if_splits)
  have ok: "succeeds r1" if "IPAMType conf = ''''" using ipam that by auto
  show ?thesis
  proof (cases r1)
    case (Inl f)
    with ipam assms have "r = Inl f" "w' = w1"
      by (simp_all add: finish_add_def Let_def running_def attempt_def result_def [symmetric])
    with after Inl show ?thesis by simp
  next
    case (Inr x)
    define res where "res = (if dnsConfSet (ConfDNS conf) then x\<lparr>ResultDNS := ConfDNS conf\<rparr> else x)"
    have "calling (PrintResult H res (CNIVersion conf)) (\<lambda>e. e) give w1 = (r, w')"
      using ipam Inr assms
      by (simp add: finish_add_def Let_def running_def attempt_def result_def [symmetric] res_def)
    then consider e where "PrintResult H res (CNIVersion conf) w1 = (Inl e, w')" "r = Inl (Error e)"
      | "PrintResult H res (CNIVersion conf) w1 = (Inr (), w')" "r = Inr ()"
      by (auto simp: both_ways)
    then show ?thesis
    proof cases
      case 1
      then show ?thesis by blast
    next
      case 2
      with keepsD [OF keeps_print 2(1)] after Inr ok show ?thesis by (auto simp: leased_def)
    qed
  qed
qed

lemma cmdAdd_leases:
  assumes "cmdAdd H args w = (r, w')"
  shows "(\<exists>conf. parseConfig H (StdinData args) = Inr conf \<and> succeeds r \<and> leases w' = leases w + leased conf args) \<or>
    \<not> succeeds r \<and> leases w' = leases w \<or>
    (\<exists>res v e w1. PrintResult H res v w1 = (Inl e, w') \<and> r = Inl (Error e))"
proof -
  from assms consider f where "r = Inl f" "w' = w"
    | conf where "parseConfig H (StdinData args) = Inr conf"
      "calling (GetNS H (Netns args)) (Note ''failed to open pod netns'') (\<lambda>podNS.
     calling (LinkByName H HostNS (VethName conf)) (Wrap ''failed to locate veth interface'') (\<lambda>vlink.
     calling (LinkSetNsFd H HostNS vlink podNS) (Wrap ''failed to move veth interface'') (\<lambda>_.
     running (rename_in_pod H podNS vlink (IfName args)) (Wrap ''failed to rename veth interface'') (\<lambda>vlink'.
     finish_add H conf args podNS vlink')))) w = (r, w')"
    by (auto simp: cmdAdd_def evaluating_iff)
  then show ?thesis
  proof cases
    case 1
    then show ?thesis by simp
  next
    case 2
    note step = calling_keeps [OF _ keeps_get_ns] calling_keeps [OF _ keeps_by_name]
      calling_keeps [OF _ keeps_set_ns] running_keeps [OF _ keeps_rename]
    from 2(2) show ?thesis
      by (elim step) (use 2(1) in \<open>auto simp: leased_def dest!: finish_add_leases\<close>)
  qed
qed

end

end
