(* ===== verification/PodLink.thy ===== *)
theory PodLink
  imports Coexist CniVeth
begin

section \<open>The spoke in its pod\<close>

text \<open>
  What \<open>cmdAdd\<close> does to the table of links. It moves the spoke from the host into the pod and
  renames it there, with the link object it looked up on the host: the rename goes by that
  object's index. A link keeps its index when it moves, unless a link of the other namespace has
  that index already. The theory follows both cases.
\<close>

lemma truncate_calls [simp]:
  "GetNS (host.truncate H) = GetNS H" "LinkByName (host.truncate H) = LinkByName H" "EnterNS (host.truncate H) = EnterNS H"
  "LinkSetNsFd (host.truncate H) = LinkSetNsFd H"
  by (simp_all add: host.truncate_def)

text \<open>The index of a link is in use in a namespace.\<close>

definition index_used :: "table \<Rightarrow> netns \<Rightarrow> int \<Rightarrow> bool" where
  "index_used L ns idx \<longleftrightarrow> (\<exists>n i. L (ns, n) = Some i \<and> LIndex (IfLink i) = idx)"

text \<open>
  An attachment in use by a pod: the bridge, the port on it, and the other end of the port in
  the pod under the name the pod asked for.
\<close>

definition pod_attached :: "table \<Rightarrow> netns \<Rightarrow> string \<Rightarrow> int \<Rightarrow> string \<Rightarrow> netns \<Rightarrow> string \<Rightarrow> bool \<Rightarrow> bool" where
  "pod_attached L ns bridge bidx spoke pod ifname up \<longleftrightarrow>
     bridge_at L ns bridge bidx \<and> veth_port_at L ns (getPeerVethName spoke) spoke bidx \<and>
     (\<exists>i. L (pod, ifname) = Some i \<and> LKind (IfLink i) = Veth (getPeerVethName spoke) \<and> IfUp i = up) \<and>
     L (HostNS, spoke) = None"

locale pod_kernel = kernel "host.truncate H" links
  for H :: "('w, 'r) cni_host" and links :: "'w \<Rightarrow> table" +
  assumes moved_index: "LinkSetNsFd H ns l ns' w = (Inr (), w') \<Longrightarrow> ns \<noteq> ns' \<Longrightarrow> links w (ns, LName l) = Some i \<Longrightarrow>
      LIndex (IfLink i) = LIndex l \<Longrightarrow> links w' (ns', LName l) = Some j \<Longrightarrow>
      LIndex (IfLink j) = LIndex l \<longleftrightarrow> \<not> index_used (links w) ns' (LIndex l)"
    and set_name: "LinkSetName H ns l n w = (Inr (), w') \<Longrightarrow>
      \<exists>n0 i. links w (ns, n0) = Some i \<and> LIndex (IfLink i) = LIndex l \<and> (n0 = n \<or> links w (ns, n) = None) \<and>
        links w' = (links w)((ns, n0) := None, (ns, n) \<mapsto> i\<lparr>IfLink := (IfLink i)\<lparr>LName := n\<rparr>\<rparr>)"
    and sysctl_links: "links (snd (Sysctl H k v w)) = links w"
    and exec_add_links: "links (snd (ExecAdd H t d w)) = links w"
    and print_links: "links (snd (PrintResult H res ver w)) = links w"
    and configured: "ConfigureIface H ns n res w = (Inr (), w') \<Longrightarrow>
      \<exists>i. links w (ns, n) = Some i \<and> links w' = (links w)((ns, n) \<mapsto> i\<lparr>IfUp := True\<rparr>)"
begin

lemma enter_links: "EnterNS H ns w = (r, w') \<Longrightarrow> links w' = links w"
  using enter [of ns w] by simp

lemma set_sysctl_links: "set_sysctl H n v k w = (Inr x, w') \<Longrightarrow> \<exists>w1. links w1 = links w \<and> k w1 = (Inr x, w')"
  using sysctl_links [of n v w]
  by (cases "Sysctl H n v w"; cases "fst (Sysctl H n v w)")
    (auto simp: set_sysctl_def ignoring_error_def calling_def attempt_def)

lemma configure_pod_links:
  assumes "configure_pod H ns dad n res w = (Inr u, w')"
  shows "\<exists>i. links w (ns, n) = Some i \<and> links w' = (links w)((ns, n) \<mapsto> i\<lparr>IfUp := True\<rparr>)"
proof -
  define conf where "conf = calling (ConfigureIface H ns n res) (\<lambda>e. e) give"
  define arp where "arp = set_sysctl H (''net/ipv4/conf/'' @ n @ ''/arp_notify'') ''1'' conf"
  obtain w1 where w1: "links w1 = links w" "arp w1 = (Inr u, w')"
  proof (cases dad)
    case True
    define dad6 where "dad6 = set_sysctl H (''net/ipv6/conf/'' @ n @ ''/accept_dad'') ''1'' arp"
    from assms True obtain w2 where "EnterNS H ns w = (Inr (), w2)"
      "set_sysctl H (''/net/ipv6/conf/'' @ n @ ''/enhanced_dad'') ''1'' dad6 w2 = (Inr u, w')"
      by (auto simp: configure_pod_def effect conf_def [symmetric] arp_def [symmetric] dad6_def [symmetric]
        simp del: append.simps)
    with set_sysctl_links [OF this(2)] enter_links obtain w3 where "links w3 = links w" "dad6 w3 = (Inr u, w')" by auto
    with set_sysctl_links [of _ _ arp w3 u w'] that show ?thesis by (auto simp: dad6_def)
  next
    case False
    with assms obtain w2 where "EnterNS H ns w = (Inr (), w2)"
      "set_sysctl H (''net/ipv6/conf/'' @ n @ ''/accept_dad'') ''0'' arp w2 = (Inr u, w')"
      by (auto simp: configure_pod_def effect conf_def [symmetric] arp_def [symmetric] simp del: append.simps)
    with set_sysctl_links [OF this(2)] enter_links that show ?thesis by auto
  qed
  with set_sysctl_links [of _ _ conf w1 u w'] obtain w2 where "links w2 = links w" "conf w2 = (Inr u, w')"
    by (auto simp: arp_def)
  with configured [of ns n res w2 w'] show ?thesis by (auto simp: conf_def effect)
qed

text \<open>The end of an ADD brings the link up when an IPAM plugin is named, and only then.\<close>

lemma finish_add_links:
  assumes "finish_add H conf args ns l w = (Inr u, w')"
  shows "if IPAMType conf = '''' then links w' = links w
    else \<exists>i. links w (ns, IfName args) = Some i \<and> links w' = (links w)((ns, IfName args) \<mapsto> i\<lparr>IfUp := True\<rparr>)"
proof -
  define result where "result = \<lparr>ResultVersion = ImplementedSpecVersion H,
    ResultInterfaces = [\<lparr>PodIfName = LName l, Mac = HardwareAddr H l, Sandbox = NSPath H ns\<rparr>],
    IPs = None, Routes = None, ResultDNS = no_dns\<rparr>"
  from assms obtain res w1 res' ver where
    run: "(if IPAMType conf \<noteq> '''' then apply_ipam H conf args ns result else give result) w = (Inr res, w1)"
      "PrintResult H res' ver w1 = (Inr (), w')"
    by (auto simp: finish_add_def Let_def effect result_def [symmetric])
  have last: "links w' = links w1" using print_links [of res' ver w1] run(2) by simp
  show ?thesis
  proof (cases "IPAMType conf = ''''")
    case True
    with run(1) last show ?thesis by simp
  next
    case False
    with run(1) obtain r w2 where add: "ExecAdd H (IPAMType conf) (StdinData args) w = (Inr r, w2)"
      and rest: "release_on_failure (case NewResultFromResult H r of Inl err \<Rightarrow> raise (Error err)
        | Inr ipamResult \<Rightarrow> let result' = result\<lparr>IPs := IPs ipamResult, Routes := Routes ipamResult,
              ResultDNS := ResultDNS ipamResult\<rparr>
            in if length (elems (IPs result')) = 0 then raise (Error (OtherErr ''IPAM plugin returned missing IP config''))
               else running (configure_pod H ns (EnableDad conf) (IfName args) result') (\<lambda>e. e) (\<lambda>_. give result'))
        (ExecDel H (IPAMType conf) (StdinData args)) w2 = (Inr res, w1)"
      by (auto simp: apply_ipam_def effect)
    from rest obtain res2 where "configure_pod H ns (EnableDad conf) (IfName args) res2 w2 = (Inr (), w1)"
      by (auto simp: release_on_failure_def Let_def effect split: sum.splits prod.splits if_splits)
    from configure_pod_links [OF this] last False exec_add_links [of "IPAMType conf" "StdinData args" w] add
    show ?thesis by auto
  qed
qed

text \<open>The steps of a successful ADD up to the rename.\<close>

lemma cmdAdd_steps:
  assumes "cmdAdd H args w = (Inr u, w')" and "parseConfig H (StdinData args) = Inr conf"
    and "GetNS H (Netns args) w = (Inr ns, w0)" and "links w (HostNS, VethName conf) = Some i"
  shows "\<exists>L1 j n0 k. links w (ns, VethName conf) = None \<and>
    L1 = (links w)((HostNS, VethName conf) := None, (ns, VethName conf) \<mapsto> j) \<and>
    LKind (IfLink j) = LKind (IfLink i) \<and> \<not> IfUp j \<and>
    (LIndex (IfLink j) = LIndex (IfLink i) \<longleftrightarrow> \<not> index_used (links w) ns (LIndex (IfLink i))) \<and>
    L1 (ns, n0) = Some k \<and> LIndex (IfLink k) = LIndex (IfLink i) \<and> (n0 = IfName args \<or> L1 (ns, IfName args) = None) \<and>
    links w' = L1((ns, n0) := None, (ns, IfName args) \<mapsto>
      k\<lparr>IfLink := (IfLink k)\<lparr>LName := IfName args\<rparr>, IfUp := IfUp k \<or> IPAMType conf \<noteq> ''''\<rparr>)"
proof -
  let ?t = "VethName conf" and ?n = "IfName args"
  from assms obtain l w1 w2 w3 w4 l' w5 where run: "LinkByName H HostNS ?t w0 = (Inr l, w1)"
      "LinkSetNsFd H HostNS l ns w1 = (Inr (), w2)" "EnterNS H ns w2 = (Inr (), w3)"
      "LinkSetName H ns l ?n w3 = (Inr (), w4)" "LinkByName H ns ?n w4 = (Inr l', w5)"
      "finish_add H conf args ns l' w5 = (Inr (), w')"
    by (auto simp: cmdAdd_def rename_in_pod_def effect)
  have host: "ns \<noteq> HostNS" using get_ns [of "Netns args" w ns w0] assms(3) by simp
  have L0: "links w0 = links w" using get_ns_links [of "Netns args" w] assms(3) by simp
  from by_name [of HostNS ?t w0 l w1] run(1) L0 assms(4) have l: "links w1 = links w" "LName l = ?t" "IfLink i = l" by auto
  from set_ns [of HostNS l ns w1 w2 i] run(2) host l assms(4) obtain idx where
    free: "links w (ns, ?t) = None" and
    L2: "links w2 = (links w)((HostNS, ?t) := None,
      (ns, ?t) \<mapsto> i\<lparr>IfLink := (IfLink i)\<lparr>LIndex := idx\<rparr>, IfUp := False, IfMaster := None\<rparr>)" by auto
  let ?j = "i\<lparr>IfLink := (IfLink i)\<lparr>LIndex := idx\<rparr>, IfUp := False, IfMaster := None\<rparr>"
  have idx: "LIndex (IfLink ?j) = LIndex (IfLink i) \<longleftrightarrow> \<not> index_used (links w) ns (LIndex (IfLink i))"
    using moved_index [OF run(2), of i ?j] host l assms(4) L2 by auto
  from set_name [OF run(4)] enter_links [OF run(3)] obtain n0 k where
    k: "links w2 (ns, n0) = Some k" "LIndex (IfLink k) = LIndex l" "n0 = ?n \<or> links w2 (ns, ?n) = None" and
    L4: "links w4 = (links w2)((ns, n0) := None, (ns, ?n) \<mapsto> k\<lparr>IfLink := (IfLink k)\<lparr>LName := ?n\<rparr>\<rparr>)" by auto
  have L5: "links w5 = links w4" using by_name [of ns ?n w4 l' w5] run(5) by simp
  have "links w' = (links w2)((ns, n0) := None, (ns, ?n) \<mapsto>
      k\<lparr>IfLink := (IfLink k)\<lparr>LName := ?n\<rparr>, IfUp := IfUp k \<or> IPAMType conf \<noteq> ''''\<rparr>)"
    using finish_add_links [OF run(6)] L5 L4 by (auto split: if_splits)
  with free L2 idx k l show ?thesis
    by (intro exI [of _ "links w2"] exI [of _ ?j] exI [of _ n0] exI [of _ k]) auto
qed

text \<open>When the index is free in the pod, the spoke arrives there under the name asked for.\<close>

lemma cmdAdd_joins:
  assumes add: "cmdAdd H args w = (Inr u, w')" "parseConfig H (StdinData args) = Inr conf"
      "GetNS H (Netns args) w = (Inr pod, w0)"
    and at: "attached (links w) ns bridge bidx (VethName conf)"
    and apart: "ns \<noteq> HostNS" "pod \<noteq> ns"
    and index: "\<And>i. links w (HostNS, VethName conf) = Some i \<Longrightarrow> \<not> index_used (links w) pod (LIndex (IfLink i))"
  shows "pod_attached (links w') ns bridge bidx (VethName conf) pod (IfName args) (IPAMType conf \<noteq> '''')"
proof -
  let ?t = "VethName conf" and ?n = "IfName args"
  from at obtain i where i: "links w (HostNS, ?t) = Some i" "LKind (IfLink i) = Veth (getPeerVethName ?t)"
    by (auto simp: attached_def veth_up_at_def)
  have pod: "pod \<noteq> HostNS" using get_ns [of "Netns args" w pod w0] add(3) by simp
  from cmdAdd_steps [OF add i(1)] index [OF i(1)] obtain L1 j n0 k where
    free: "links w (pod, ?t) = None" and L1: "L1 = (links w)((HostNS, ?t) := None, (pod, ?t) \<mapsto> j)"
    and j: "LKind (IfLink j) = LKind (IfLink i)" "\<not> IfUp j" and k: "L1 (pod, n0) = Some k" "LIndex (IfLink k) = LIndex (IfLink i)"
    and L': "links w' = L1((pod, n0) := None, (pod, ?n) \<mapsto>
      k\<lparr>IfLink := (IfLink k)\<lparr>LName := ?n\<rparr>, IfUp := IfUp k \<or> IPAMType conf \<noteq> ''''\<rparr>)"
    by blast
  have "n0 = ?t" using k index [OF i(1)] L1 pod by (auto simp: index_used_def split: if_splits)
  with k L1 have "k = j" by simp
  with L' L1 j i \<open>n0 = ?t\<close> at apart pod show ?thesis
    by (auto simp: pod_attached_def attached_def bridge_at_def veth_port_at_def)
qed

text \<open>Links that are neither in the pod nor the spoke on the host stay as they are.\<close>

lemma cmdAdd_elsewhere:
  assumes "cmdAdd H args w = (Inr u, w')" "parseConfig H (StdinData args) = Inr conf"
      "GetNS H (Netns args) w = (Inr pod, w0)" "links w (HostNS, VethName conf) = Some i"
    and k: "fst k \<noteq> pod" "k \<noteq> (HostNS, VethName conf)"
  shows "links w' k = links w k"
  using cmdAdd_steps [OF assms(1-4)] k by (auto split: if_splits)

text \<open>When a link of the pod has the spoke's index, that link is renamed instead of the spoke.\<close>

lemma cmdAdd_renames_other:
  assumes add: "cmdAdd H args w = (Inr u, w')" "parseConfig H (StdinData args) = Inr conf"
      "GetNS H (Netns args) w = (Inr pod, w0)"
    and i: "links w (HostNS, VethName conf) = Some i"
    and index: "index_used (links w) pod (LIndex (IfLink i))"
  shows "\<exists>n0 k k' j. links w (pod, n0) = Some k \<and> LIndex (IfLink k) = LIndex (IfLink i) \<and>
    links w' (pod, IfName args) = Some k' \<and> IfLink k' = (IfLink k)\<lparr>LName := IfName args\<rparr> \<and>
    (n0 \<noteq> IfName args \<longrightarrow> links w' (pod, n0) = None) \<and>
    VethName conf \<noteq> IfName args \<and> links w' (pod, VethName conf) = Some j \<and> LKind (IfLink j) = LKind (IfLink i)"
proof -
  let ?t = "VethName conf" and ?n = "IfName args"
  have pod: "pod \<noteq> HostNS" using get_ns [of "Netns args" w pod w0] add(3) by simp
  from cmdAdd_steps [OF add i] index obtain L1 j n0 k where
    free: "links w (pod, ?t) = None" and L1: "L1 = (links w)((HostNS, ?t) := None, (pod, ?t) \<mapsto> j)"
    and j: "LKind (IfLink j) = LKind (IfLink i)" "LIndex (IfLink j) \<noteq> LIndex (IfLink i)"
    and k: "L1 (pod, n0) = Some k" "LIndex (IfLink k) = LIndex (IfLink i)" "n0 = ?n \<or> L1 (pod, ?n) = None"
    and L': "links w' = L1((pod, n0) := None, (pod, ?n) \<mapsto>
      k\<lparr>IfLink := (IfLink k)\<lparr>LName := ?n\<rparr>, IfUp := IfUp k \<or> IPAMType conf \<noteq> ''''\<rparr>)"
    by blast
  have n0: "n0 \<noteq> ?t" using k j(2) L1 by auto
  with k(3) L1 have "?t \<noteq> ?n" by auto
  with L' L1 k(1,2) j(1) n0 pod show ?thesis
    by (intro exI [of _ n0] exI [of _ k] exI [of _ j]
        exI [of _ "k\<lparr>IfLink := (IfLink k)\<lparr>LName := ?n\<rparr>, IfUp := IfUp k \<or> IPAMType conf \<noteq> ''''\<rparr>"]) auto
qed

end

end
