(* ===== verification/PodReady.thy ===== *)
theory PodReady
  imports Willing PodLink
begin

section \<open>When an ADD succeeds\<close>

text \<open>
  The contract \<open>pod_kernel\<close> says what the calls of \<open>cmdAdd\<close> do to the links when they succeed.
  The contract here says when they do, and the theory shows that \<open>cmdAdd\<close> then succeeds too.
\<close>

text \<open>
  \<open>ready w\<close>: the kernel has the memory and the process the rights for what is asked.
  \<open>grants t d\<close>: the IPAM plugin \<open>t\<close> has an address for the configuration \<open>d\<close>.
  \<open>valid_ips\<close>: addresses and routes that an interface takes. \<open>speaks v\<close>: the CNI library prints
  results of version \<open>v\<close>. Every call leaves the system ready.
\<close>

locale willing_pod = pod_kernel H links
  for H :: "('w, 'r) cni_host" and links :: "'w \<Rightarrow> table" +
  fixes ready :: "'w \<Rightarrow> bool"
    and grants :: "string \<Rightarrow> string \<Rightarrow> bool"
    and valid_ips :: "IPConfig slice \<Rightarrow> Route slice \<Rightarrow> bool"
    and speaks :: "string \<Rightarrow> bool"
  assumes find_link: "ready w \<Longrightarrow> links w (ns, n) = Some i \<Longrightarrow> readable (LKind (IfLink i)) \<Longrightarrow>
      \<exists>l w'. LinkByName H ns n w = (Inr l, w')"
    and enter_pod: "ready w \<Longrightarrow> \<exists>w'. EnterNS H ns w = (Inr (), w')"
    and move_link: "ready w \<Longrightarrow> ns \<noteq> ns' \<Longrightarrow> links w (ns, LName l) = Some i \<Longrightarrow> LIndex (IfLink i) = LIndex l \<Longrightarrow>
      LKind (IfLink i) = Veth p \<Longrightarrow> links w (ns', LName l) = None \<Longrightarrow> \<exists>w'. LinkSetNsFd H ns l ns' w = (Inr (), w')"
    and rename_link: "ready w \<Longrightarrow> links w (ns, n0) = Some i \<Longrightarrow> LIndex (IfLink i) = LIndex l \<Longrightarrow> \<not> IfUp i \<Longrightarrow>
      (\<forall>m j. links w (ns, m) = Some j \<and> LIndex (IfLink j) = LIndex l \<longrightarrow> m = n0) \<Longrightarrow>
      name_fits n \<Longrightarrow> n0 = n \<or> links w (ns, n) = None \<Longrightarrow> \<exists>w'. LinkSetName H ns l n w = (Inr (), w')"
    and ipam_grants: "ready w \<Longrightarrow> grants t d \<Longrightarrow> \<exists>r w' res. ExecAdd H t d w = (Inr r, w') \<and>
      NewResultFromResult H r = Inr res \<and> elems (IPs res) \<noteq> [] \<and> valid_ips (IPs res) (Routes res)"
    and configure_link: "ready w \<Longrightarrow> links w (ns, n) = Some i \<Longrightarrow> valid_ips (IPs res) (Routes res) \<Longrightarrow>
      \<exists>w'. ConfigureIface H ns n res w = (Inr (), w')"
    and print_result: "ready w \<Longrightarrow> speaks v \<Longrightarrow> \<exists>w'. PrintResult H res v w = (Inr (), w')"
    and ready_get_ns: "ready w \<Longrightarrow> ready (snd (GetNS H p w))"
    and ready_by_name: "ready w \<Longrightarrow> ready (snd (LinkByName H ns n w))"
    and ready_set_ns: "ready w \<Longrightarrow> ready (snd (LinkSetNsFd H ns l ns' w))"
    and ready_set_name: "ready w \<Longrightarrow> ready (snd (LinkSetName H ns l n w))"
    and ready_enter: "ready w \<Longrightarrow> ready (snd (EnterNS H ns w))"
    and ready_sysctl: "ready w \<Longrightarrow> ready (snd (Sysctl H k v w))"
    and ready_exec_add: "ready w \<Longrightarrow> ready (snd (ExecAdd H t d w))"
    and ready_configure: "ready w \<Longrightarrow> ready (snd (ConfigureIface H ns n res w))"
begin

subsection \<open>Single calls\<close>

definition at :: "'w \<Rightarrow> table \<Rightarrow> bool" where
  "at w L \<longleftrightarrow> ready w \<and> links w = L"

lemma gives_lookup:
  assumes "at w L" and "L (ns, n) = Some i" and "readable (LKind (IfLink i))"
    and "\<And>w'. at w' L \<Longrightarrow> LName (IfLink i) = n \<Longrightarrow> Q (IfLink i) w'"
  shows "gives (LinkByName H ns n) w Q"
proof -
  from assms(1-3) find_link [of w ns n i] obtain l w' where call: "LinkByName H ns n w = (Inr l, w')"
    by (auto simp: at_def)
  from by_name [of ns n w l w'] call assms(1,2) have "links w' = L" "l = IfLink i" "LName l = n" by (auto simp: at_def)
  with ready_by_name [of w ns n] call assms(1,4) show ?thesis by (auto simp: gives_def at_def)
qed

lemma gives_entry:
  assumes "at w L" and "\<And>w'. at w' L \<Longrightarrow> Q () w'"
  shows "gives (EnterNS H ns) w Q"
proof -
  from assms(1) enter_pod [of w ns] obtain w' where call: "EnterNS H ns w = (Inr (), w')" by (auto simp: at_def)
  with enter_links [OF call] assms(1) have "links w' = L" by (simp add: at_def)
  with ready_enter [of w ns] call assms show ?thesis by (auto simp: gives_def at_def)
qed

lemma gives_sysctl:
  assumes "at w L" and "\<And>w'. at w' L \<Longrightarrow> gives k w' Q"
  shows "gives (set_sysctl H n v k) w Q"
proof -
  obtain r w' where call: "Sysctl H n v w = (r, w')" by fastforce
  with sysctl_links [of n v w] assms(1) have "links w' = L" by (simp add: at_def)
  with ready_sysctl [of w n v] call assms have "gives k w' Q" by (auto simp: at_def)
  with call show ?thesis
    by (cases r) (auto simp: gives_def set_sysctl_def ignoring_error_def calling_def attempt_def)
qed

lemma gives_release: "gives m w Q \<Longrightarrow> gives (release_on_failure m k) w Q"
  by (auto simp: gives_def release_on_failure_def)

subsection \<open>The stretches of an ADD\<close>

lemma gives_configure_pod:
  assumes "at w L" and "L (ns, n) = Some i" and "valid_ips (IPs res) (Routes res)"
    and "\<And>w'. ready w' \<Longrightarrow> Q () w'"
  shows "gives (configure_pod H ns dad n res) w Q"
proof -
  have conf: "gives (ConfigureIface H ns n res) w' Q" if "at w' L" for w'
  proof -
    from configure_link [of w' ns n i res] that assms(2,3) obtain w2 where call: "ConfigureIface H ns n res w' = (Inr (), w2)"
      by (auto simp: at_def)
    with ready_configure [of w' ns n res] that assms(4) show ?thesis by (auto simp: gives_def at_def)
  qed
  have arp: "gives (set_sysctl H name ''1'' (calling (ConfigureIface H ns n res) (\<lambda>e. e) give)) w' Q" if "at w' L" for w' name
    using that by (rule gives_sysctl) (simp add: conf)
  show ?thesis
    unfolding configure_pod_def gives_do_in truncate_calls
  proof (rule gives_entry [OF assms(1)])
    fix w' assume w': "at w' L"
    show "gives ((if dad then \<lambda>k. set_sysctl H (''/net/ipv6/conf/'' @ n @ ''/enhanced_dad'') ''1''
          (set_sysctl H (''net/ipv6/conf/'' @ n @ ''/accept_dad'') ''1'' k)
        else set_sysctl H (''net/ipv6/conf/'' @ n @ ''/accept_dad'') ''0'')
        (set_sysctl H (''net/ipv4/conf/'' @ n @ ''/arp_notify'') ''1''
          (calling (ConfigureIface H ns n res) (\<lambda>e. e) give))) w' Q"
    proof (cases dad)
      case True
      have "gives (set_sysctl H (''/net/ipv6/conf/'' @ n @ ''/enhanced_dad'') ''1''
          (set_sysctl H (''net/ipv6/conf/'' @ n @ ''/accept_dad'') ''1''
          (set_sysctl H (''net/ipv4/conf/'' @ n @ ''/arp_notify'') ''1''
            (calling (ConfigureIface H ns n res) (\<lambda>e. e) give)))) w' Q"
        by (rule gives_sysctl [OF w']) (erule gives_sysctl, erule arp)
      with True show ?thesis by (simp only: if_True)
    next
      case False
      have "gives (set_sysctl H (''net/ipv6/conf/'' @ n @ ''/accept_dad'') ''0''
          (set_sysctl H (''net/ipv4/conf/'' @ n @ ''/arp_notify'') ''1''
            (calling (ConfigureIface H ns n res) (\<lambda>e. e) give))) w' Q"
        by (rule gives_sysctl [OF w']) (erule arp)
      with False show ?thesis by (simp only: if_False)
    qed
  qed
qed

lemma gives_apply_ipam:
  assumes "at w L" and "grants (IPAMType conf) (StdinData args)" and "L (ns, IfName args) = Some i"
    and "\<And>res w'. ready w' \<Longrightarrow> Q res w'"
  shows "gives (apply_ipam H conf args ns result) w Q"
proof -
  from ipam_grants [of w "IPAMType conf" "StdinData args"] assms(1,2) obtain r w1 res where
    call: "ExecAdd H (IPAMType conf) (StdinData args) w = (Inr r, w1)" and
    res: "NewResultFromResult H r = Inr res" "elems (IPs res) \<noteq> []" "valid_ips (IPs res) (Routes res)"
    by (auto simp: at_def)
  from exec_add_links [of "IPAMType conf" "StdinData args" w] call assms(1) have "links w1 = L" by (simp add: at_def)
  with ready_exec_add [of w "IPAMType conf" "StdinData args"] call assms(1) have w1: "at w1 L" by (simp add: at_def)
  let ?res = "result\<lparr>IPs := IPs res, Routes := Routes res, ResultDNS := ResultDNS res\<rparr>"
  have "gives (configure_pod H ns (EnableDad conf) (IfName args) ?res) w1 (\<lambda>_ w. gives (give ?res) w Q)"
    by (rule gives_configure_pod [OF w1 assms(3)]) (use res assms(4) in simp_all)
  then have "gives (release_on_failure (running (configure_pod H ns (EnableDad conf) (IfName args) ?res) (\<lambda>e. e) (\<lambda>_. give ?res))
      (ExecDel H (IPAMType conf) (StdinData args))) w1 Q"
    by (intro gives_release) simp
  with res call show ?thesis
    by (simp add: apply_ipam_def gives_def [of "ExecAdd H _ _"] Let_def)
qed

lemma gives_finish_add:
  assumes "at w L" and "L (ns, IfName args) = Some i" and "speaks (CNIVersion conf)"
    and "IPAMType conf \<noteq> '''' \<Longrightarrow> grants (IPAMType conf) (StdinData args)"
  shows "gives (finish_add H conf args ns l) w (\<lambda>_ _. True)"
proof -
  have print: "gives (PrintResult H res (CNIVersion conf)) w' (\<lambda>_ _. True)" if "ready w'" for w' res
    using print_result [OF that assms(3), of res] by (auto simp: gives_def)
  have "ready w" using assms(1) by (simp add: at_def)
  then show ?thesis
    using gives_apply_ipam [OF assms(1,4,2)] print
    by (auto simp: finish_add_def Let_def)
qed

text \<open>
  With the spoke on the host, the pod's name for it and its index free in the pod, and an
  address for it when an IPAM plugin is named, \<open>cmdAdd\<close> succeeds.
\<close>

lemma cmdAdd_gives:
  assumes ready: "ready w" and conf: "parseConfig H (StdinData args) = Inr conf"
    and pod: "GetNS H (Netns args) w = (Inr pod, w0)"
    and i: "links w (HostNS, VethName conf) = Some i" "LKind (IfLink i) = Veth p"
    and free: "links w (pod, VethName conf) = None" "links w (pod, IfName args) = None"
      "\<not> index_used (links w) pod (LIndex (IfLink i))"
    and name: "name_fits (IfName args)" and version: "speaks (CNIVersion conf)"
    and ipam: "IPAMType conf \<noteq> '''' \<Longrightarrow> grants (IPAMType conf) (StdinData args)"
  shows "\<exists>w'. cmdAdd H args w = (Inr (), w')"
proof -
  let ?t = "VethName conf" and ?n = "IfName args" and ?L = "links w" and ?l = "IfLink i"
  have host: "pod \<noteq> HostNS" using get_ns [of "Netns args" w pod w0] pod by simp
  have w0: "at w0 ?L"
    using get_ns_links [of "Netns args" w] ready_get_ns [OF ready, of "Netns args"] pod by (simp add: at_def)
  have "gives (LinkByName H HostNS ?t) w0 (\<lambda>l w. gives (LinkSetNsFd H HostNS l pod) w (\<lambda>_ w.
      gives (rename_in_pod H pod l ?n) w (\<lambda>l' w. gives (finish_add H conf args pod l') w (\<lambda>_ _. True))))"
  proof (rule gives_lookup [OF w0 i(1)])
    show "readable (LKind ?l)" using i(2) by simp
    fix w1 assume w1: "at w1 ?L" and t: "LName ?l = ?t"
    from move_link [of w1 HostNS pod ?l i p] w1 host t i free(1) obtain w2 where
      move: "LinkSetNsFd H HostNS ?l pod w1 = (Inr (), w2)" by (auto simp: at_def)
    from set_ns [of HostNS ?l pod w1 w2 i] move host w1 t i(1) obtain idx where
      L2: "links w2 = ?L((HostNS, ?t) := None,
        (pod, ?t) \<mapsto> i\<lparr>IfLink := ?l\<lparr>LIndex := idx\<rparr>, IfUp := False, IfMaster := None\<rparr>)"
      by (auto simp: at_def)
    let ?j = "i\<lparr>IfLink := ?l\<lparr>LIndex := idx\<rparr>, IfUp := False, IfMaster := None\<rparr>"
    have idx: "idx = LIndex ?l"
      using moved_index [OF move, of i ?j] host w1 t i(1) L2 free(3) by (simp add: at_def)
    have ready2: "ready w2" using ready_set_ns [of w1 HostNS ?l pod] move w1 by (simp add: at_def)
    have "gives (LinkSetName H pod ?l ?n) w3 (\<lambda>_ w. gives (LinkByName H pod ?n) w
        (\<lambda>l' w. gives (finish_add H conf args pod l') w (\<lambda>_ _. True)))" if w3: "at w3 (links w2)" for w3
    proof -
      have only: "m = ?t" if "links w3 (pod, m) = Some j" "LIndex (IfLink j) = LIndex ?l" for m j
        using that w3 L2 free(3) host by (auto simp: at_def index_used_def split: if_splits)
      obtain w4 where rename: "LinkSetName H pod ?l ?n w3 = (Inr (), w4)"
      proof -
        have at3: "ready w3" "links w3 (pod, ?t) = Some ?j" "LIndex (IfLink ?j) = LIndex ?l" "\<not> IfUp ?j"
          using w3 L2 idx by (simp_all add: at_def)
        have "?t = ?n \<or> links w3 (pod, ?n) = None" using w3 L2 free(2) host by (auto simp: at_def)
        from rename_link [OF at3 _ name this] only that show ?thesis by blast
      qed
      from set_name [OF rename] obtain n0 k where "links w3 (pod, n0) = Some k" "LIndex (IfLink k) = LIndex ?l"
        "links w4 = (links w3)((pod, n0) := None, (pod, ?n) \<mapsto> k\<lparr>IfLink := (IfLink k)\<lparr>LName := ?n\<rparr>\<rparr>)" by blast
      moreover from this only have "n0 = ?t" by blast
      ultimately have L4: "links w4 = (links w3)((pod, ?t) := None, (pod, ?n) \<mapsto> k\<lparr>IfLink := (IfLink k)\<lparr>LName := ?n\<rparr>\<rparr>)"
        and k: "links w3 (pod, ?t) = Some k" by simp_all
      from k w3 L2 have kind: "LKind (IfLink k) = Veth p" using i(2) by (auto simp: at_def)
      have w4: "at w4 (links w4)" using ready_set_name [of w3 pod ?l ?n] rename w3 by (simp add: at_def)
      have n4: "links w4 (pod, ?n) = Some (k\<lparr>IfLink := (IfLink k)\<lparr>LName := ?n\<rparr>\<rparr>)" using L4 by simp
      have "gives (LinkByName H pod ?n) w4 (\<lambda>l' w. gives (finish_add H conf args pod l') w (\<lambda>_ _. True))"
        by (rule gives_lookup [OF w4 n4]) (use kind n4 version ipam in \<open>auto intro: gives_finish_add\<close>)
      with rename show ?thesis by (simp add: gives_def [of "LinkSetName H pod ?l ?n"])
    qed
    moreover have "at w2 (links w2)" using ready2 by (simp add: at_def)
    ultimately have "gives (rename_in_pod H pod ?l ?n) w2 (\<lambda>l' w. gives (finish_add H conf args pod l') w (\<lambda>_ _. True))"
      by (auto simp: rename_in_pod_def intro: gives_entry)
    with move show "gives (LinkSetNsFd H HostNS ?l pod) w1 (\<lambda>_ w.
        gives (rename_in_pod H pod ?l ?n) w (\<lambda>l' w. gives (finish_add H conf args pod l') w (\<lambda>_ _. True)))"
      by (simp add: gives_def [of "LinkSetNsFd H HostNS ?l pod"])
  qed
  then have "gives (cmdAdd H args) w (\<lambda>_ _. True)"
    using conf pod by (simp add: cmdAdd_def gives_def [of "GetNS H (Netns args)"])
  then show ?thesis by (auto simp: gives_def)
qed

end

end
