(* ===== verification/RefHost.thy ===== *)
theory RefHost
  imports Underlay PodReady "HOL-Library.AList"
begin

section \<open>A reference host\<close>

text \<open>
  A concrete host, small enough to compute with: the table of links as a list, a counter
  for new indices, the namespaces mounted by path, the links whose master cannot be set, and
  the leases of the IPAM plugins. It models no code of the repository. It shows that the
  contracts \<open>kernel\<close>, \<open>willing_kernel\<close>, \<open>joining_kernel\<close>, \<open>pod_kernel\<close>, \<open>willing_pod\<close> and \<open>ipam_leases\<close> can be met, and
  the witnesses run the program on it.
\<close>

subsection \<open>State\<close>

record ref_world =
  RefTab :: "((netns \<times> string) \<times> iface) list"
  RefNext :: int
  RefNS :: "string \<Rightarrow> nat option"
  RefNextNS :: nat
  RefBad :: "string list"
  RefLeases :: "(string \<times> string) multiset"

definition relabel :: "string \<Rightarrow> iface \<Rightarrow> iface" where
  "relabel n i = i\<lparr>IfLink := (IfLink i)\<lparr>LName := n\<rparr>\<rparr>"

definition ref_links :: "ref_world \<Rightarrow> table" where
  "ref_links w = (\<lambda>k. map_option (relabel (snd k)) (map_of (RefTab w) k))"

definition put_link :: "netns \<times> string \<Rightarrow> iface \<Rightarrow> ref_world \<Rightarrow> ref_world" where
  "put_link k i w = w\<lparr>RefTab := AList.update k i (RefTab w)\<rparr>"

definition drop_link :: "netns \<times> string \<Rightarrow> ref_world \<Rightarrow> ref_world" where
  "drop_link k w = w\<lparr>RefTab := AList.delete k (RefTab w)\<rparr>"

definition prune :: "(netns \<times> string \<Rightarrow> bool) \<Rightarrow> ref_world \<Rightarrow> ref_world" where
  "prune Q w = w\<lparr>RefTab := filter (\<lambda>(k, _). Q k) (RefTab w)\<rparr>"

text \<open>The link of an index in a namespace, and an index that no link has.\<close>

definition ref_index :: "ref_world \<Rightarrow> netns \<Rightarrow> int \<Rightarrow> (netns \<times> string) option" where
  "ref_index w ns idx =
     map_option fst (find (\<lambda>(k, _). fst k = ns \<and>
       (case ref_links w k of None \<Rightarrow> False | Some i \<Rightarrow> LIndex (IfLink i) = idx)) (RefTab w))"

definition new_index :: "ref_world \<Rightarrow> int" where
  "new_index w = 1 + foldr (\<lambda>(_, i) m. max (LIndex (IfLink i)) m) (RefTab w) 0"

text \<open>The link an object denotes, as long as the object is current.\<close>

definition on_link :: "netns \<Rightarrow> link \<Rightarrow> (iface \<Rightarrow> (ref_world, unit) call) \<Rightarrow> (ref_world, unit) call" where
  "on_link ns l f =
     (\<lambda>w. case ref_links w (ns, LName l) of
        None \<Rightarrow> (Inl LinkNotFound, w)
      | Some i \<Rightarrow> if LIndex (IfLink i) = LIndex l then f i w else (Inl LinkNotFound, w))"

definition set_iface :: "netns \<Rightarrow> link \<Rightarrow> (iface \<Rightarrow> iface) \<Rightarrow> (ref_world, unit) call" where
  "set_iface ns l g = on_link ns l (\<lambda>i w. (Inr (), put_link (ns, LName l) (g i) w))"

definition down_iface :: "link \<Rightarrow> iface" where
  "down_iface l = \<lparr>IfLink = l, IfUp = False, IfMaster = None, IfMask = 0\<rparr>"

subsection \<open>Links\<close>

text \<open>A lookup shows readable links only.\<close>

definition ref_group :: "byte list" where
  "ref_group = [255, 2, 0, 0, 0, 0, 0, 0, 0, 0, 0, 0, 0, 0, 0, 20]"

definition ref_by_name :: "netns \<Rightarrow> string \<Rightarrow> (ref_world, link) call" where
  "ref_by_name ns n =
     (\<lambda>w. case ref_links w (ns, n) of
        None \<Rightarrow> (Inl LinkNotFound, w)
      | Some i \<Rightarrow> if \<not> readable (LKind (IfLink i)) then (Inl EINVAL, w) else (Inr (IfLink i), w))"

text \<open>A VxLAN link is refused as existing when one of its identifier is there, in any namespace.\<close>

definition ref_vni_used :: "ref_world \<Rightarrow> int \<Rightarrow> bool" where
  "ref_vni_used w vni \<longleftrightarrow>
     list_ex (\<lambda>(k, _). case ref_links w k of
        None \<Rightarrow> False
      | Some i \<Rightarrow> (case LKind (IfLink i) of Vxlan vx \<Rightarrow> VxlanId vx = vni | _ \<Rightarrow> False)) (RefTab w)"

definition ref_add :: "netns \<Rightarrow> link \<Rightarrow> netns option \<Rightarrow> (ref_world, link) call" where
  "ref_add ns l t =
     (\<lambda>w. let ns' = (case t of None \<Rightarrow> ns | Some ns' \<Rightarrow> ns');
              l' = l\<lparr>LIndex := RefNext w\<rparr>;
              w' = put_link (ns', LName l) (down_iface l') (w\<lparr>RefNext := RefNext w + 2\<rparr>)
          in if ref_links w (ns', LName l) \<noteq> None then (Inl EEXIST, w)
             else case LKind l of
               Veth p \<Rightarrow>
                 if p = LName l \<or> ref_links w (ns', p) \<noteq> None then (Inl EEXIST, w)
                 else (Inr l', put_link (ns', p)
                        (down_iface (l'\<lparr>LIndex := RefNext w + 1, LName := p, LKind := Veth (LName l)\<rparr>)) w')
             | Vxlan vx \<Rightarrow> if ref_vni_used w (VxlanId vx) then (Inl EEXIST, w) else (Inr l', w')
             | _ \<Rightarrow> (Inr l', w'))"

definition ref_del :: "netns \<Rightarrow> link \<Rightarrow> (ref_world, unit) call" where
  "ref_del ns l =
     on_link ns l (\<lambda>d w. (Inr (), prune
       (\<lambda>k. case ref_links w k of
          None \<Rightarrow> False
        | Some i \<Rightarrow> k \<noteq> (ns, LName l) \<and> \<not> cascades d i) w))"

definition ref_set_master :: "netns \<Rightarrow> link \<Rightarrow> link \<Rightarrow> (ref_world, unit) call" where
  "ref_set_master ns l m =
     (\<lambda>w. if LName l \<in> set (RefBad w) then (Inl EINVAL, w)
          else set_iface ns l (\<lambda>i. i\<lparr>IfMaster := Some (LIndex m)\<rparr>) w)"

text \<open>A link that moves keeps its index, unless a link of the namespace it moves to has it.\<close>

definition ref_set_ns :: "netns \<Rightarrow> link \<Rightarrow> netns \<Rightarrow> (ref_world, unit) call" where
  "ref_set_ns ns l ns' =
     on_link ns l (\<lambda>i w.
       if ns = ns' then (Inr (), w)
       else if ref_links w (ns', LName l) \<noteq> None then (Inl EEXIST, w)
       else let idx = (if ref_index w ns' (LIndex l) = None then LIndex l else new_index w)
            in (Inr (), put_link (ns', LName l) (i\<lparr>IfLink := (IfLink i)\<lparr>LIndex := idx\<rparr>, IfUp := False, IfMaster := None\<rparr>)
                 (drop_link (ns, LName l) w)))"

text \<open>A link is renamed by its index.\<close>

definition ref_set_name :: "netns \<Rightarrow> link \<Rightarrow> string \<Rightarrow> (ref_world, unit) call" where
  "ref_set_name ns l n =
     (\<lambda>w. case ref_index w ns (LIndex l) of
        None \<Rightarrow> (Inl LinkNotFound, w)
      | Some k \<Rightarrow>
          if n \<noteq> snd k \<and> ref_links w (ns, n) \<noteq> None then (Inl EEXIST, w)
          else case ref_links w k of
            None \<Rightarrow> (Inl LinkNotFound, w)
          | Some i \<Rightarrow> (Inr (), put_link (ns, n) (relabel n i) (drop_link k w)))"

subsection \<open>Namespaces\<close>

text \<open>The namespace of a thread is number 0; a bind mount makes a new one, with its loopback.\<close>

definition ref_get_ns :: "string \<Rightarrow> (ref_world, netns) call" where
  "ref_get_ns p =
     (\<lambda>w. if HasPrefix p ''/proc/'' then (Inr (NS_FD 0), w)
          else case RefNS w p of None \<Rightarrow> (Inl (OtherErr p), w) | Some n \<Rightarrow> (Inr (NS_FD n), w))"

definition loopback :: link where
  "loopback = no_attrs\<lparr>LName := ''lo'', LIndex := 1, LKind := OtherKind ''loopback''\<rparr>"

definition ref_mount :: "mount_op \<Rightarrow> string \<Rightarrow> string \<Rightarrow> (ref_world, unit) call" where
  "ref_mount op src p =
     (\<lambda>w. if op = BindMount
          then (Inr (), w\<lparr>RefNS := (RefNS w)(p \<mapsto> RefNextNS w), RefNextNS := RefNextNS w + 1,
                  RefTab := AList.update (NS_FD (RefNextNS w), ''lo'') (down_iface loopback) (RefTab w)\<rparr>)
          else (Inr (), w))"

definition ref_stat :: "string \<Rightarrow> (ref_world, unit) call" where
  "ref_stat p = (\<lambda>w. if RefNS w p = None then (Inl (OtherErr p), w) else (Inr (), w))"

definition ref_unmount :: "string \<Rightarrow> umount_flag \<Rightarrow> (ref_world, unit) call" where
  "ref_unmount p fl =
     (\<lambda>w. if RefNS w p = None then (Inl EINVAL, w) else (Inr (), w\<lparr>RefNS := (RefNS w)(p := None)\<rparr>))"

definition nop :: "(ref_world, unit) call" where
  "nop = (\<lambda>w. (Inr (), w))"

text \<open>The addresses of an interface are not kept; configuring it brings it up.\<close>

definition ref_configure :: "netns \<Rightarrow> string \<Rightarrow> cni_result \<Rightarrow> (ref_world, unit) call" where
  "ref_configure ns n res =
     (\<lambda>w. case ref_links w (ns, n) of
        None \<Rightarrow> (Inl LinkNotFound, w)
      | Some i \<Rightarrow> (Inr (), put_link (ns, n) (i\<lparr>IfUp := True\<rparr>) w))"

subsection \<open>IPAM\<close>

text \<open>The type \<open>dhcp\<close> fails, \<open>static\<close> gives an address, any other allocates but gives none.\<close>

definition ref_exec_add :: "string \<Rightarrow> string \<Rightarrow> (ref_world, cni_result) call" where
  "ref_exec_add t d =
     (\<lambda>w. if t = ''dhcp'' then (Inl (OtherErr t), w)
          else (Inr \<lparr>ResultVersion = ''1.0.0'', ResultInterfaces = [],
                  IPs = (if t = ''static'' then Some [\<lparr>IPInterface = None, Address = ''10.0.0.2/24'', Gateway = ''10.0.0.1''\<rparr>]
                         else None),
                  Routes = None,
                  ResultDNS = no_dns\<rparr>, w\<lparr>RefLeases := add_mset (t, d) (RefLeases w)\<rparr>))"

definition ref_exec_del :: "string \<Rightarrow> string \<Rightarrow> (ref_world, unit) call" where
  "ref_exec_del t d = (\<lambda>w. (Inr (), w\<lparr>RefLeases := RefLeases w - {#(t, d)#}\<rparr>))"

text \<open>
  The decoder of the reference host takes the name of the veth, and an IPAM type after a
  slash, instead of JSON.
\<close>

definition ref_conf :: "string \<Rightarrow> go_error + PluginConf" where
  "ref_conf d =
     (case split_slash d of
        [veth] \<Rightarrow> Inr \<lparr>CNIVersion = ''1.0.0'', IPAMType = '''', ConfDNS = no_dns, VethName = veth, EnableDad = False\<rparr>
      | [veth, ipam] \<Rightarrow> Inr \<lparr>CNIVersion = ''1.0.0'', IPAMType = ipam, ConfDNS = no_dns, VethName = veth, EnableDad = False\<rparr>
      | _ \<Rightarrow> Inl EINVAL)"

definition ref_host :: "(ref_world, cni_result) cni_host" where
  "ref_host =
     \<lparr>Stat = ref_stat, MkdirAll = \<lambda>p. nop, CreateFile = \<lambda>p. nop, RemoveFile = \<lambda>p. nop, RemoveAll = \<lambda>p. nop,
      Mount = ref_mount, Unmount = ref_unmount, Unshare = nop, Getpid = \<lambda>w. 1, Gettid = \<lambda>w. 1,
      GetNS = ref_get_ns, SetNS = \<lambda>ns. nop, CloseNS = \<lambda>ns. nop, EnterNS = \<lambda>ns. nop,
      LinkByName = ref_by_name, LinkAdd = ref_add, LinkDel = ref_del,
      LinkSetUp = \<lambda>ns l. set_iface ns l (\<lambda>i. i\<lparr>IfUp := True\<rparr>), LinkSetMaster = ref_set_master,
      LinkSetFwdMask = \<lambda>ns l m. set_iface ns l (\<lambda>i. i\<lparr>IfMask := m\<rparr>),
      LinkSetNsFd = ref_set_ns, LinkSetName = ref_set_name,
      Unmarshal = ref_conf, ParsePrevResult = Inr, HardwareAddr = \<lambda>l. ''02:00:00:00:00:01'',
      NSPath = \<lambda>ns. ''/var/run/netns/pod'', ImplementedSpecVersion = ''1.0.0'',
      ExecAdd = ref_exec_add, ExecDel = ref_exec_del, ExecStatus = \<lambda>t d. nop, NewResultFromResult = Inr,
      Sysctl = \<lambda>k v w. (Inr v, w), ConfigureIface = ref_configure, PrintResult = \<lambda>r v. nop\<rparr>"

definition ref_net :: "ref_world host" where
  "ref_net = host.truncate ref_host"

subsection \<open>The contracts hold of it\<close>

lemma ref_net_simps [simp]:
  "Stat ref_net = ref_stat" "MkdirAll ref_net = (\<lambda>p. nop)" "CreateFile ref_net = (\<lambda>p. nop)"
  "RemoveFile ref_net = (\<lambda>p. nop)" "RemoveAll ref_net = (\<lambda>p. nop)" "Mount ref_net = ref_mount"
  "Unmount ref_net = ref_unmount" "Unshare ref_net = nop" "Getpid ref_net = (\<lambda>w. 1)" "Gettid ref_net = (\<lambda>w. 1)"
  "GetNS ref_net = ref_get_ns" "SetNS ref_net = (\<lambda>ns. nop)" "CloseNS ref_net = (\<lambda>ns. nop)"
  "EnterNS ref_net = (\<lambda>ns. nop)" "LinkByName ref_net = ref_by_name" "LinkAdd ref_net = ref_add"
  "LinkDel ref_net = ref_del" "LinkSetUp ref_net = (\<lambda>ns l. set_iface ns l (\<lambda>i. i\<lparr>IfUp := True\<rparr>))"
  "LinkSetMaster ref_net = ref_set_master"
  "LinkSetFwdMask ref_net = (\<lambda>ns l m. set_iface ns l (\<lambda>i. i\<lparr>IfMask := m\<rparr>))"
  "LinkSetNsFd ref_net = ref_set_ns" "LinkSetName ref_net = ref_set_name"
  by (simp_all add: ref_net_def ref_host_def host.truncate_def)

lemma relabel_same [simp]: "LName (IfLink i) = n \<Longrightarrow> relabel n i = i"
  by (rule iface.equality) (auto simp: relabel_def intro: link.equality)

lemma relabel_name [simp]: "LName (IfLink (relabel n i)) = n"
  by (simp add: relabel_def)

lemma ref_links_name: "ref_links w (ns, n) = Some i \<Longrightarrow> LName (IfLink i) = n"
  by (auto simp: ref_links_def)

lemma ref_links_put [simp]: "ref_links (put_link (ns, n) i w) = (ref_links w)((ns, n) \<mapsto> relabel n i)"
  by (auto simp: ref_links_def put_link_def update_conv')

lemma ref_links_drop [simp]: "ref_links (drop_link k w) = (ref_links w)(k := None)"
  by (auto simp: ref_links_def drop_link_def delete_conv')

lemma map_of_filter_key: "map_of (filter (\<lambda>(k, _). Q k) xs) k = (if Q k then map_of xs k else None)"
  by (induction xs) auto

lemma ref_links_prune [simp]: "ref_links (prune Q w) = (\<lambda>k. if Q k then ref_links w k else None)"
  by (auto simp: ref_links_def prune_def map_of_filter_key)

lemma ref_links_simps [simp]:
  "ref_links (w\<lparr>RefNext := x\<rparr>) = ref_links w" "ref_links (w\<lparr>RefLeases := y\<rparr>) = ref_links w"
  by (simp_all add: ref_links_def)

lemma set_iface_ok:
  assumes "set_iface ns l g w = (r, w')" and "\<And>i. LName (IfLink (g i)) = LName (IfLink i)"
  shows "(\<forall>e. r = Inl e \<longrightarrow> ref_links w' = ref_links w) \<and>
    (\<forall>i. r = Inr () \<longrightarrow> ref_links w (ns, LName l) = Some i \<longrightarrow> LIndex (IfLink i) = LIndex l \<longrightarrow>
       ref_links w' = (ref_links w)((ns, LName l) \<mapsto> g i))"
proof (cases "ref_links w (ns, LName l)")
  case None
  with assms(1) show ?thesis by (auto simp: set_iface_def on_link_def)
next
  case (Some i)
  with assms ref_links_name [OF Some] show ?thesis
    by (auto simp: set_iface_def on_link_def split: if_splits)
qed

lemma ref_by_name_ok:
  "ref_by_name ns n w = (Inr l, w') \<Longrightarrow> ref_links w' = ref_links w \<and> LName l = n \<and>
     (\<exists>i. ref_links w (ns, n) = Some i \<and> IfLink i = l) \<and> LKind l \<noteq> OtherKind ''bridge''"
  "ref_by_name ns n w = (Inl e, w') \<Longrightarrow>
     ref_links w' = ref_links w \<and> (e = LinkNotFound \<longrightarrow> ref_links w (ns, n) = None)"
  by (auto simp: ref_by_name_def ref_links_name split: option.splits if_splits)

lemma ref_add_plain:
  assumes "ref_add ns l t w = (Inr l', w')" and "\<forall>p. LKind l \<noteq> Veth p"
  shows "\<exists>ns'. ns' = (case t of None \<Rightarrow> ns | Some ns' \<Rightarrow> ns') \<and> ref_links w (ns', LName l) = None \<and>
    (\<exists>idx i. l' = l\<lparr>LIndex := idx\<rparr> \<and> fresh_iface l' i \<and> ref_links w' = (ref_links w)((ns', LName l) \<mapsto> i))"
proof -
  define ns' where "ns' = (case t of None \<Rightarrow> ns | Some ns' \<Rightarrow> ns')"
  define i where "i = down_iface (l\<lparr>LIndex := RefNext w\<rparr>)"
  have fresh: "fresh_iface (l\<lparr>LIndex := RefNext w\<rparr>) i"
    by (simp add: fresh_iface_def i_def down_iface_def split: link_kind.split)
  have name: "LName (IfLink i) = LName l" by (simp add: i_def down_iface_def)
  from assms have r: "l' = l\<lparr>LIndex := RefNext w\<rparr>" "ref_links w (ns', LName l) = None"
    "w' = put_link (ns', LName l) i (w\<lparr>RefNext := RefNext w + 2\<rparr>)"
    by (auto simp: ref_add_def Let_def ns'_def [symmetric] i_def split: link_kind.splits if_splits)
  from r(3) name have "ref_links w' = (ref_links w)((ns', LName l) \<mapsto> i)"
    by simp
  with r(1,2) fresh show ?thesis unfolding ns'_def [symmetric] by blast
qed

lemma ref_add_veth:
  assumes "ref_add ns l None w = (Inr l', w')" and "LKind l = Veth p"
  shows "ref_links w (ns, LName l) = None \<and> ref_links w (ns, p) = None \<and> LName l \<noteq> p \<and>
      (\<exists>idx i j. l' = l\<lparr>LIndex := idx\<rparr> \<and> fresh_iface l' i \<and> LName (IfLink j) = p \<and>
        LKind (IfLink j) = Veth (LName l) \<and> \<not> IfUp j \<and> IfMaster j = None \<and>
        ref_links w' = (ref_links w)((ns, LName l) \<mapsto> i, (ns, p) \<mapsto> j))"
proof -
  define i where "i = down_iface (l\<lparr>LIndex := RefNext w\<rparr>)"
  define j where "j = down_iface (l\<lparr>LIndex := RefNext w + 1, LName := p, LKind := Veth (LName l)\<rparr>)"
  have i: "fresh_iface (l\<lparr>LIndex := RefNext w\<rparr>) i" "LName (IfLink i) = LName l"
    by (simp_all add: fresh_iface_def i_def down_iface_def split: link_kind.split)
  have j: "LName (IfLink j) = p" "LKind (IfLink j) = Veth (LName l)" "\<not> IfUp j" "IfMaster j = None"
    by (simp_all add: j_def down_iface_def)
  from assms have r: "l' = l\<lparr>LIndex := RefNext w\<rparr>" "ref_links w (ns, LName l) = None"
    "ref_links w (ns, p) = None" "LName l \<noteq> p"
    "w' = put_link (ns, p) j (put_link (ns, LName l) i (w\<lparr>RefNext := RefNext w + 2\<rparr>))"
    by (auto simp: ref_add_def Let_def i_def j_def split: if_splits)
  have "ref_links w' = (ref_links w)((ns, LName l) \<mapsto> i, (ns, p) \<mapsto> j)"
    unfolding r(5) using i j by simp
  with r(1-4) i(1) j show ?thesis by blast
qed

lemma ref_add_err: "ref_add ns l t w = (Inl e, w') \<Longrightarrow> ref_links w' = ref_links w"
  by (auto simp: ref_add_def Let_def split: link_kind.splits if_splits)

lemma ref_del_ok:
  assumes "ref_del ns l w = (Inr (), w')" and "ref_links w (ns, LName l) = Some d"
    and "LIndex (IfLink d) = LIndex l"
  shows "deleted (ref_links w) (ns, LName l) d (ref_links w')"
proof -
  have "ref_links w' = (\<lambda>k. if case ref_links w k of None \<Rightarrow> False
      | Some i \<Rightarrow> k \<noteq> (ns, LName l) \<and> \<not> cascades d i then ref_links w k else None)"
    using assms by (auto simp: ref_del_def on_link_def)
  then show ?thesis by (auto simp: deleted_def split: option.splits if_splits)
qed

lemma ref_set_ns_eq:
  assumes "ref_set_ns ns l ns' w = (Inr (), w')" and "ns \<noteq> ns'"
    and "ref_links w (ns, LName l) = Some i" and "LIndex (IfLink i) = LIndex l"
  shows "ref_links w (ns', LName l) = None \<and> ref_links w' = (ref_links w)((ns, LName l) := None,
        (ns', LName l) \<mapsto> i\<lparr>IfLink := (IfLink i)\<lparr>LIndex :=
           (if ref_index w ns' (LIndex l) = None then LIndex l else new_index w)\<rparr>, IfUp := False, IfMaster := None\<rparr>)"
proof -
  let ?j = "i\<lparr>IfLink := (IfLink i)\<lparr>LIndex :=
      (if ref_index w ns' (LIndex l) = None then LIndex l else new_index w)\<rparr>, IfUp := False, IfMaster := None\<rparr>"
  from assms have free: "ref_links w (ns', LName l) = None" and w': "w' = put_link (ns', LName l) ?j (drop_link (ns, LName l) w)"
    by (auto simp: ref_set_ns_def on_link_def Let_def split: if_splits)
  have "relabel (LName l) ?j = ?j" using ref_links_name [OF assms(3)] by (intro relabel_same) simp
  with free w' show ?thesis by simp
qed

lemma ref_set_ns_ok:
  assumes "ref_set_ns ns l ns' w = (Inr (), w')" and "ns \<noteq> ns'"
    and "ref_links w (ns, LName l) = Some i" and "LIndex (IfLink i) = LIndex l"
  shows "ref_links w (ns', LName l) = None \<and> (\<exists>idx. ref_links w' = (ref_links w)((ns, LName l) := None,
        (ns', LName l) \<mapsto> i\<lparr>IfLink := (IfLink i)\<lparr>LIndex := idx\<rparr>, IfUp := False, IfMaster := None\<rparr>))"
  using ref_set_ns_eq [OF assms] by blast

lemma ref_master_ok:
  "ref_set_master ns l m w = (Inr (), w') \<Longrightarrow> ref_links w (ns, LName l) = Some i \<Longrightarrow>
     LIndex (IfLink i) = LIndex l \<Longrightarrow>
     ref_links w' = (ref_links w)((ns, LName l) \<mapsto> i\<lparr>IfMaster := Some (LIndex m)\<rparr>)"
  "ref_set_master ns l m w = (Inl e, w') \<Longrightarrow> ref_links w' = ref_links w"
  using set_iface_ok [of ns l "\<lambda>i. i\<lparr>IfMaster := Some (LIndex m)\<rparr>" w]
  by (auto simp: ref_set_master_def split: if_splits)

lemma ref_get_ns_ok: "ref_get_ns p w = (Inr ns, w') \<Longrightarrow> ns \<noteq> HostNS"
  by (auto simp: ref_get_ns_def split: if_splits option.splits)

lemma ref_add_none:
  assumes "ref_add ns l None w = (Inr l', w')" and "\<forall>p. LKind l \<noteq> Veth p"
  shows "ref_links w (ns, LName l) = None \<and> (\<exists>idx i. l' = l\<lparr>LIndex := idx\<rparr> \<and> fresh_iface l' i \<and>
        ref_links w' = (ref_links w)((ns, LName l) \<mapsto> i))"
  using ref_add_plain [OF assms] by auto

lemma ref_add_into:
  assumes "ref_add ns l (Some ns') w = (Inr l', w')" and "\<forall>p. LKind l \<noteq> Veth p"
  shows "ref_links w (ns', LName l) = None \<and> (\<exists>idx i. fresh_iface (l\<lparr>LIndex := idx\<rparr>) i \<and>
        ref_links w' = (ref_links w)((ns', LName l) \<mapsto> i))"
  using ref_add_plain [OF assms] by auto

lemma ref_on_link_err:
  "ref_del ns l w = (Inl e, w') \<Longrightarrow> ref_links w' = ref_links w"
  by (auto simp: ref_del_def on_link_def split: option.splits if_splits)

lemma ref_set_ok:
  "set_iface ns l (\<lambda>i. i\<lparr>IfUp := True\<rparr>) w = (Inr (), w') \<Longrightarrow> ref_links w (ns, LName l) = Some i \<Longrightarrow>
     LIndex (IfLink i) = LIndex l \<Longrightarrow> ref_links w' = (ref_links w)((ns, LName l) \<mapsto> i\<lparr>IfUp := True\<rparr>)"
  "set_iface ns l (\<lambda>i. i\<lparr>IfMask := k\<rparr>) w = (Inr (), w') \<Longrightarrow> ref_links w (ns, LName l) = Some i \<Longrightarrow>
     LIndex (IfLink i) = LIndex l \<Longrightarrow> ref_links w' = (ref_links w)((ns, LName l) \<mapsto> i\<lparr>IfMask := k\<rparr>)"
  using set_iface_ok [of ns l "\<lambda>i. i\<lparr>IfUp := True\<rparr>" w] set_iface_ok [of ns l "\<lambda>i. i\<lparr>IfMask := k\<rparr>" w]
  by auto

lemma ref_set_err:
  "set_iface ns l (\<lambda>i. i\<lparr>IfUp := True\<rparr>) w = (Inl e, w') \<Longrightarrow> ref_links w' = ref_links w"
  "set_iface ns l (\<lambda>i. i\<lparr>IfMask := k\<rparr>) w = (Inl e, w') \<Longrightarrow> ref_links w' = ref_links w"
  using set_iface_ok [of ns l "\<lambda>i. i\<lparr>IfUp := True\<rparr>" w] set_iface_ok [of ns l "\<lambda>i. i\<lparr>IfMask := k\<rparr>" w]
  by auto

lemma ref_set_ns_err: "ref_set_ns ns l ns' w = (Inl e, w') \<Longrightarrow> ref_links w' = ref_links w"
  by (auto simp: ref_set_ns_def on_link_def split: option.splits if_splits)

interpretation ref: kernel ref_net ref_links
proof
  show "ref_links w (ns, n) = Some i \<Longrightarrow> LName (IfLink i) = n" for w ns n i
    by (rule ref_links_name)
  show "ref_links (snd (EnterNS ref_net ns w)) = ref_links w" for ns w
    by (simp add: nop_def)
  show "GetNS ref_net p w = (Inr ns, w') \<Longrightarrow> ns \<noteq> HostNS" for p w ns w'
    by (simp add: ref_get_ns_ok)
  show "ref_links (snd (GetNS ref_net p w)) = ref_links w" "ref_links (snd (Stat ref_net p w)) = ref_links w" for p w
    by (simp_all add: ref_get_ns_def ref_stat_def split: option.split)
  show "LinkByName ref_net ns n w = (Inr l, w') \<Longrightarrow> ref_links w' = ref_links w \<and> LName l = n \<and>
      (\<exists>i. ref_links w (ns, n) = Some i \<and> IfLink i = l)" for ns n w l w'
    using ref_by_name_ok(1) by simp
  show "LinkByName ref_net ns n w = (Inr l, w') \<Longrightarrow> LKind l \<noteq> OtherKind ''bridge''" for ns n w l w'
    using ref_by_name_ok(1) by simp
  show "LinkByName ref_net ns n w = (Inl e, w') \<Longrightarrow>
      ref_links w' = ref_links w \<and> (e = LinkNotFound \<longrightarrow> ref_links w (ns, n) = None)" for ns n w e w'
    using ref_by_name_ok(2) by simp
qed (simp_all only: ref_net_simps,
    (rule ref_add_none ref_add_veth ref_add_into ref_add_err ref_del_ok ref_on_link_err ref_set_ok
      ref_set_err ref_master_ok ref_set_ns_ok ref_set_ns_err, assumption+)+)

text \<open>A host without links whose master cannot be set refuses nothing.\<close>

definition ref_well :: "ref_world \<Rightarrow> bool" where
  "ref_well w \<longleftrightarrow> RefBad w = []"

definition ref_busy :: "ref_world \<Rightarrow> netns \<Rightarrow> int \<Rightarrow> MacvlanMode \<Rightarrow> bool" where
  "ref_busy w ns idx md \<longleftrightarrow> False"

lemma ref_calmer: "calmer ref_well ref_busy w w' \<longleftrightarrow> (RefBad w = [] \<longrightarrow> RefBad w' = [])"
  by (simp add: calmer_def ref_well_def ref_busy_def)

lemma ref_bad_on_link:
  assumes "\<And>i w. RefBad (snd (f i w)) = RefBad w"
  shows "RefBad (snd (on_link ns l f w)) = RefBad w"
  using assms by (auto simp: on_link_def split: option.split)

lemma ref_fields [simp]:
  "RefBad (put_link k i w) = RefBad w" "RefBad (drop_link k w) = RefBad w" "RefBad (prune Q w) = RefBad w"
  "RefLeases (put_link k i w) = RefLeases w" "RefLeases (drop_link k w) = RefLeases w" "RefLeases (prune Q w) = RefLeases w"
  by (simp_all add: put_link_def drop_link_def prune_def)

lemma ref_bad_kept [simp]:
  "RefBad (snd (ref_by_name ns n w)) = RefBad w" "RefBad (snd (ref_add ns l t w)) = RefBad w"
  "RefBad (snd (set_iface ns l g w)) = RefBad w" "RefBad (snd (ref_set_master ns l b w)) = RefBad w"
  "RefBad (snd (ref_del ns l w)) = RefBad w" "RefBad (snd (ref_set_ns ns l ns' w)) = RefBad w"
proof -
  show "RefBad (snd (ref_by_name ns n w)) = RefBad w" by (auto simp: ref_by_name_def split: option.split)
  show "RefBad (snd (ref_add ns l t w)) = RefBad w" by (auto simp: ref_add_def Let_def split: link_kind.split)
  show [simp]: "RefBad (snd (set_iface ns l g w)) = RefBad w" for g
    unfolding set_iface_def by (rule ref_bad_on_link) simp
  show "RefBad (snd (ref_set_master ns l b w)) = RefBad w" by (simp add: ref_set_master_def)
  show "RefBad (snd (ref_del ns l w)) = RefBad w" unfolding ref_del_def by (rule ref_bad_on_link) simp
  show "RefBad (snd (ref_set_ns ns l ns' w)) = RefBad w"
    unfolding ref_set_ns_def by (rule ref_bad_on_link) (simp add: Let_def)
qed

lemma on_link_current:
  "ref_links w (ns, LName l) = Some i \<Longrightarrow> LIndex (IfLink i) = LIndex l \<Longrightarrow> on_link ns l f w = f i w"
  by (simp add: on_link_def)

lemma ref_del_pair:
  assumes "ref_del ns l w = (Inr (), w')" and "ref_links w (ns, LName l) = Some i" and "LIndex (IfLink i) = LIndex l"
    and "other_end (view (ref_links w)) (LName l) p k"
  shows "ref_links w' k = None"
proof -
  from other_end_there [OF assms(4)] obtain j where j: "ref_links w k = Some j" "LKind (IfLink j) = Veth (LName l)"
    by auto
  have "cascades i j" using j(2) ref_links_name [OF assms(2)] by (simp add: cascades_def)
  with assms(1-3) j(1) show ?thesis
    by (auto simp: ref_del_def on_link_current)
qed

interpretation ref_willing: willing_kernel ref_net ref_links ref_well ref_busy
proof (unfold_locales, simp_all only: ref_net_simps ref_calmer ref_busy_def ref_well_def)
  show "ref_links w' k = None"
    if "ref_del ns l w = (Inr (), w')" "ref_links w (ns, LName l) = Some i" "LIndex (IfLink i) = LIndex l"
      "other_end (view (ref_links w)) (LName l) p k" for ns l w w' i p k
    using ref_del_pair [OF that] .
qed (auto simp: ref_by_name_def nop_def ref_add_def Let_def set_iface_def on_link_current ref_set_master_def ref_del_def
  ref_set_ns_def acceptable_def ref_bad_on_link Let_def split: option.splits link_kind.splits)

text \<open>It joins VxLAN links to bridges.\<close>

lemma ref_vni_usedD:
  assumes "ref_vni_used w vni"
  shows "\<exists>k i vx. ref_links w k = Some i \<and> LKind (IfLink i) = Vxlan vx \<and> VxlanId vx = vni"
proof -
  from assms obtain k i0 where "(k, i0) \<in> set (RefTab w)" and *: "case ref_links w k of None \<Rightarrow> False
      | Some i \<Rightarrow> (case LKind (IfLink i) of Vxlan vx \<Rightarrow> VxlanId vx = vni | _ \<Rightarrow> False)"
    by (auto simp: ref_vni_used_def list_ex_iff)
  then obtain i where "ref_links w k = Some i" "case LKind (IfLink i) of Vxlan vx \<Rightarrow> VxlanId vx = vni | _ \<Rightarrow> False"
    by (cases "ref_links w k") auto
  then show ?thesis by (intro exI [of _ k] exI [of _ i]) (cases "LKind (IfLink i)", auto)
qed

lemma ref_add_exists:
  assumes "ref_add HostNS l (Some ns) w = (Inl e, w')" and "LKind l = Vxlan vx" and "ref_links w (ns, LName l) = None"
  shows "\<exists>k i vx'. ref_links w k = Some i \<and> LKind (IfLink i) = Vxlan vx' \<and> VxlanId vx' = VxlanId vx"
proof -
  from assms have "ref_vni_used w (VxlanId vx)" by (auto simp: ref_add_def Let_def split: if_splits)
  from ref_vni_usedD [OF this] show ?thesis .
qed

lemma ref_vxlan_parent:
  assumes "ref_add HostNS l (Some ns) w = (Inr l', w')" and "LKind l = Vxlan vx"
    and "ref_links w' (ns, LName l) = Some i"
  shows "LParentIndex (IfLink i) = LParentIndex l"
  using assms by (auto simp: ref_add_def Let_def down_iface_def relabel_def split: if_splits)

interpretation ref_joining: joining_kernel ref_net ref_links ref_well ref_busy
proof (unfold_locales, simp_all only: ref_net_simps)
  show "\<exists>w'. ref_set_master ns l br w = (Inr (), w')"
    if "ref_well w" "ref_links w (ns, LName l) = Some i" "LIndex (IfLink i) = LIndex l" for w ns l i br
    using that by (simp add: ref_well_def ref_set_master_def set_iface_def on_link_current)
  show "\<exists>w'. set_iface ns l (\<lambda>i. i\<lparr>IfUp := True\<rparr>) w = (Inr (), w')"
    if "ref_links w (ns, LName l) = Some i" "LIndex (IfLink i) = LIndex l" for w ns l i
    using that by (simp add: set_iface_def on_link_current)
  show "\<exists>k i vx'. ref_links w k = Some i \<and> LKind (IfLink i) = Vxlan vx' \<and> VxlanId vx' = VxlanId vx"
    if "ref_add HostNS l (Some ns) w = (Inl e, w')" "LKind l = Vxlan vx" "ref_links w (ns, LName l) = None"
    for l ns w e w' vx
    using ref_add_exists [OF that] .
qed (auto dest: ref_vxlan_parent)

text \<open>The other contract: what concerns leases.\<close>

lemma keeps_on_link:
  assumes "\<And>i w. f (snd (g i w)) = f w"
  shows "keeps f (on_link ns l g)"
  using assms by (auto simp: keeps_def on_link_def split: option.split)

lemma ref_keeps_leases:
  "keeps RefLeases (ref_get_ns p)" "keeps RefLeases (ref_by_name ns n)"
  "keeps RefLeases (ref_set_ns ns l ns')" "keeps RefLeases (ref_set_name ns l n)" "keeps RefLeases nop"
  "keeps RefLeases (ref_configure ns n res)"
  by (auto simp: keeps_def ref_get_ns_def ref_by_name_def nop_def ref_configure_def split: option.split)
    (auto simp: ref_set_ns_def ref_set_name_def Let_def split: option.split intro!: keeps_on_link [unfolded keeps_def, rule_format])

interpretation ref_ipam: ipam_leases ref_host RefLeases
  by unfold_locales
    (auto simp: ref_host_def ref_keeps_leases ref_exec_add_def ref_exec_del_def keeps_def [of _ "\<lambda>w. (Inr _, w)"]
      split: if_splits)

text \<open>What happens to links in a pod.\<close>

lemma ref_indexD:
  assumes "ref_index w ns idx = Some k"
  shows "\<exists>n i. k = (ns, n) \<and> ref_links w (ns, n) = Some i \<and> LIndex (IfLink i) = idx"
  using assms by (cases k) (auto simp: ref_index_def find_Some_iff dest!: nth_mem split: option.splits)

lemma ref_index_None: "ref_index w ns idx = None \<longleftrightarrow> \<not> index_used (ref_links w) ns idx"
proof
  assume none: "ref_index w ns idx = None"
  show "\<not> index_used (ref_links w) ns idx"
  proof
    assume "index_used (ref_links w) ns idx"
    then obtain n i where i: "ref_links w (ns, n) = Some i" "LIndex (IfLink i) = idx" by (auto simp: index_used_def)
    from i(1) obtain i0 where "((ns, n), i0) \<in> set (RefTab w)" by (auto simp: ref_links_def dest: map_of_SomeD)
    with none i show False by (fastforce simp: ref_index_def find_None_iff)
  qed
next
  assume "\<not> index_used (ref_links w) ns idx"
  then show "ref_index w ns idx = None"
    by (cases "ref_index w ns idx") (auto simp: index_used_def dest!: ref_indexD)
qed

lemma new_index_above: "ref_links w k = Some i \<Longrightarrow> LIndex (IfLink i) < new_index w"
proof -
  have "LIndex (IfLink i) \<le> foldr (\<lambda>(_, i) m. max (LIndex (IfLink i)) m) xs 0" if "(k, i) \<in> set xs" for xs :: "((netns \<times> string) \<times> iface) list" and i
    using that by (induction xs) (auto simp: le_max_iff_disj)
  then show "ref_links w k = Some i \<Longrightarrow> LIndex (IfLink i) < new_index w"
    by (fastforce simp: ref_links_def new_index_def relabel_def dest: map_of_SomeD)
qed

lemma ref_moved_index:
  assumes "ref_set_ns ns l ns' w = (Inr (), w')" and "ns \<noteq> ns'"
    and "ref_links w (ns, LName l) = Some i" and "LIndex (IfLink i) = LIndex l"
    and "ref_links w' (ns', LName l) = Some j"
  shows "LIndex (IfLink j) = LIndex l \<longleftrightarrow> \<not> index_used (ref_links w) ns' (LIndex l)"
  using ref_set_ns_eq [OF assms(1-4)] assms(4,5) ref_index_None [of w ns' "LIndex l"] new_index_above [OF assms(3)]
  by auto

lemma ref_set_name_ok:
  assumes "ref_set_name ns l n w = (Inr (), w')"
  shows "\<exists>n0 i. ref_links w (ns, n0) = Some i \<and> LIndex (IfLink i) = LIndex l \<and> (n0 = n \<or> ref_links w (ns, n) = None) \<and>
    ref_links w' = (ref_links w)((ns, n0) := None, (ns, n) \<mapsto> i\<lparr>IfLink := (IfLink i)\<lparr>LName := n\<rparr>\<rparr>)"
proof (cases "ref_index w ns (LIndex l)")
  case None
  with assms show ?thesis by (simp add: ref_set_name_def)
next
  case (Some k)
  from ref_indexD [OF this] obtain n0 i where "k = (ns, n0)" "ref_links w (ns, n0) = Some i" "LIndex (IfLink i) = LIndex l"
    by blast
  with assms Some show ?thesis
    by (intro exI [of _ n0] exI [of _ i]) (auto simp: ref_set_name_def relabel_def split: if_splits)
qed

lemma ref_configure_ok:
  assumes "ref_configure ns n res w = (Inr (), w')"
  shows "\<exists>i. ref_links w (ns, n) = Some i \<and> ref_links w' = (ref_links w)((ns, n) \<mapsto> i\<lparr>IfUp := True\<rparr>)"
  using assms ref_links_name [of w ns n] by (auto simp: ref_configure_def split: option.splits)

lemma ref_cni_simps:
  "LinkSetNsFd ref_host = ref_set_ns" "LinkSetName ref_host = ref_set_name" "Sysctl ref_host = (\<lambda>k v w. (Inr v, w))"
  "ExecAdd ref_host = ref_exec_add" "PrintResult ref_host = (\<lambda>r v. nop)" "ConfigureIface ref_host = ref_configure"
  by (simp_all add: ref_host_def)

interpretation ref_pod: pod_kernel ref_host ref_links
proof (intro pod_kernel.intro pod_kernel_axioms.intro, unfold ref_cni_simps)
  show "kernel (host.truncate ref_host) ref_links"
    using ref.kernel_axioms by (simp add: ref_net_def)
qed (rule ref_moved_index ref_set_name_ok ref_configure_ok | assumption | simp add: ref_exec_add_def nop_def)+

lemma ref_host_simps:
  "Unmarshal ref_host = ref_conf" "ParsePrevResult ref_host = Inr" "GetNS ref_host = ref_get_ns"
  "LinkByName ref_host = ref_by_name" "LinkSetNsFd ref_host = ref_set_ns" "LinkSetName ref_host = ref_set_name"
  "EnterNS ref_host = (\<lambda>ns. nop)" "ExecAdd ref_host = ref_exec_add" "ExecDel ref_host = ref_exec_del"
  "NewResultFromResult ref_host = Inr" "Sysctl ref_host = (\<lambda>k v w. (Inr v, w))"
  "ConfigureIface ref_host = ref_configure" "PrintResult ref_host = (\<lambda>r v. nop)" "EnterNS (host.truncate ref_host) = (\<lambda>ns. nop)"
  by (simp_all add: ref_host_def host.truncate_def)

lemma ref_rename_ok:
  assumes "ref_links w (ns, n0) = Some i" and "LIndex (IfLink i) = LIndex l"
    and "\<forall>m j. ref_links w (ns, m) = Some j \<and> LIndex (IfLink j) = LIndex l \<longrightarrow> m = n0"
    and "n0 = n \<or> ref_links w (ns, n) = None"
  shows "\<exists>w'. ref_set_name ns l n w = (Inr (), w')"
proof (cases "ref_index w ns (LIndex l)")
  case None
  with assms(1,2) show ?thesis by (auto simp: ref_index_None index_used_def)
next
  case (Some k)
  from ref_indexD [OF this] assms(3) have "k = (ns, n0)" by blast
  with Some assms(1,4) show ?thesis by (auto simp: ref_set_name_def)
qed

text \<open>It grants addresses to the IPAM type \<open>static\<close>.\<close>

interpretation ref_ready: willing_pod ref_host ref_links ref_well "\<lambda>t d. t = ''static''" "\<lambda>ips routes. True" "\<lambda>v. True"
proof (unfold_locales, unfold ref_host_simps)
  show "\<exists>w'. ref_set_name ns l n w = (Inr (), w')"
    if "ref_links w (ns, n0) = Some i" "LIndex (IfLink i) = LIndex l"
      "\<forall>m j. ref_links w (ns, m) = Some j \<and> LIndex (IfLink j) = LIndex l \<longrightarrow> m = n0"
      "n0 = n \<or> ref_links w (ns, n) = None" for w ns n0 i l n
    using that by (rule ref_rename_ok)
  show "ref_well (snd (ref_set_ns ns l ns' w))" if "ref_well w" for w ns l ns'
    using that by (auto simp: ref_well_def ref_set_ns_def ref_bad_on_link Let_def)
  show "ref_well (snd (ref_set_name ns l n w))" if "ref_well w" for w ns l n
    using that by (auto simp: ref_well_def ref_set_name_def put_link_def drop_link_def split: option.split)
qed (auto simp: ref_by_name_def ref_set_ns_def on_link_current nop_def ref_exec_add_def ref_configure_def ref_well_def
  ref_get_ns_def Let_def split: option.splits)

end
