(* ===== verification/DeepCopy.thy ===== *)
theory DeepCopy
  imports LanTypes
begin

section \<open>Deep copies\<close>

text \<open>
  Models \<open>api/v1beta1/zz_generated.deepcopy.go\<close>. Elsewhere in the development a LAN is a value.
  Here its structs are as they lie in memory, with pointers, slices and a map, so that a copy
  can share cells with the original or not. The copies of \<open>metav1.ObjectMeta\<close>,
  \<open>metav1.ListMeta\<close> and \<open>metav1.Condition\<close> are functions of another package, and arguments of
  the definitions that call them. The locale \<open>deep_copier\<close> is what a caller of \<open>DeepCopyInto\<close>
  relies on.
\<close>

subsection \<open>Memory\<close>

type_synonym loc = nat

record slice_ref =
  SArr :: loc
  SOff :: nat
  SLen :: nat

record LANSpec_mem =
  mNS :: "loc option"
  mBridgeName :: "loc option"
  mVxLANName :: "loc option"
  mVNI :: "loc option"
  mVxLANGrp :: "loc option"
  mDefaultVxDev :: string
  mVxDevMap :: "loc option"
  mVxPort :: "loc option"
  mSpokeList :: "slice_ref option"

record LANStatus_mem =
  mConditions :: "slice_ref option"

record 'm LAN_mem =
  mType :: TypeMeta
  mMeta :: 'm
  mSpec :: LANSpec_mem
  mStatus :: LANStatus_mem

record 'l LANList_mem =
  mListType :: TypeMeta
  mListMeta :: 'l
  mItems :: "slice_ref option"

text \<open>A cell holds a variable, an array or a struct; it is zeroed when it is allocated.\<close>

datatype ('m, 'l, 'c) cell =
    Zeroed
  | StrCell string
  | IntCell int32
  | MapCell "(string, string) fmap"
  | StrArr "string list"
  | CondArr "'c list"
  | LanArr "'m LAN_mem list"
  | SpecCell LANSpec_mem
  | StatusCell LANStatus_mem
  | LanCell "'m LAN_mem"
  | ListCell "'l LANList_mem"

record ('m, 'l, 'c) heap =
  Cells :: "loc \<Rightarrow> ('m, 'l, 'c) cell"
  Next :: loc

definition alloc :: "('m, 'l, 'c) heap \<Rightarrow> loc \<times> ('m, 'l, 'c) heap" where
  "alloc H = (Next H, H\<lparr>Cells := (Cells H)(Next H := Zeroed), Next := Next H + 1\<rparr>)"

definition put :: "loc \<Rightarrow> ('m, 'l, 'c) cell \<Rightarrow> ('m, 'l, 'c) heap \<Rightarrow> ('m, 'l, 'c) heap" where
  "put a x H = H\<lparr>Cells := (Cells H)(a := x)\<rparr>"

text \<open>What each kind of cell holds; \<open>None\<close> for a cell of another kind.\<close>

definition get_str where "get_str x = (case x of StrCell s \<Rightarrow> Some s | _ \<Rightarrow> None)"
definition get_int where "get_int x = (case x of IntCell i \<Rightarrow> Some i | _ \<Rightarrow> None)"
definition get_map where "get_map x = (case x of MapCell m \<Rightarrow> Some m | _ \<Rightarrow> None)"
definition get_strs where "get_strs x = (case x of StrArr xs \<Rightarrow> Some xs | _ \<Rightarrow> None)"
definition get_conds where "get_conds x = (case x of CondArr xs \<Rightarrow> Some xs | _ \<Rightarrow> None)"
definition get_lans where "get_lans x = (case x of LanArr xs \<Rightarrow> Some xs | _ \<Rightarrow> None)"
definition get_spec where "get_spec x = (case x of SpecCell s \<Rightarrow> Some s | _ \<Rightarrow> None)"
definition get_status where "get_status x = (case x of StatusCell s \<Rightarrow> Some s | _ \<Rightarrow> None)"
definition get_lan where "get_lan x = (case x of LanCell s \<Rightarrow> Some s | _ \<Rightarrow> None)"
definition get_list where "get_list x = (case x of ListCell s \<Rightarrow> Some s | _ \<Rightarrow> None)"

lemmas get_defs = get_str_def get_int_def get_map_def get_strs_def get_conds_def get_lans_def get_spec_def
  get_status_def get_lan_def get_list_def

subsection \<open>The three shapes of a copy\<close>

text \<open>A value without pointers is copied by assignment.\<close>

definition assign :: "'s \<Rightarrow> ('m, 'l, 'c) heap \<Rightarrow> 's \<times> ('m, 'l, 'c) heap" where
  "assign x H = (x, H)"

text \<open>
  A pointer: nil stays nil, otherwise a new variable is made and what the old one holds is
  copied into it. A pointer in a Go program is nil or points to a cell of its kind.
\<close>

definition copy_ptr where
  "copy_ptr get mk copy p H =
     (case p of
        None \<Rightarrow> (None, H)
      | Some a \<Rightarrow> (case get (Cells H a) of
            None \<Rightarrow> (None, H)
          | Some x \<Rightarrow> (case alloc H of (b, H1) \<Rightarrow> (case copy x H1 of (y, H2) \<Rightarrow> (Some b, put b (mk y) H2)))))"

text \<open>
  A slice: an array of its length is made, and the elements are copied one after the other.
  Their assignments to the array are collected into one at the end of the loop.
\<close>

fun copy_elems where
  "copy_elems copy [] H = ([], H)"
| "copy_elems copy (x # xs) H =
     (case copy x H of (y, H1) \<Rightarrow> (case copy_elems copy xs H1 of (ys, H2) \<Rightarrow> (y # ys, H2)))"

definition slice_of :: "'x list \<Rightarrow> slice_ref \<Rightarrow> 'x list" where
  "slice_of xs s = take (SLen s) (drop (SOff s) xs)"

definition copy_slice where
  "copy_slice get mk copy p H =
     (case p of
        None \<Rightarrow> (None, H)
      | Some s \<Rightarrow> (case get (Cells H (SArr s)) of
            None \<Rightarrow> (None, H)
          | Some xs \<Rightarrow> (case alloc H of (b, H1) \<Rightarrow>
              (case copy_elems copy (slice_of xs s) H1 of (ys, H2) \<Rightarrow>
                (Some \<lparr>SArr = b, SOff = 0, SLen = SLen s\<rparr>, put b (mk ys) H2)))))"

subsection \<open>The generated functions\<close>

definition DeepCopyInto_LANSpec :: "LANSpec_mem \<Rightarrow> ('m, 'l, 'c) heap \<Rightarrow> LANSpec_mem \<times> ('m, 'l, 'c) heap" where
  "DeepCopyInto_LANSpec inn H =
     (case copy_ptr get_str StrCell assign (mNS inn) H of (ns, H) \<Rightarrow>
      case copy_ptr get_str StrCell assign (mBridgeName inn) H of (bridge, H) \<Rightarrow>
      case copy_ptr get_str StrCell assign (mVxLANName inn) H of (vxlan, H) \<Rightarrow>
      case copy_ptr get_int IntCell assign (mVNI inn) H of (vni, H) \<Rightarrow>
      case copy_ptr get_str StrCell assign (mVxLANGrp inn) H of (grp, H) \<Rightarrow>
      case copy_ptr get_map MapCell assign (mVxDevMap inn) H of (devs, H) \<Rightarrow>
      case copy_ptr get_int IntCell assign (mVxPort inn) H of (port, H) \<Rightarrow>
      case copy_slice get_strs StrArr assign (mSpokeList inn) H of (spokes, H) \<Rightarrow>
      (inn\<lparr>mNS := ns, mBridgeName := bridge, mVxLANName := vxlan, mVNI := vni, mVxLANGrp := grp,
          mVxDevMap := devs, mVxPort := port, mSpokeList := spokes\<rparr>, H))"

definition DeepCopyInto_LANStatus ::
    "('c \<Rightarrow> ('m, 'l, 'c) heap \<Rightarrow> 'c \<times> ('m, 'l, 'c) heap) \<Rightarrow>
       LANStatus_mem \<Rightarrow> ('m, 'l, 'c) heap \<Rightarrow> LANStatus_mem \<times> ('m, 'l, 'c) heap" where
  "DeepCopyInto_LANStatus cond inn H =
     (case copy_slice get_conds CondArr cond (mConditions inn) H of (conds, H) \<Rightarrow>
      (inn\<lparr>mConditions := conds\<rparr>, H))"

definition DeepCopyInto_LAN ::
    "('m \<Rightarrow> ('m, 'l, 'c) heap \<Rightarrow> 'm \<times> ('m, 'l, 'c) heap) \<Rightarrow> ('c \<Rightarrow> ('m, 'l, 'c) heap \<Rightarrow> 'c \<times> ('m, 'l, 'c) heap) \<Rightarrow>
       'm LAN_mem \<Rightarrow> ('m, 'l, 'c) heap \<Rightarrow> 'm LAN_mem \<times> ('m, 'l, 'c) heap" where
  "DeepCopyInto_LAN meta cond inn H =
     (case meta (mMeta inn) H of (m, H) \<Rightarrow>
      case DeepCopyInto_LANSpec (mSpec inn) H of (spec, H) \<Rightarrow>
      case DeepCopyInto_LANStatus cond (mStatus inn) H of (status, H) \<Rightarrow>
      (inn\<lparr>mType := mType inn, mMeta := m, mSpec := spec, mStatus := status\<rparr>, H))"

definition DeepCopyInto_LANList ::
    "('l \<Rightarrow> ('m, 'l, 'c) heap \<Rightarrow> 'l \<times> ('m, 'l, 'c) heap) \<Rightarrow> ('m \<Rightarrow> ('m, 'l, 'c) heap \<Rightarrow> 'm \<times> ('m, 'l, 'c) heap) \<Rightarrow>
       ('c \<Rightarrow> ('m, 'l, 'c) heap \<Rightarrow> 'c \<times> ('m, 'l, 'c) heap) \<Rightarrow>
       'l LANList_mem \<Rightarrow> ('m, 'l, 'c) heap \<Rightarrow> 'l LANList_mem \<times> ('m, 'l, 'c) heap" where
  "DeepCopyInto_LANList lmeta meta cond inn H =
     (case lmeta (mListMeta inn) H of (m, H) \<Rightarrow>
      case copy_slice get_lans LanArr (DeepCopyInto_LAN meta cond) (mItems inn) H of (items, H) \<Rightarrow>
      (inn\<lparr>mListType := mListType inn, mListMeta := m, mItems := items\<rparr>, H))"

text \<open>\<open>DeepCopy\<close> takes a pointer and gives one; \<open>DeepCopyObject\<close> gives the same as an interface.\<close>

definition DeepCopy_LANSpec where
  "DeepCopy_LANSpec = copy_ptr get_spec SpecCell DeepCopyInto_LANSpec"

definition DeepCopy_LANStatus where
  "DeepCopy_LANStatus cond = copy_ptr get_status StatusCell (DeepCopyInto_LANStatus cond)"

definition DeepCopy_LAN where
  "DeepCopy_LAN meta cond = copy_ptr get_lan LanCell (DeepCopyInto_LAN meta cond)"

definition DeepCopy_LANList where
  "DeepCopy_LANList lmeta meta cond = copy_ptr get_list ListCell (DeepCopyInto_LANList lmeta meta cond)"

definition DeepCopyObject_LAN where
  "DeepCopyObject_LAN meta cond p H =
     (case DeepCopy_LAN meta cond p H of (c, H') \<Rightarrow> (if c \<noteq> None then c else None, H'))"

definition DeepCopyObject_LANList where
  "DeepCopyObject_LANList lmeta meta cond p H =
     (case DeepCopy_LANList lmeta meta cond p H of (c, H') \<Rightarrow> (if c \<noteq> None then c else None, H'))"

subsection \<open>The contract of a copy\<close>

text \<open>
  \<open>refs H s\<close> are the cells a value reaches, \<open>val H s\<close> what it denotes, and \<open>ok H s\<close> says that
  the cells it reaches are there and of their kinds. A copy only allocates, and what it
  returns denotes the same and reaches new cells only.
\<close>

definition kept :: "loc set \<Rightarrow> ('m, 'l, 'c) heap \<Rightarrow> ('m, 'l, 'c) heap \<Rightarrow> bool" where
  "kept A H H' \<longleftrightarrow> Next H \<le> Next H' \<and> (\<forall>a \<in> A. Cells H' a = Cells H a)"

definition grows :: "('m, 'l, 'c) heap \<Rightarrow> ('m, 'l, 'c) heap \<Rightarrow> bool" where
  "grows H H' \<longleftrightarrow> kept {..<Next H} H H'"

lemma grows_refl [simp]: "grows H H"
  by (simp add: grows_def kept_def)

lemma grows_trans: "grows H H1 \<Longrightarrow> grows H1 H2 \<Longrightarrow> grows H H2"
  by (auto simp: grows_def kept_def)

lemma grows_next: "grows H H' \<Longrightarrow> Next H \<le> Next H'"
  by (simp add: grows_def kept_def)

lemma grows_kept: "grows H H' \<Longrightarrow> A \<subseteq> {..<Next H} \<Longrightarrow> kept A H H'"
  by (auto simp: grows_def kept_def)

lemma kept_sub: "kept A H H' \<Longrightarrow> B \<subseteq> A \<Longrightarrow> kept B H H'"
  by (auto simp: kept_def)

lemma alloc_facts:
  "alloc H = (b, H1) \<Longrightarrow> b = Next H \<and> Next H1 = Suc (Next H) \<and> grows H H1"
  by (auto simp: alloc_def grows_def kept_def)

lemma put_simps [simp]: "Next (put a x H) = Next H" "Cells (put a x H) = (Cells H)(a := x)"
  by (simp_all add: put_def)

lemma grows_put: "grows H H' \<Longrightarrow> Next H \<le> a \<Longrightarrow> grows H (put a x H')"
  by (auto simp: grows_def kept_def)

locale deep_copier =
  fixes copy :: "'s \<Rightarrow> ('m, 'l, 'c) heap \<Rightarrow> 's \<times> ('m, 'l, 'c) heap"
    and refs :: "('m, 'l, 'c) heap \<Rightarrow> 's \<Rightarrow> loc set"
    and val :: "('m, 'l, 'c) heap \<Rightarrow> 's \<Rightarrow> 'v"
    and ok :: "('m, 'l, 'c) heap \<Rightarrow> 's \<Rightarrow> bool"
  assumes only_allocates: "copy s H = (t, H') \<Longrightarrow> grows H H'"
    and live: "ok H s \<Longrightarrow> refs H s \<subseteq> {..<Next H}"
    and local: "ok H s \<Longrightarrow> kept (refs H s) H H' \<Longrightarrow> ok H' s \<and> val H' s = val H s \<and> refs H' s = refs H s"
    and copied: "ok H s \<Longrightarrow> copy s H = (t, H') \<Longrightarrow>
      ok H' t \<and> val H' t = val H s \<and> refs H' t \<subseteq> {Next H..<Next H'}"
begin

lemma local_grows: "ok H s \<Longrightarrow> grows H H' \<Longrightarrow> ok H' s \<and> val H' s = val H s \<and> refs H' s = refs H s"
  by (rule local) (assumption, rule grows_kept [OF _ live])

text \<open>The original is as it was, and the copy stays what it is while the new cells do.\<close>

lemma original_kept: "ok H s \<Longrightarrow> copy s H = (t, H') \<Longrightarrow> ok H' s \<and> val H' s = val H s \<and> refs H' s = refs H s"
  using local_grows only_allocates by blast

lemma copy_kept:
  assumes "ok H s" and "copy s H = (t, H')" and "kept {Next H..<Next H'} H' H''"
  shows "ok H'' t \<and> val H'' t = val H s \<and> refs H'' t \<subseteq> {Next H..<Next H'}"
  using local [of H' t H''] copied [OF assms(1,2)] kept_sub [OF assms(3)] by auto

lemma apart: "ok H s \<Longrightarrow> copy s H = (t, H') \<Longrightarrow> refs H' s \<inter> refs H' t = {}"
  using original_kept [of H s t H'] live [of H s] copied [of H s t H'] by fastforce

text \<open>Writing through one of the two does not change the other.\<close>

lemma write_copy:
  assumes "ok H s" and "copy s H = (t, H')" and "a \<in> refs H' t"
  shows "val (put a x H') s = val H s"
proof -
  have "a \<notin> refs H' s" using apart [OF assms(1,2)] assms(3) by blast
  then have "kept (refs H' s) H' (put a x H')" by (auto simp: kept_def)
  with local [of H' s] original_kept [OF assms(1,2)] show ?thesis by simp
qed

lemma write_original:
  assumes "ok H s" and "copy s H = (t, H')" and "a \<in> refs H' s"
  shows "val (put a x H') t = val H s"
proof -
  have "a \<notin> refs H' t" using apart [OF assms(1,2)] assms(3) by blast
  then have "kept (refs H' t) H' (put a x H')" by (auto simp: kept_def)
  with local [of H' t] copied [OF assms(1,2)] show ?thesis by simp
qed

end

subsection \<open>Putting copies together\<close>

text \<open>Assignment copies what has no pointers.\<close>

definition no_refs :: "('m, 'l, 'c) heap \<Rightarrow> 's \<Rightarrow> loc set" where "no_refs H x = {}"
definition plain :: "('m, 'l, 'c) heap \<Rightarrow> 's \<Rightarrow> 's" where "plain H x = x"
definition always :: "('m, 'l, 'c) heap \<Rightarrow> 's \<Rightarrow> bool" where "always H x = True"

interpretation assigned: deep_copier assign no_refs plain always
  by unfold_locales (simp_all add: assign_def no_refs_def plain_def always_def)

text \<open>Two values, one after the other.\<close>

definition copy_both where
  "copy_both f g p H = (case p of (x, y) \<Rightarrow> (case f x H of (x', H1) \<Rightarrow> (case g y H1 of (y', H2) \<Rightarrow> ((x', y'), H2))))"

definition both_refs where "both_refs r q H p = r H (fst p) \<union> q H (snd p)"
definition both_val where "both_val v u H p = (v H (fst p), u H (snd p))"
definition both_ok where "both_ok o1 o2 H p \<longleftrightarrow> o1 H (fst p) \<and> o2 H (snd p)"

lemma both_copier:
  fixes f :: "'s \<Rightarrow> ('m, 'l, 'c) heap \<Rightarrow> 's \<times> ('m, 'l, 'c) heap"
    and g :: "'t \<Rightarrow> ('m, 'l, 'c) heap \<Rightarrow> 't \<times> ('m, 'l, 'c) heap"
  assumes "deep_copier f r v o1" and "deep_copier g q u o2"
  shows "deep_copier (copy_both f g) (both_refs r q) (both_val v u) (both_ok o1 o2)"
proof (rule deep_copier.intro)
  fix p :: "'s \<times> 't" and t and H H' :: "('m, 'l, 'c) heap"
  note f = assms(1) and g = assms(2)
  show "copy_both f g p H = (t, H') \<Longrightarrow> grows H H'"
    using deep_copier.only_allocates [OF f] deep_copier.only_allocates [OF g] grows_trans
    by (fastforce simp: copy_both_def split: prod.splits)
  show "both_ok o1 o2 H p \<Longrightarrow> both_refs r q H p \<subseteq> {..<Next H}"
    using deep_copier.live [OF f] deep_copier.live [OF g] by (auto simp: both_ok_def both_refs_def)
  show "both_ok o1 o2 H p \<Longrightarrow> kept (both_refs r q H p) H H' \<Longrightarrow>
      both_ok o1 o2 H' p \<and> both_val v u H' p = both_val v u H p \<and> both_refs r q H' p = both_refs r q H p"
    using deep_copier.local [OF f, of H "fst p" H'] deep_copier.local [OF g, of H "snd p" H']
    by (auto simp: both_ok_def both_refs_def both_val_def kept_def)
  assume ok: "both_ok o1 o2 H p" and run: "copy_both f g p H = (t, H')"
  obtain x y where p: "p = (x, y)" by (cases p)
  from run p obtain x' y' H1 where t: "t = (x', y')" and fx: "f x H = (x', H1)" and gy: "g y H1 = (y', H')"
    by (auto simp: copy_both_def split: prod.splits)
  have okx: "o1 H x" and oky: "o2 H y" using ok p by (auto simp: both_ok_def)
  note gr = deep_copier.only_allocates [OF f fx] deep_copier.only_allocates [OF g gy]
  note y1 = deep_copier.local_grows [OF g oky gr(1)]
  note cy = deep_copier.copied [OF g conjunct1 [OF y1] gy]
  have "kept {Next H..<Next H1} H1 H'" by (rule grows_kept [OF gr(2)]) auto
  note x2 = deep_copier.copy_kept [OF f okx fx this]
  from x2 cy y1 grows_next [OF gr(1)] grows_next [OF gr(2)] p t
  show "both_ok o1 o2 H' t \<and> both_val v u H' t = both_val v u H p \<and> both_refs r q H' t \<subseteq> {Next H..<Next H'}"
    by (auto simp: both_ok_def both_val_def both_refs_def)
qed


text \<open>A pointer to a variable.\<close>

definition ptr_refs where
  "ptr_refs get r H p =
     (case p of None \<Rightarrow> {} | Some a \<Rightarrow> insert a (case get (Cells H a) of None \<Rightarrow> {} | Some x \<Rightarrow> r H x))"

definition ptr_val where
  "ptr_val get v H p =
     (case p of None \<Rightarrow> None | Some a \<Rightarrow> (case get (Cells H a) of None \<Rightarrow> None | Some x \<Rightarrow> Some (v H x)))"

definition ptr_ok where
  "ptr_ok get ok H p \<longleftrightarrow>
     (case p of None \<Rightarrow> True | Some a \<Rightarrow> a < Next H \<and> (\<exists>x. get (Cells H a) = Some x \<and> ok H x))"

lemma ptr_copier:
  fixes f :: "'s \<Rightarrow> ('m, 'l, 'c) heap \<Rightarrow> 's \<times> ('m, 'l, 'c) heap"
  assumes f: "deep_copier f r v ok" and getmk: "\<And>x. get (mk x) = Some x"
  shows "deep_copier (copy_ptr get mk f) (ptr_refs get r) (ptr_val get v) (ptr_ok get ok)"
proof (rule deep_copier.intro)
  fix p t and H H' :: "('m, 'l, 'c) heap"
  show grow: "grows H H'" if "copy_ptr get mk f p H = (t, H')"
  proof (cases "\<exists>a x. p = Some a \<and> get (Cells H a) = Some x")
    case True
    with that obtain x b H1 y H2 where run: "alloc H = (b, H1)" "f x H1 = (y, H2)" "H' = put b (mk y) H2"
      by (auto simp: copy_ptr_def split: prod.splits)
    from alloc_facts [OF run(1)] deep_copier.only_allocates [OF f run(2)] have "grows H H2" "Next H \<le> b"
      by (auto intro: grows_trans)
    then show ?thesis unfolding run(3) by (rule grows_put)
  next
    case False
    with that show ?thesis by (auto simp: copy_ptr_def split: option.splits)
  qed
  show "ptr_ok get ok H p \<Longrightarrow> ptr_refs get r H p \<subseteq> {..<Next H}"
    using deep_copier.live [OF f] by (fastforce simp: ptr_ok_def ptr_refs_def split: option.splits)
  show "ptr_ok get ok H p \<Longrightarrow> kept (ptr_refs get r H p) H H' \<Longrightarrow>
      ptr_ok get ok H' p \<and> ptr_val get v H' p = ptr_val get v H p \<and> ptr_refs get r H' p = ptr_refs get r H p"
    using deep_copier.local [OF f, of H _ H']
    by (fastforce simp: ptr_ok_def ptr_refs_def ptr_val_def kept_def split: option.splits)
  assume ok: "ptr_ok get ok H p" and run: "copy_ptr get mk f p H = (t, H')"
  show "ptr_ok get ok H' t \<and> ptr_val get v H' t = ptr_val get v H p \<and> ptr_refs get r H' t \<subseteq> {Next H..<Next H'}"
  proof (cases p)
    case None
    with run show ?thesis by (auto simp: copy_ptr_def ptr_ok_def ptr_val_def ptr_refs_def)
  next
    case (Some a)
    with ok obtain x where x: "get (Cells H a) = Some x" "ok H x" by (auto simp: ptr_ok_def)
    with run Some obtain b H1 y H2 where al: "alloc H = (b, H1)" and fx: "f x H1 = (y, H2)"
      and t: "t = Some b" and H': "H' = put b (mk y) H2"
      by (auto simp: copy_ptr_def split: prod.splits)
    note b = alloc_facts [OF al]
    have "grows H H1" using b by blast
    note x1 = deep_copier.local_grows [OF f x(2) this]
    have "kept {Next H1..<Next H2} H2 H'" using b unfolding H' kept_def by simp
    note y = deep_copier.copy_kept [OF f conjunct1 [OF x1] fx this]
    have cell: "get (Cells H' b) = Some y" using getmk by (simp add: H')
    have bound: "Next H \<le> b" "b < Next H'"
      using b grows_next [OF deep_copier.only_allocates [OF f fx]] by (simp_all add: H')
    have "r H' y \<subseteq> {Next H..<Next H'}" using y b by (auto simp: H')
    with y x1 x(1) cell bound show ?thesis
      unfolding t Some by (simp add: ptr_ok_def ptr_val_def ptr_refs_def)
  qed
qed

text \<open>The elements of a slice, and the slice.\<close>

lemma copy_elems_length: "copy_elems f xs H = (ys, H') \<Longrightarrow> length ys = length xs"
  by (induction xs arbitrary: ys H) (auto split: prod.splits)

lemma elems_copier:
  fixes f :: "'s \<Rightarrow> ('m, 'l, 'c) heap \<Rightarrow> 's \<times> ('m, 'l, 'c) heap"
  assumes f: "deep_copier f r v ok"
  shows "deep_copier (copy_elems f) (\<lambda>H xs. \<Union>x \<in> set xs. r H x) (\<lambda>H. map (v H)) (\<lambda>H xs. \<forall>x \<in> set xs. ok H x)"
proof (rule deep_copier.intro)
  fix xs t and H H' :: "('m, 'l, 'c) heap"
  show alloc_elems: "copy_elems f xs H = (t, H') \<Longrightarrow> grows H H'" for xs t H
  proof (induction xs arbitrary: H t)
    case (Cons x xs)
    then obtain y H1 ys where "f x H = (y, H1)" "copy_elems f xs H1 = (ys, H')"
      by (auto split: prod.splits)
    with Cons.IH deep_copier.only_allocates [OF f] show ?case by (blast intro: grows_trans)
  qed simp
  show "\<forall>x \<in> set xs. ok H x \<Longrightarrow> (\<Union>x \<in> set xs. r H x) \<subseteq> {..<Next H}"
    using deep_copier.live [OF f] by fastforce
  show "\<forall>x \<in> set xs. ok H x \<Longrightarrow> kept (\<Union>x \<in> set xs. r H x) H H' \<Longrightarrow>
      (\<forall>x \<in> set xs. ok H' x) \<and> map (v H') xs = map (v H) xs \<and> (\<Union>x \<in> set xs. r H' x) = (\<Union>x \<in> set xs. r H x)"
    using deep_copier.local [OF f, of H _ H'] by (auto simp: kept_def)
  show "\<forall>x \<in> set xs. ok H x \<Longrightarrow> copy_elems f xs H = (t, H') \<Longrightarrow>
      (\<forall>x \<in> set t. ok H' x) \<and> map (v H') t = map (v H) xs \<and> (\<Union>x \<in> set t. r H' x) \<subseteq> {Next H..<Next H'}"
  proof (induction xs arbitrary: H t)
    case (Cons x xs)
    from Cons.prems obtain y H1 ys where fx: "f x H = (y, H1)" and rest: "copy_elems f xs H1 = (ys, H')"
      and t: "t = y # ys" by (auto split: prod.splits)
    have okx: "ok H x" using Cons.prems(1) by simp
    note g1 = deep_copier.only_allocates [OF f fx]
    have xs1: "\<forall>x \<in> set xs. ok H1 x" "map (v H1) xs = map (v H) xs"
      using deep_copier.local_grows [OF f _ g1] Cons.prems(1) by auto
    note g2 = alloc_elems [OF rest]
    have "kept {Next H..<Next H1} H1 H'" by (rule grows_kept [OF g2]) auto
    note y = deep_copier.copy_kept [OF f okx fx this]
    from y Cons.IH [OF xs1(1) rest] xs1(2) t grows_next [OF g1] grows_next [OF g2] show ?case
      by fastforce
  qed simp
qed


definition slice_refs where
  "slice_refs get r H p =
     (case p of None \<Rightarrow> {} | Some s \<Rightarrow>
        insert (SArr s) (case get (Cells H (SArr s)) of None \<Rightarrow> {} | Some xs \<Rightarrow> \<Union>x \<in> set (slice_of xs s). r H x))"

definition slice_val where
  "slice_val get v H p =
     (case p of None \<Rightarrow> None | Some s \<Rightarrow>
        (case get (Cells H (SArr s)) of None \<Rightarrow> None | Some xs \<Rightarrow> Some (map (v H) (slice_of xs s))))"

definition slice_ok where
  "slice_ok get ok H p \<longleftrightarrow>
     (case p of None \<Rightarrow> True | Some s \<Rightarrow> SArr s < Next H \<and>
        (\<exists>xs. get (Cells H (SArr s)) = Some xs \<and> SOff s + SLen s \<le> length xs \<and> (\<forall>x \<in> set (slice_of xs s). ok H x)))"

lemma slice_copier:
  fixes f :: "'s \<Rightarrow> ('m, 'l, 'c) heap \<Rightarrow> 's \<times> ('m, 'l, 'c) heap"
  assumes f: "deep_copier f r v ok" and getmk: "\<And>x. get (mk x) = Some x"
  shows "deep_copier (copy_slice get mk f) (slice_refs get r) (slice_val get v) (slice_ok get ok)"
proof (rule deep_copier.intro)
  note e = elems_copier [OF f]
  fix p t and H H' :: "('m, 'l, 'c) heap"
  show grow: "grows H H'" if "copy_slice get mk f p H = (t, H')"
  proof (cases "\<exists>s xs. p = Some s \<and> get (Cells H (SArr s)) = Some xs")
    case True
    with that obtain xs b H1 ys H2 where
      run: "alloc H = (b, H1)" "copy_elems f xs H1 = (ys, H2)" "H' = put b (mk ys) H2"
      by (auto simp: copy_slice_def split: prod.splits)
    from alloc_facts [OF run(1)] deep_copier.only_allocates [OF e run(2)] have "grows H H2" "Next H \<le> b"
      by (auto intro: grows_trans)
    then show ?thesis unfolding run(3) by (rule grows_put)
  next
    case False
    with that show ?thesis by (auto simp: copy_slice_def split: option.splits)
  qed
  show "slice_ok get ok H p \<Longrightarrow> slice_refs get r H p \<subseteq> {..<Next H}"
    using deep_copier.live [OF f] by (fastforce simp: slice_ok_def slice_refs_def split: option.splits)
  show "slice_ok get ok H' p \<and> slice_val get v H' p = slice_val get v H p \<and> slice_refs get r H' p = slice_refs get r H p"
    if sl: "slice_ok get ok H p" and k: "kept (slice_refs get r H p) H H'"
  proof (cases p)
    case None
    then show ?thesis by (simp add: slice_ok_def slice_val_def slice_refs_def)
  next
    case (Some s)
    with sl obtain xs where xs: "SArr s < Next H" "get (Cells H (SArr s)) = Some xs" "SOff s + SLen s \<le> length xs"
      "\<forall>x \<in> set (slice_of xs s). ok H x" by (auto simp: slice_ok_def)
    have "kept (\<Union>x \<in> set (slice_of xs s). r H x) H H'" and "Cells H' (SArr s) = Cells H (SArr s)" and "Next H \<le> Next H'"
      using k xs(2) by (auto simp: slice_refs_def Some kept_def)
    with deep_copier.local [OF e xs(4)] xs show ?thesis
      by (simp add: slice_ok_def slice_val_def slice_refs_def Some)
  qed
  assume ok: "slice_ok get ok H p" and run: "copy_slice get mk f p H = (t, H')"
  show "slice_ok get ok H' t \<and> slice_val get v H' t = slice_val get v H p \<and> slice_refs get r H' t \<subseteq> {Next H..<Next H'}"
  proof (cases p)
    case None
    with run show ?thesis by (auto simp: copy_slice_def slice_ok_def slice_val_def slice_refs_def)
  next
    case (Some s)
    with ok obtain xs where xs: "get (Cells H (SArr s)) = Some xs" "SOff s + SLen s \<le> length xs"
      "\<forall>x \<in> set (slice_of xs s). ok H x" by (auto simp: slice_ok_def)
    with run Some obtain b H1 ys H2 where al: "alloc H = (b, H1)" and fx: "copy_elems f (slice_of xs s) H1 = (ys, H2)"
      and t: "t = Some \<lparr>SArr = b, SOff = 0, SLen = SLen s\<rparr>" and H': "H' = put b (mk ys) H2"
      by (auto simp: copy_slice_def split: prod.splits)
    note b = alloc_facts [OF al]
    have "grows H H1" using b by blast
    note x1 = deep_copier.local_grows [OF e xs(3) this]
    have "kept {Next H1..<Next H2} H2 H'" using b unfolding H' kept_def by simp
    note y = deep_copier.copy_kept [OF e conjunct1 [OF x1] fx this]
    have cell: "get (Cells H' b) = Some ys" using getmk by (simp add: H')
    have "length ys = SLen s" using copy_elems_length [OF fx] xs(2) by (simp add: slice_of_def)
    then have all: "slice_of ys \<lparr>SArr = b, SOff = 0, SLen = SLen s\<rparr> = ys" "SLen s \<le> length ys"
      by (simp_all add: slice_of_def)
    have bound: "Next H \<le> b" "b < Next H'"
      using b grows_next [OF deep_copier.only_allocates [OF e fx]] by (simp_all add: H')
    have "(\<Union>x \<in> set ys. r H' x) \<subseteq> {Next H..<Next H'}" using y b by (auto simp: H')
    with y x1 xs(1) cell bound all show ?thesis
      unfolding t Some by (simp add: slice_ok_def slice_val_def slice_refs_def)
  qed
qed

text \<open>A struct is copied as the sequence of its fields.\<close>

lemma struct_copier:
  assumes f: "deep_copier f r v ok" and fields: "\<And>x H t H'. g x H = (t, H') \<Longrightarrow> f (parts x) H = (parts t, H')"
  shows "deep_copier g (\<lambda>H x. r H (parts x)) (\<lambda>H x. build (v H (parts x))) (\<lambda>H x. ok H (parts x))"
proof (rule deep_copier.intro)
  fix x t H H'
  show "g x H = (t, H') \<Longrightarrow> grows H H'"
    using deep_copier.only_allocates [OF f fields] .
  show "ok H (parts x) \<Longrightarrow> r H (parts x) \<subseteq> {..<Next H}" by (rule deep_copier.live [OF f])
  show "ok H (parts x) \<Longrightarrow> kept (r H (parts x)) H H' \<Longrightarrow>
      ok H' (parts x) \<and> build (v H' (parts x)) = build (v H (parts x)) \<and> r H' (parts x) = r H (parts x)"
    using deep_copier.local [OF f, of H "parts x" H'] by simp
  show "ok H (parts x) \<Longrightarrow> g x H = (t, H') \<Longrightarrow>
      ok H' (parts t) \<and> build (v H' (parts t)) = build (v H (parts x)) \<and> r H' (parts t) \<subseteq> {Next H..<Next H'}"
    using deep_copier.copied [OF f _ fields, of H x t H'] by simp
qed


subsection \<open>The generated functions are such copies\<close>

lemma str_ptr: "deep_copier (copy_ptr get_str StrCell assign) (ptr_refs get_str no_refs) (ptr_val get_str plain) (ptr_ok get_str always)"
  and int_ptr: "deep_copier (copy_ptr get_int IntCell assign) (ptr_refs get_int no_refs) (ptr_val get_int plain) (ptr_ok get_int always)"
  and map_ptr: "deep_copier (copy_ptr get_map MapCell assign) (ptr_refs get_map no_refs) (ptr_val get_map plain) (ptr_ok get_map always)"
  and str_slice: "deep_copier (copy_slice get_strs StrArr assign) (slice_refs get_strs no_refs) (slice_val get_strs plain) (slice_ok get_strs always)"
  by (rule ptr_copier [OF assigned.deep_copier_axioms] slice_copier [OF assigned.deep_copier_axioms], simp add: get_defs)+

text \<open>What a specification in memory reaches and denotes: a specification as the rest of the development has it.\<close>

definition LANSpec_refs :: "('m, 'l, 'c) heap \<Rightarrow> LANSpec_mem \<Rightarrow> loc set" where
  "LANSpec_refs H x =
     ptr_refs get_str no_refs H (mNS x) \<union> ptr_refs get_str no_refs H (mBridgeName x) \<union>
     ptr_refs get_str no_refs H (mVxLANName x) \<union> ptr_refs get_int no_refs H (mVNI x) \<union>
     ptr_refs get_str no_refs H (mVxLANGrp x) \<union> ptr_refs get_map no_refs H (mVxDevMap x) \<union>
     ptr_refs get_int no_refs H (mVxPort x) \<union> slice_refs get_strs no_refs H (mSpokeList x)"

definition LANSpec_val :: "('m, 'l, 'c) heap \<Rightarrow> LANSpec_mem \<Rightarrow> LANSpec" where
  "LANSpec_val H x =
     \<lparr>NS = ptr_val get_str plain H (mNS x), BridgeName = ptr_val get_str plain H (mBridgeName x),
      VxLANName = ptr_val get_str plain H (mVxLANName x), VNI = ptr_val get_int plain H (mVNI x),
      VxLANGrp = ptr_val get_str plain H (mVxLANGrp x), DefaultVxDev = mDefaultVxDev x,
      VxDevMap = ptr_val get_map plain H (mVxDevMap x), VxPort = ptr_val get_int plain H (mVxPort x),
      SpokeList = slice_val get_strs plain H (mSpokeList x)\<rparr>"

definition LANSpec_ok :: "('m, 'l, 'c) heap \<Rightarrow> LANSpec_mem \<Rightarrow> bool" where
  "LANSpec_ok H x \<longleftrightarrow>
     ptr_ok get_str always H (mNS x) \<and> ptr_ok get_str always H (mBridgeName x) \<and>
     ptr_ok get_str always H (mVxLANName x) \<and> ptr_ok get_int always H (mVNI x) \<and>
     ptr_ok get_str always H (mVxLANGrp x) \<and> ptr_ok get_map always H (mVxDevMap x) \<and>
     ptr_ok get_int always H (mVxPort x) \<and> slice_ok get_strs always H (mSpokeList x)"

definition spec_parts where
  "spec_parts x =
     (mNS x, mBridgeName x, mVxLANName x, mVNI x, mVxLANGrp x, mDefaultVxDev x, mVxDevMap x, mVxPort x, mSpokeList x)"

fun spec_build where
  "spec_build (ns, bridge, vxlan, vni, grp, dev, devs, port, spokes) =
     \<lparr>NS = ns, BridgeName = bridge, VxLANName = vxlan, VNI = vni, VxLANGrp = grp, DefaultVxDev = dev,
      VxDevMap = devs, VxPort = port, SpokeList = spokes\<rparr>"

lemmas spec_chain =
  both_copier [OF str_ptr both_copier [OF str_ptr both_copier [OF str_ptr both_copier [OF int_ptr
    both_copier [OF str_ptr both_copier [OF assigned.deep_copier_axioms both_copier [OF map_ptr
    both_copier [OF int_ptr str_slice]]]]]]]]

lemma copier_cong:
  "deep_copier g r v ok \<Longrightarrow> r = r' \<Longrightarrow> v = v' \<Longrightarrow> ok = ok' \<Longrightarrow> deep_copier g r' v' ok'"
  by simp

interpretation LANSpec: deep_copier DeepCopyInto_LANSpec LANSpec_refs LANSpec_val LANSpec_ok
proof (rule copier_cong [OF struct_copier [OF spec_chain, where g = DeepCopyInto_LANSpec and parts = spec_parts
      and build = spec_build]], goal_cases)
  case (1 x H t H')
  then show ?case
    by (auto simp: DeepCopyInto_LANSpec_def copy_both_def spec_parts_def assign_def split: prod.splits)
qed (auto simp: fun_eq_iff spec_parts_def LANSpec_refs_def LANSpec_val_def LANSpec_ok_def both_refs_def both_val_def
      both_ok_def no_refs_def plain_def always_def)


text \<open>
  The other structs hold metadata, which another package copies: given that it keeps the
  contract, they keep it.
\<close>

definition LANStatus_refs where
  "LANStatus_refs cr H x = slice_refs get_conds cr H (mConditions x)"

definition LANStatus_val where
  "LANStatus_val cv H x = \<lparr>Conditions = slice_val get_conds cv H (mConditions x)\<rparr>"

definition LANStatus_ok where
  "LANStatus_ok co H x = slice_ok get_conds co H (mConditions x)"

lemma LANStatus_copier:
  assumes "deep_copier cond cr cv co"
  shows "deep_copier (DeepCopyInto_LANStatus cond) (LANStatus_refs cr) (LANStatus_val cv) (LANStatus_ok co)"
proof -
  have conds: "deep_copier (copy_slice get_conds CondArr cond) (slice_refs get_conds cr) (slice_val get_conds cv)
      (slice_ok get_conds co)"
    by (rule slice_copier [OF assms]) (simp add: get_conds_def)
  show ?thesis
  proof (rule copier_cong [OF struct_copier [OF conds, where g = "DeepCopyInto_LANStatus cond" and parts = mConditions
        and build = "\<lambda>v. \<lparr>Conditions = v\<rparr>"]], goal_cases)
    case (1 x H t H')
    then show ?case by (auto simp: DeepCopyInto_LANStatus_def split: prod.splits)
  qed (simp_all add: fun_eq_iff LANStatus_refs_def LANStatus_val_def LANStatus_ok_def)
qed

definition LAN_refs where
  "LAN_refs mr cr H x = mr H (mMeta x) \<union> LANSpec_refs H (mSpec x) \<union> LANStatus_refs cr H (mStatus x)"

definition LAN_val where
  "LAN_val mv cv H x =
     \<lparr>LANType = mType x, LANMeta = mv H (mMeta x), Spec = LANSpec_val H (mSpec x), Status = LANStatus_val cv H (mStatus x)\<rparr>"

definition LAN_ok where
  "LAN_ok mo co H x \<longleftrightarrow> mo H (mMeta x) \<and> LANSpec_ok H (mSpec x) \<and> LANStatus_ok co H (mStatus x)"

definition lan_parts where
  "lan_parts x = (mType x, mMeta x, mSpec x, mStatus x)"

fun lan_build where
  "lan_build (ty, meta, spec, status) = \<lparr>LANType = ty, LANMeta = meta, Spec = spec, Status = status\<rparr>"

lemma LAN_copier:
  assumes "deep_copier meta mr mv mo" and "deep_copier cond cr cv co"
  shows "deep_copier (DeepCopyInto_LAN meta cond) (LAN_refs mr cr) (LAN_val mv cv) (LAN_ok mo co)"
proof -
  note chain = both_copier [OF assigned.deep_copier_axioms both_copier [OF assms(1)
      both_copier [OF LANSpec.deep_copier_axioms LANStatus_copier [OF assms(2)]]]]
  show ?thesis
  proof (rule copier_cong [OF struct_copier [OF chain, where g = "DeepCopyInto_LAN meta cond" and parts = lan_parts
        and build = lan_build]], goal_cases)
    case (1 x H t H')
    then show ?case
      by (auto simp: DeepCopyInto_LAN_def copy_both_def lan_parts_def assign_def split: prod.splits)
  qed (auto simp: fun_eq_iff lan_parts_def LAN_refs_def LAN_val_def LAN_ok_def both_refs_def both_val_def
        both_ok_def no_refs_def plain_def always_def)
qed

text \<open>A list of LANs denotes its type, its metadata and its items.\<close>

definition LANList_refs where
  "LANList_refs lr mr cr H x = lr H (mListMeta x) \<union> slice_refs get_lans (LAN_refs mr cr) H (mItems x)"

definition LANList_val where
  "LANList_val lv mv cv H x = (mListType x, lv H (mListMeta x), slice_val get_lans (LAN_val mv cv) H (mItems x))"

definition LANList_ok where
  "LANList_ok lo mo co H x \<longleftrightarrow> lo H (mListMeta x) \<and> slice_ok get_lans (LAN_ok mo co) H (mItems x)"

definition list_parts where
  "list_parts x = (mListType x, mListMeta x, mItems x)"

lemma LANList_copier:
  assumes "deep_copier lmeta lr lv lo" and "deep_copier meta mr mv mo" and "deep_copier cond cr cv co"
  shows "deep_copier (DeepCopyInto_LANList lmeta meta cond) (LANList_refs lr mr cr) (LANList_val lv mv cv)
    (LANList_ok lo mo co)"
proof -
  have items: "deep_copier (copy_slice get_lans LanArr (DeepCopyInto_LAN meta cond)) (slice_refs get_lans (LAN_refs mr cr))
      (slice_val get_lans (LAN_val mv cv)) (slice_ok get_lans (LAN_ok mo co))"
    by (rule slice_copier [OF LAN_copier [OF assms(2,3)]]) (simp add: get_lans_def)
  note chain = both_copier [OF assigned.deep_copier_axioms both_copier [OF assms(1) items]]
  show ?thesis
  proof (rule copier_cong [OF struct_copier [OF chain, where g = "DeepCopyInto_LANList lmeta meta cond"
        and parts = list_parts and build = "\<lambda>v. v"]], goal_cases)
    case (1 x H t H')
    then show ?case
      by (auto simp: DeepCopyInto_LANList_def copy_both_def list_parts_def assign_def split: prod.splits)
  qed (auto simp: fun_eq_iff list_parts_def LANList_refs_def LANList_val_def LANList_ok_def both_refs_def both_val_def
        both_ok_def no_refs_def plain_def always_def)
qed

lemma DeepCopy_LAN_copier:
  assumes "deep_copier meta mr mv mo" and "deep_copier cond cr cv co"
  shows "deep_copier (DeepCopy_LAN meta cond) (ptr_refs get_lan (LAN_refs mr cr)) (ptr_val get_lan (LAN_val mv cv))
    (ptr_ok get_lan (LAN_ok mo co))"
  unfolding DeepCopy_LAN_def by (rule ptr_copier [OF LAN_copier [OF assms]]) (simp add: get_lan_def)

lemma DeepCopy_LANList_copier:
  assumes "deep_copier lmeta lr lv lo" and "deep_copier meta mr mv mo" and "deep_copier cond cr cv co"
  shows "deep_copier (DeepCopy_LANList lmeta meta cond) (ptr_refs get_list (LANList_refs lr mr cr))
    (ptr_val get_list (LANList_val lv mv cv)) (ptr_ok get_list (LANList_ok lo mo co))"
  unfolding DeepCopy_LANList_def by (rule ptr_copier [OF LANList_copier [OF assms]]) (simp add: get_list_def)

subsection \<open>Properties\<close>

text \<open>C30: the deep copy of a list of LANs denotes the same list, and from then on neither side sees a write through the other: one to a cell the copy reaches leaves the original, one to a cell the original reaches leaves the copy, given that the copies of the metadata do the same.\<close>

theorem deep_copy_independent:
  assumes "deep_copier lmeta lr lv lo" and "deep_copier meta mr mv mo" and "deep_copier cond cr cv co"
    and "ptr_ok get_list (LANList_ok lo mo co) H p" and "DeepCopy_LANList lmeta meta cond p H = (q, H')"
  shows "ptr_val get_list (LANList_val lv mv cv) H' q = ptr_val get_list (LANList_val lv mv cv) H p \<and>
    (\<forall>a x. a \<in> ptr_refs get_list (LANList_refs lr mr cr) H' q \<longrightarrow>
       ptr_val get_list (LANList_val lv mv cv) (put a x H') p = ptr_val get_list (LANList_val lv mv cv) H p) \<and>
    (\<forall>a x. a \<in> ptr_refs get_list (LANList_refs lr mr cr) H p \<longrightarrow>
       ptr_val get_list (LANList_val lv mv cv) (put a x H') q = ptr_val get_list (LANList_val lv mv cv) H p)"
proof -
  note c = DeepCopy_LANList_copier [OF assms(1-3)]
  have same: "ptr_refs get_list (LANList_refs lr mr cr) H' p = ptr_refs get_list (LANList_refs lr mr cr) H p"
    using deep_copier.original_kept [OF c assms(4,5)] by blast
  show ?thesis
    using deep_copier.copied [OF c assms(4,5)] deep_copier.write_copy [OF c assms(4,5)]
      deep_copier.write_original [OF c assms(4,5), unfolded same] by blast
qed


text \<open>
  A memory with a list of one LAN. Its metadata is a name and a pointer to a map of
  annotations, copied as the program's own fields are.
\<close>

type_synonym sample_meta = "string \<times> loc option"
type_synonym sample_heap = "(sample_meta, unit, Condition) heap"

definition copy_sample_meta :: "sample_meta \<Rightarrow> sample_heap \<Rightarrow> sample_meta \<times> sample_heap" where
  "copy_sample_meta = copy_both assign (copy_ptr get_map MapCell assign)"

definition sample_meta_val :: "sample_heap \<Rightarrow> sample_meta \<Rightarrow> ObjectMeta" where
  "sample_meta_val H x = empty_meta\<lparr>Name := fst x, Annotations := ptr_val get_map plain H (snd x)\<rparr>"

lemma sample_meta_copier:
  "deep_copier copy_sample_meta (both_refs no_refs (ptr_refs get_map no_refs)) sample_meta_val
     (both_ok always (ptr_ok get_map always))"
  by (rule copier_cong [OF struct_copier [OF both_copier [OF assigned.deep_copier_axioms map_ptr], where g = copy_sample_meta
        and parts = "\<lambda>x. x" and build = "\<lambda>(n, as). empty_meta\<lparr>Name := n, Annotations := as\<rparr>"]])
    (simp_all add: copy_sample_meta_def fun_eq_iff sample_meta_val_def both_val_def plain_def)

definition sample_memory :: sample_heap where
  "sample_memory =
     \<lparr>Cells = (\<lambda>a. Zeroed)(
        0 := ListCell \<lparr>mListType = \<lparr>APIVersion = ''v1beta1'', Kind = ''LANList''\<rparr>, mListMeta = (),
               mItems = Some \<lparr>SArr = 1, SOff = 0, SLen = 1\<rparr>\<rparr>,
        1 := LanArr [\<lparr>mType = \<lparr>APIVersion = ''v1beta1'', Kind = ''LAN''\<rparr>, mMeta = (''lan1'', Some 5),
               mSpec = \<lparr>mNS = Some 2, mBridgeName = Some 3, mVxLANName = None, mVNI = None, mVxLANGrp = None,
                 mDefaultVxDev = ''eth0'', mVxDevMap = None, mVxPort = None,
                 mSpokeList = Some \<lparr>SArr = 4, SOff = 0, SLen = 2\<rparr>\<rparr>,
               mStatus = \<lparr>mConditions = None\<rparr>\<rparr>],
        2 := StrCell ''lab'', 3 := StrCell ''br0'', 4 := StrArr [''s1'', ''s2''], 5 := MapCell fmempty),
      Next = 6\<rparr>"

abbreviation sample_list_val :: "sample_heap \<Rightarrow> loc option \<Rightarrow> (TypeMeta \<times> unit \<times> LAN list option) option" where
  "sample_list_val \<equiv> ptr_val get_list (LANList_val plain sample_meta_val plain)"

lemma sample_memory_ok:
  "ptr_ok get_list (LANList_ok always (both_ok always (ptr_ok get_map always)) always) sample_memory (Some 0)"
  by (simp add: ptr_ok_def LANList_ok_def slice_ok_def LAN_ok_def LANSpec_ok_def LANStatus_ok_def both_ok_def always_def
      sample_memory_def get_defs slice_of_def)

lemma sample_memory_refs:
  "3 \<in> ptr_refs get_list (LANList_refs no_refs (both_refs no_refs (ptr_refs get_map no_refs)) no_refs) sample_memory (Some 0)"
  by (simp add: ptr_refs_def LANList_refs_def slice_refs_def LAN_refs_def LANSpec_refs_def sample_memory_def get_defs
      slice_of_def)

theorem deep_copy_independent_witness:
  "\<exists>q H'. DeepCopy_LANList assign copy_sample_meta assign (Some 0) sample_memory = (q, H') \<and>
     sample_list_val H' q = sample_list_val sample_memory (Some 0) \<and>
     sample_list_val (put 3 (StrCell ''br9'') H') q = sample_list_val sample_memory (Some 0)"
proof -
  obtain q H' where run: "DeepCopy_LANList assign copy_sample_meta assign (Some 0) sample_memory = (q, H')"
    by fastforce
  from deep_copy_independent [OF assigned.deep_copier_axioms sample_meta_copier assigned.deep_copier_axioms
      sample_memory_ok run] run sample_memory_refs
  show ?thesis by blast
qed

text \<open>C31: a deep copy of a list of LANs, as an object of the API library, keeps the memory well-typed: in the copy and still in the original every pointer is nil or points to an allocated cell of its kind and every slice lies within its array; the copy is nil only for nil; no cell that was allocated before has changed.\<close>

theorem deep_copy_typed:
  assumes "deep_copier lmeta lr lv lo" and "deep_copier meta mr (mv :: ('m, 'l, 'c) heap \<Rightarrow> 'm \<Rightarrow> ObjectMeta) mo"
    and "deep_copier cond cr (cv :: ('m, 'l, 'c) heap \<Rightarrow> 'c \<Rightarrow> Condition) co"
    and "ptr_ok get_list (LANList_ok lo mo co) H p" and "DeepCopyObject_LANList lmeta meta cond p H = (q, H')"
  shows "ptr_ok get_list (LANList_ok lo mo co) H' q \<and> ptr_ok get_list (LANList_ok lo mo co) H' p \<and>
    (q = None \<longleftrightarrow> p = None) \<and> (\<forall>a < Next H. Cells H' a = Cells H a)"
proof -
  note c = DeepCopy_LANList_copier [OF assms(1-3)]
  have run: "DeepCopy_LANList lmeta meta cond p H = (q, H')"
    using assms(5) by (auto simp: DeepCopyObject_LANList_def split: prod.splits if_splits)
  have "q = None \<longleftrightarrow> p = None"
    using assms(4) run by (auto simp: DeepCopy_LANList_def copy_ptr_def ptr_ok_def split: option.splits prod.splits)
  with deep_copier.copied [OF c assms(4) run] deep_copier.original_kept [OF c assms(4) run]
    deep_copier.only_allocates [OF c run] show ?thesis
    by (auto simp: grows_def kept_def)
qed

theorem deep_copy_typed_witness:
  "\<exists>b H'. DeepCopyObject_LANList assign copy_sample_meta assign (Some 0) sample_memory = (Some b, H') \<and>
     ptr_ok get_list (LANList_ok always (both_ok always (ptr_ok get_map always)) always) H' (Some b) \<and>
     Cells H' 3 = StrCell ''br0''"
proof -
  obtain q H' where run: "DeepCopyObject_LANList assign copy_sample_meta assign (Some 0) sample_memory = (q, H')"
    by fastforce
  have "(3 :: nat) < Next sample_memory" "Cells sample_memory 3 = StrCell ''br0''" by (simp_all add: sample_memory_def)
  with deep_copy_typed [OF assigned.deep_copier_axioms sample_meta_copier assigned.deep_copier_axioms sample_memory_ok run] run
  show ?thesis by auto
qed

end
