(* ===== verification/Startup.thy ===== *)
theory Startup
  imports Webhook Daemon
begin

section \<open>Starting the two programs\<close>

text \<open>
  Models \<open>cmd/main.go\<close>, the operator's start-up with the set-up functions it calls in the
  controller and the webhook, and the \<open>main\<close> of \<open>dset/main.go\<close>. What they call of
  controller-runtime is one function from calls to actions on a world, an argument of the
  definitions. Flags and options are records; parsing the command line, logging and the
  handlers given to the library are left out.
\<close>

subsection \<open>Flags and options of the operator\<close>

record flags =
  metricsAddr :: string
  probeAddr :: string
  enableLeaderElection :: bool
  secureMetrics :: bool
  webhookCertPath :: string
  webhookCertName :: string
  webhookCertKey :: string
  metricsCertPath :: string
  metricsCertName :: string
  metricsCertKey :: string
  enableHTTP2 :: bool

definition default_flags :: flags where
  "default_flags =
     \<lparr>metricsAddr = ''0'', probeAddr = '':8081'', enableLeaderElection = False, secureMetrics = True,
      webhookCertPath = '''', webhookCertName = ''tls.crt'', webhookCertKey = ''tls.key'',
      metricsCertPath = '''', metricsCertName = ''tls.crt'', metricsCertKey = ''tls.key'', enableHTTP2 = False\<rparr>"

record tls_config =
  NextProtos :: "string list"

type_synonym tls_opt = "tls_config \<Rightarrow> tls_config"

record server_options =
  TLSOpts :: "tls_opt list"
  CertDir :: string
  CertName :: string
  KeyName :: string

record metrics_options = server_options +
  BindAddress :: string
  SecureServing :: bool
  WithAuthenticationAndAuthorization :: bool

record manager_options =
  Metrics :: metrics_options
  WebhookServer :: server_options
  HealthProbeBindAddress :: string
  LeaderElection :: bool
  LeaderElectionID :: string

definition disableHTTP2 :: tls_opt where
  "disableHTTP2 c = c\<lparr>NextProtos := [''http/1.1'']\<rparr>"

definition tlsOpts :: "flags \<Rightarrow> tls_opt list" where
  "tlsOpts fl = (let opts = [] in if \<not> enableHTTP2 fl then opts @ [disableHTTP2] else opts)"

definition webhookServerOptions :: "flags \<Rightarrow> server_options" where
  "webhookServerOptions fl =
     (let webhookTLSOpts = tlsOpts fl;
          options = \<lparr>TLSOpts = webhookTLSOpts, CertDir = '''', CertName = '''', KeyName = ''''\<rparr>
      in if length (webhookCertPath fl) > 0
         then options\<lparr>CertDir := webhookCertPath fl, CertName := webhookCertName fl, KeyName := webhookCertKey fl\<rparr>
         else options)"

definition metricsServerOptions :: "flags \<Rightarrow> metrics_options" where
  "metricsServerOptions fl =
     (let options = \<lparr>TLSOpts = tlsOpts fl, CertDir = '''', CertName = '''', KeyName = '''',
            BindAddress = metricsAddr fl, SecureServing = secureMetrics fl,
            WithAuthenticationAndAuthorization = False\<rparr>;
          options = (if secureMetrics fl then options\<lparr>WithAuthenticationAndAuthorization := True\<rparr> else options)
      in if length (metricsCertPath fl) > 0
         then options\<lparr>CertDir := metricsCertPath fl, CertName := metricsCertName fl, KeyName := metricsCertKey fl\<rparr>
         else options)"

definition managerOptions :: "flags \<Rightarrow> manager_options" where
  "managerOptions fl =
     \<lparr>Metrics = metricsServerOptions fl, WebhookServer = webhookServerOptions fl,
      HealthProbeBindAddress = probeAddr fl, LeaderElection = enableLeaderElection fl,
      LeaderElectionID = ''41064f85.k8slan.io''\<rparr>"

subsection \<open>The calls\<close>

datatype setup_call =
    AddToScheme string
  | GetConfig
  | NewManager manager_options
  | NewPlainManager
  | CompleteWebhook LANCustomDefaulter
  | IndexField string
  | CompleteController string
  | CompleteNodeController string
  | AddHealthzCheck string
  | AddReadyzCheck string
  | RunPluginManager macvtapLister
  | StartManager

datatype exit = Returned | Exited nat | Panicked

type_synonym ('w, 'e) library = "setup_call \<Rightarrow> ('w, 'e, unit) eff"

text \<open>
  A call after whose error the program exits with status 1, as \<open>GetConfigOrDie\<close> does too; one
  inside \<open>Must\<close>; and one whose error is not looked at.
\<close>

definition or_exit :: "('w, 'e, unit) eff \<Rightarrow> ('w \<Rightarrow> exit \<times> 'w) \<Rightarrow> 'w \<Rightarrow> exit \<times> 'w" where
  "or_exit m k w = (case m w of (Inl e, w') \<Rightarrow> (Exited 1, w') | (Inr _, w') \<Rightarrow> k w')"

definition must :: "('w, 'e, unit) eff \<Rightarrow> ('w \<Rightarrow> exit \<times> 'w) \<Rightarrow> 'w \<Rightarrow> exit \<times> 'w" where
  "must m k w = (case m w of (Inl e, w') \<Rightarrow> (Panicked, w') | (Inr _, w') \<Rightarrow> k w')"

definition and_go_on :: "('w, 'e, unit) eff \<Rightarrow> ('w \<Rightarrow> exit \<times> 'w) \<Rightarrow> 'w \<Rightarrow> exit \<times> 'w" where
  "and_go_on m k w = k (snd (m w))"

subsection \<open>The operator\<close>

definition operator_init :: "('w, 'e) library \<Rightarrow> ('w \<Rightarrow> exit \<times> 'w) \<Rightarrow> 'w \<Rightarrow> exit \<times> 'w" where
  "operator_init lib k =
     must (lib (AddToScheme ''clientgoscheme'')) (
     must (lib (AddToScheme ''ncv1'')) (
     must (lib (AddToScheme ''lanv1beta1'')) k))"

definition SetupLANWebhookWithManager :: "('w, 'e) library \<Rightarrow> ('w, 'e, unit) eff" where
  "SetupLANWebhookWithManager lib = lib (CompleteWebhook the_defaulter)"

definition registrResource :: "('w, 'e) library \<Rightarrow> ('w, 'e, unit) eff" where
  "registrResource lib = lib (IndexField ''.metadata.controller'')"

definition SetupWithManager :: "('w, 'e) library \<Rightarrow> ('w, 'e, unit) eff" where
  "SetupWithManager lib w =
     (case registrResource lib w of
        (Inl err, w') \<Rightarrow> (Inl err, w')
      | (Inr _, w') \<Rightarrow> lib (CompleteController ''lan'') w')"

definition operator_main :: "('w, 'e) library \<Rightarrow> string \<Rightarrow> flags \<Rightarrow> 'w \<Rightarrow> exit \<times> 'w" where
  "operator_main lib ENABLE_WEBHOOKS fl =
     or_exit (lib GetConfig) (
     or_exit (lib (NewManager (managerOptions fl))) (
     (if ENABLE_WEBHOOKS \<noteq> ''false'' then or_exit (SetupLANWebhookWithManager lib) else (\<lambda>k. k)) (
     or_exit (SetupWithManager lib) (
     or_exit (lib (AddHealthzCheck ''healthz'')) (
     or_exit (lib (AddReadyzCheck ''readyz'')) (
     or_exit (lib StartManager) (\<lambda>w. (Returned, w))))))))"

definition operator :: "('w, 'e) library \<Rightarrow> string \<Rightarrow> flags \<Rightarrow> 'w \<Rightarrow> exit \<times> 'w" where
  "operator lib ENABLE_WEBHOOKS fl = operator_init lib (operator_main lib ENABLE_WEBHOOKS fl)"

subsection \<open>The node agent\<close>

text \<open>
  The name of the host may fail to be read; the reconciler of the agent's controller gets it.
  The plugin manager runs beside the rest, with the lister.
\<close>

definition SetupWithManager_node :: "('w, 'e) library \<Rightarrow> string \<Rightarrow> ('w, 'e, unit) eff" where
  "SetupWithManager_node lib hostName = lib (CompleteNodeController hostName)"

definition agent_main :: "('w, 'e) library \<Rightarrow> 'e + string \<Rightarrow> 'w \<Rightarrow> exit \<times> 'w" where
  "agent_main lib hostname w =
     (case hostname of
        Inl e \<Rightarrow> (Panicked, w)
      | Inr hostName \<Rightarrow>
          and_go_on (lib (AddToScheme ''k8slan'')) (
          or_exit (lib GetConfig) (
          or_exit (lib NewPlainManager) (
          or_exit (SetupWithManager_node lib hostName) (
          and_go_on (lib (RunPluginManager NewMacvtapLister)) (
          or_exit (lib StartManager) (\<lambda>w. (Returned, w))))))) w)"

subsection \<open>What runs, as a list\<close>

text \<open>
  The specification: a list of calls, made one after the other until one fails. \<open>logged\<close> is a
  library that writes down the calls made of it and whether each succeeded.
\<close>

fun run_plan :: "('w, 'e) library \<Rightarrow> setup_call list \<Rightarrow> 'w \<Rightarrow> exit \<times> 'w" where
  "run_plan lib [] w = (Returned, w)"
| "run_plan lib (c # cs) w =
     (case lib c w of (Inl e, w') \<Rightarrow> (Exited 1, w') | (Inr _, w') \<Rightarrow> run_plan lib cs w')"

definition operator_plan :: "string \<Rightarrow> flags \<Rightarrow> setup_call list" where
  "operator_plan ENABLE_WEBHOOKS fl =
     [GetConfig, NewManager (managerOptions fl)] @
     (if ENABLE_WEBHOOKS = ''false'' then [] else [CompleteWebhook the_defaulter]) @
     [IndexField ''.metadata.controller'', CompleteController ''lan'', AddHealthzCheck ''healthz'',
      AddReadyzCheck ''readyz'', StartManager]"

definition logged :: "('w, 'e) library \<Rightarrow> ('w \<times> (setup_call \<times> bool) list, 'e) library" where
  "logged lib c = (\<lambda>(w, made). case lib c w of (r, w') \<Rightarrow> (r, (w', made @ [(c, \<not> isl r)])))"

lemma logged_simp: "logged lib c (w, made) = (case lib c w of (r, w') \<Rightarrow> (r, (w', made @ [(c, \<not> isl r)])))"
  by (simp add: logged_def)

lemma or_exit_step: "or_exit (lib c) (run_plan lib cs) = run_plan lib (c # cs)"
  by (rule ext) (simp add: or_exit_def)

lemma SetupWithManager_steps:
  "or_exit (SetupWithManager lib) (run_plan lib cs) =
     run_plan lib (IndexField ''.metadata.controller'' # CompleteController ''lan'' # cs)"
  by (rule ext) (simp add: or_exit_def SetupWithManager_def registrResource_def split: prod.split sum.split)

lemma run_plan_done: "(\<lambda>w. (Returned, w)) = run_plan lib []"
  by (rule ext) simp

lemma operator_main_plan: "operator_main lib env fl = run_plan lib (operator_plan env fl)"
  unfolding operator_main_def operator_plan_def SetupLANWebhookWithManager_def run_plan_done [of lib] or_exit_step
    SetupWithManager_steps
  by (simp add: or_exit_step)

text \<open>
  The calls made are a first part of the plan: all of it, with every call a success, exactly
  when the program returns, and else up to the first call that fails.
\<close>

lemma run_plan_logged:
  "run_plan (logged lib) cs (w, made) = (x, (w', made')) \<Longrightarrow>
     \<exists>new left. cs = map fst new @ left \<and> made' = made @ new \<and>
       (x = Returned \<and> left = [] \<and> list_all snd new \<or>
        x = Exited 1 \<and> (\<exists>before c. new = before @ [(c, False)] \<and> list_all snd before))"
proof (induction cs arbitrary: w made)
  case (Cons c cs)
  obtain r w1 where run: "lib c w = (r, w1)" by (cases "lib c w")
  show ?case
  proof (cases r)
    case (Inl e)
    with Cons.prems run have "x = Exited 1" "made' = made @ [(c, False)]" by (auto simp: logged_simp)
    then show ?thesis by (intro exI [of _ "[(c, False)]"] exI [of _ cs]) auto
  next
    case (Inr u)
    with Cons.prems run have "run_plan (logged lib) cs (w1, made @ [(c, True)]) = (x, (w', made'))"
      by (simp add: logged_simp)
    from Cons.IH [OF this] obtain new left where "cs = map fst new @ left" "made' = (made @ [(c, True)]) @ new"
      and x: "x = Returned \<and> left = [] \<and> list_all snd new \<or>
        x = Exited 1 \<and> (\<exists>before c. new = before @ [(c, False)] \<and> list_all snd before)" by blast
    moreover from x have "x = Returned \<and> left = [] \<and> list_all snd ((c, True) # new) \<or>
        x = Exited 1 \<and> (\<exists>before c'. (c, True) # new = before @ [(c', False)] \<and> list_all snd before)"
      by (metis append_Cons list.pred_inject(2) snd_conv)
    ultimately show ?thesis by (intro exI [of _ "(c, True) # new"] exI [of _ left]) simp
  qed
qed simp

subsection \<open>Properties\<close>

text \<open>C35: the operator makes its calls in the order of a list and stops at the first that fails: when it returns it has made all of them and each has succeeded; else it exits with status 1, the last call it made has failed and every one before has succeeded. So the manager is started only after every other call has succeeded, the webhook's included unless the environment turns it off.\<close>

theorem operator_follows_plan:
  assumes "operator_main (logged lib) env fl (w, []) = (x, (w', made))"
  shows "(\<exists>left. operator_plan env fl = map fst made @ left \<and>
      (x = Returned \<and> left = [] \<and> list_all snd made \<or>
       x = Exited 1 \<and> (\<exists>before c. made = before @ [(c, False)] \<and> list_all snd before))) \<and>
    (StartManager \<in> fst ` set made \<longrightarrow>
      (\<exists>before ok. made = before @ [(StartManager, ok)] \<and> list_all snd before \<and>
         (env \<noteq> ''false'' \<longrightarrow> (CompleteWebhook the_defaulter, True) \<in> set before)))"
proof -
  from assms have "run_plan (logged lib) (operator_plan env fl) (w, []) = (x, (w', made))"
    unfolding operator_main_plan .
  from run_plan_logged [OF this] obtain left where left: "operator_plan env fl = map fst made @ left"
    and x: "x = Returned \<and> left = [] \<and> list_all snd made \<or>
      x = Exited 1 \<and> (\<exists>before c. made = before @ [(c, False)] \<and> list_all snd before)" by auto
  obtain start where plan: "operator_plan env fl = start @ [StartManager]" "StartManager \<notin> set start"
    and hook: "env \<noteq> ''false'' \<longrightarrow> CompleteWebhook the_defaulter \<in> set start"
    by (cases "env = ''false''") (auto simp: operator_plan_def)
  have "\<exists>before ok. made = before @ [(StartManager, ok)] \<and> list_all snd before \<and>
      (env \<noteq> ''false'' \<longrightarrow> (CompleteWebhook the_defaulter, True) \<in> set before)" if "StartManager \<in> fst ` set made"
  proof -
    from that plan left have "left = []" by (cases left rule: rev_cases) auto
    with left plan have made: "map fst made = start @ [StartManager]" by simp
    then obtain before ok where before: "made = before @ [(StartManager, ok)]" "map fst before = start"
      by (cases made rule: rev_cases) auto
    from x before have ok: "list_all snd before" by auto
    have "(CompleteWebhook the_defaulter, True) \<in> set before" if "env \<noteq> ''false''"
    proof -
      from that hook obtain call where "call \<in> set before" "fst call = CompleteWebhook the_defaulter"
        unfolding before(2) [symmetric] by auto
      with ok show ?thesis by (cases call) (auto simp: list_all_iff)
    qed
    with before(1) ok show ?thesis by blast
  qed
  with left x show ?thesis by blast
qed

text \<open>A library on which registering the webhook fails, and one on which every call succeeds.\<close>

definition no_webhook :: "(unit, string) library" where
  "no_webhook c = (\<lambda>w. (case c of CompleteWebhook d \<Rightarrow> Inl ''no webhook'' | _ \<Rightarrow> Inr (), w))"

definition all_well :: "(unit, string) library" where
  "all_well c = (\<lambda>w. (Inr (), w))"

theorem operator_follows_plan_witness:
  "(\<exists>made. operator_main (logged no_webhook) '''' default_flags ((), []) = (Exited 1, ((), made)) \<and>
      StartManager \<notin> fst ` set made \<and> (CompleteWebhook the_defaulter, False) \<in> set made \<and>
      (\<exists>left. operator_plan '''' default_flags = map fst made @ left)) \<and>
   (\<exists>made. operator_main (logged all_well) '''' default_flags ((), []) = (Returned, ((), made)) \<and>
      map fst made = operator_plan '''' default_flags \<and> list_all snd made)"
proof
  let ?made = "[(GetConfig, True), (NewManager (managerOptions default_flags), True), (CompleteWebhook the_defaulter, False)]"
  have run: "operator_main (logged no_webhook) '''' default_flags ((), []) = (Exited 1, ((), ?made))"
    by (simp add: operator_main_def or_exit_def logged_simp no_webhook_def SetupLANWebhookWithManager_def)
  from operator_follows_plan [OF run] run
  show "\<exists>made. operator_main (logged no_webhook) '''' default_flags ((), []) = (Exited 1, ((), made)) \<and>
      StartManager \<notin> fst ` set made \<and> (CompleteWebhook the_defaulter, False) \<in> set made \<and>
      (\<exists>left. operator_plan '''' default_flags = map fst made @ left)" by (intro exI [of _ ?made]) auto
next
  obtain made where run: "operator_main (logged all_well) '''' default_flags ((), []) = (Returned, ((), made))"
    by (simp add: operator_main_def or_exit_def logged_simp all_well_def SetupLANWebhookWithManager_def
      SetupWithManager_def registrResource_def)
  from operator_follows_plan [OF run] run
  show "\<exists>made. operator_main (logged all_well) '''' default_flags ((), []) = (Returned, ((), made)) \<and>
      map fst made = operator_plan '''' default_flags \<and> list_all snd made" by auto
qed

end
