(* ===== verification/Spec2Isabelle.thy ===== *)
theory Spec2Isabelle
  imports Agent RefHost DeepCopy Startup
begin

text \<open>
  \<^bold>\<open>k8slan: a verification of the layer-2 networks of a Kubernetes cluster.\<close>

  A custom resource \<open>LAN\<close> describes a layer-2 network over VxLAN and its spokes. Four parts of
  the repository make it work, and the theories follow them.

  \<^item> The \<^emph>\<open>API types\<close> (\<open>api/v1beta1\<close>) hold the resource, its validation, and the names and
    attachment definitions derived from it. The \<^emph>\<open>webhooks\<close> (\<open>internal/webhook\<close>) default and
    validate every LAN before the API server stores it.
  \<^item> The \<^emph>\<open>operator\<close> (\<open>cmd\<close>, \<open>internal/controller\<close>) runs once per cluster: it serves the webhooks
    and creates two attachment definitions for each spoke of a LAN.
  \<^item> The \<^emph>\<open>node agent\<close> (\<open>dset\<close>, \<open>pkg\<close>) runs on every node. Its reconciler puts its finalizer on
    a LAN and sends the LAN's specification over a channel to the \<^emph>\<open>lister\<close>, which offers a
    device-plugin resource per attachment definition; for a LAN that is going it sends the
    specification over a second channel and takes the finalizer off. When a pod asks for a
    resource, the \<^emph>\<open>device plugin\<close> calls \<open>Ensure\<close>, which builds namespace, bridge, VxLAN link,
    veth pair and macvtap.
  \<^item> The \<^emph>\<open>CNI plugin\<close> (\<open>cni/k8slanveth\<close>) moves a spoke into the pod and configures it.

  \<^bold>\<open>Theories and sources.\<close>

  \<^item> \<open>Prelude\<close>: results with errors and panics, nil-able values, early returns, actions on a world.
  \<^item> \<open>GoStrings\<close>, \<open>Netip\<close>, \<open>NetipRoundtrip\<close>: what the program uses of \<open>strings\<close>, \<open>strconv\<close>,
    \<open>path/filepath\<close>, \<open>net/netip\<close> and \<open>net.IP.String\<close>; an address is read back from its text.
  \<^item> \<open>LanTypes\<close>: \<open>api/v1beta1/lan_types.go\<close>, \<open>groupversion_info.go\<close>. Locale \<open>resource_naming\<close>.
  \<^item> \<open>DeepCopy\<close>: \<open>api/v1beta1/zz_generated.deepcopy.go\<close>, on structs in an explicit memory.
    Locale \<open>deep_copier\<close>.
  \<^item> \<open>Webhook\<close>: \<open>internal/webhook/v1beta1/lan_webhook.go\<close>, with the life of a stored LAN as the
    step relation \<open>store_step\<close>.
  \<^item> \<open>Controller\<close>: \<open>internal/controller/lan_controller.go\<close>. Locale \<open>api_server\<close>.
  \<^item> \<open>NetHost\<close>: the calls of netlink, of the CNI namespace library and of the system, as the
    record \<open>host\<close>; links, errors, and the rules that take calls apart.
  \<^item> \<open>Namespaces\<close>: \<open>pkg/interfaces/ns.go\<close>, \<open>del.go\<close>. \<open>Interfaces\<close>: \<open>pkg/interfaces/apply.go\<close>,
    \<open>vxlan.go\<close>; \<open>Ensure\<close> is cut into the stretches its comments mark.
  \<^item> \<open>Kernel\<close>: the locale \<open>kernel\<close>, what those calls do to the table of links, and what the
    program's functions do to it. \<open>Coexist\<close>: what a call of \<open>Ensure\<close> leaves alone,
    however it ends. \<open>Willing\<close>: the locale \<open>willing_kernel\<close>, when those calls succeed, and that
    \<open>Ensure\<close> then returns a result. \<open>Underlay\<close>: the locale \<open>joining_kernel\<close>, and the VxLAN link
    that joins the node to the others.
  \<^item> \<open>DevicePlugin\<close>: \<open>pkg/deviceplugin/plugin.go\<close>. \<open>Lister\<close>: \<open>pkg/deviceplugin/lister.go\<close>, its loop
    as the step relation \<open>discover_step\<close>. Locale \<open>plugin_registry\<close>.
  \<^item> \<open>Daemon\<close>: the reconciler of \<open>dset/main.go\<close>, cut at its sends. Locale \<open>lan_server\<close>. \<open>Agent\<close>:
    reconciler, lister and the rest of the world interleaved, as the step relation \<open>agent_step\<close>.
  \<^item> \<open>CniVeth\<close>: \<open>cni/k8slanveth/main.go\<close>. Locale \<open>ipam_leases\<close>. \<open>PodLink\<close>: the locale \<open>pod_kernel\<close>,
    and what \<open>cmdAdd\<close> does to the links of the host and of the pod. \<open>PodReady\<close>: the locale
    \<open>willing_pod\<close>, when those calls succeed, and that \<open>cmdAdd\<close> then succeeds.
  \<^item> \<open>Startup\<close>: \<open>cmd/main.go\<close>, the set-up functions of controller and webhook, and the \<open>main\<close> of
    \<open>dset/main.go\<close>.
  \<^item> \<open>RefServer\<close>, \<open>RefHost\<close>: a small API server and a small host to compute with. They model no
    code; the locales are interpreted on them, so their laws can be met, and the witnesses run
    the program on them.
  \<^item> \<open>Spec2Isabelle\<close>, this theory: the properties that span components.

  \<^bold>\<open>State and operations.\<close> Structs are records with the source's field names, nil-able fields are
  options, errors are constructors, and a function that fails returns a sum. A function on the
  world (API server, kernel, IPAM plugins) is a function from worlds to a result and a world, over
  a record of library functions that is its argument; what those functions promise is a locale,
  and the properties carry it as a hypothesis, such as \<open>kernel h links\<close>. A round of the lister is cut at
  its blocking send: it takes a specification, then waits until the manager takes the list. A panic in
  a reconciliation ends it with an error, as the controller library recovers it. The state of the agent is
  the world, the point its reconciler has reached, the two channels, the table of the lister, the
  list it waits to hand to the device-plugin manager, and the lists the manager has taken. Integers of 32 bits are words where they can wrap (VNI, port, the MTU's
  conversion), other Go integers are \<open>int\<close>.

  \<^bold>\<open>What is shown.\<close> The webhooks keep every stored LAN valid and its specification as created; on
  such a specification \<open>Ensure\<close> panics in two cases, which a theorem names, and in no other. When it
  succeeds, the links of the attachment are there, up and joined, and an allocation returns the device
  file of its macvtap; the VxLAN link of the specification is on the same bridge, two spokes of a LAN
  share it, and a veth spoke ends in its pod with its port still there. It does succeed on a host that
  refuses nothing and has room; so does an allocation for a stored LAN that the lister offers, and so
  does the ADD of a spoke that is in place. However \<open>Ensure\<close> ends, the links of other spokes stay. A
  VxLAN link as it makes it is recognised on the next call, when its group is written plainly. The
  reconciler of the operator tries to create the missing attachment definitions: each is held
  afterwards or was refused, and each that a LAN has is served by a plugin that knows its spoke. The
  table of the lister is what the last event on each resource left, whatever the order of the
  channels; the lists reported are the table, and whatever they offer the server held before. Left
  alone, the lister comes to rest within a bound, with a table of one of the merged orders of its
  channels, and a send that waits on a full channel is let through within a bound. A LAN is withdrawn
  before its finalizer comes off, a LAN that is offered gets served, and a LAN that is going does go.
  A CNI ADD that fails leaves no lease. The operator makes each set-up call only after those before
  it have succeeded. Deep copies share nothing and keep the memory well-typed. Where the code falls
  short of what it is to do, a theorem says how: a failure to attach the VxLAN link is hidden, and so
  is a VNI that is taken; a refused attachment definition is not retried; a link of the pod may be
  renamed instead of the spoke; an empty list is not reported, the channels race, names of spokes
  collide, within a LAN and between LANs, a CNI DEL leaks its lease, a namespace name leads anywhere.

  \<^bold>\<open>Loops and bounds.\<close> Loops over lists are recursive functions; the loop of the IPv6 parser and of
  \<open>ReplaceAll\<close> have a measure. \<open>ListAndWatch\<close> never returns: \<open>watch_rounds n\<close> gives the messages of its
  first \<open>n\<close> rounds. \<open>Discover\<close> never returns either: it is a step relation, and \<open>lister_drains\<close> bounds
  its rounds. The depth of the channels, 16, is the source's. No function needs fuel.

  \<^bold>\<open>Not modelled.\<close> Logging, the one-second sleep in \<open>Ensure\<close>, the parsing of the command line, the
  registration of types in schemes beyond the calls themselves, \<open>LANList\<close> beyond its deep copy, JSON
  decoding, the unused types \<open>Config\<close>, \<open>MacEnvArgs\<close> and \<open>BridgeArgs\<close>, the \<open>main\<close> of the CNI plugin, which only
  registers its commands, the memory model of Go (the lister's table is read and written by two
  goroutines without a lock; the model's accesses are atomic), and the manual test programs under \<open>testdata\<close> and \<open>test\<close>.
\<close>

section \<open>The operator\<close>

text \<open>C14: reconciling a LAN tries to create, owned by it, each of its attachment definitions whose name no attachment definition on the server has yet: afterwards each of these is held or was refused by the server, nothing else has changed, and the reconciliation returns no error in either case.\<close>

theorem Reconcile_creates_missing:
  assumes "api_server c held lans" and "lans w ns name = Some obj"
  shows "\<exists>w'. \<exists>made \<subseteq> missing obj ns (held w). Reconcile c ns name w = (Inr (), w') \<and>
    held w' = held w \<union> owned_by obj ` made \<and> lans w' = lans w \<and>
    (\<forall>n \<in> missing obj ns (held w) - made. refused c held obj w w' n)"
  using assms by (rule api_server.Reconcile_found)

definition fresh_server :: server_world where
  "fresh_server = \<lparr>Nads = [], Lans = [(''default'', ''lan1'') \<mapsto> sample_lan]\<rparr>"

lemma fresh_server_obj: "ref_obj fresh_server ''default'' ''lan1'' = Some sample_lan"
  by (simp add: ref_obj_def fresh_server_def sample_lan_def)

lemma sample_nads:
  "set (GetNADs (Spec sample_lan) ''default'') =
     {genNAD ''k8slan-veth-s1'' ''default'', genNAD ''k8slan-mac-s1'' ''default'',
      genNAD ''k8slan-veth-s2'' ''default'', genNAD ''k8slan-mac-s2'' ''default''}"
  by (auto simp: GetNADs_def sample_spec_def naming_defs)

text \<open>A valid LAN with a spoke in upper case, whose attachment definitions no API server admits.\<close>

definition upper_lan :: LAN where
  "upper_lan = sample_lan\<lparr>Spec := sample_spec\<lparr>SpokeList := Some [''s1'', ''S2'']\<rparr>\<rparr>"

definition upper_server :: server_world where
  "upper_server = \<lparr>Nads = [], Lans = [(''default'', ''lan1'') \<mapsto> upper_lan]\<rparr>"

lemma upper_server_obj: "ref_obj upper_server ''default'' ''lan1'' = Some upper_lan"
  by (simp add: ref_obj_def upper_server_def upper_lan_def sample_lan_def)

lemma upper_nads:
  "GetNADs (Spec upper_lan) ''default'' =
     [genNAD ''k8slan-veth-s1'' ''default'', genNAD ''k8slan-mac-s1'' ''default'',
      genNAD ''k8slan-veth-S2'' ''default'', genNAD ''k8slan-mac-S2'' ''default'']"
  by (simp add: GetNADs_def upper_lan_def sample_spec_def naming_defs)

lemma upper_run:
  "\<exists>w'. Reconcile ref_api ''default'' ''lan1'' upper_server = (Inr (), w') \<and>
     nad_name ` ref_held w' = {''k8slan-veth-s1'', ''k8slan-mac-s1''}"
proof -
  have "Reconcile ref_api ''default'' ''lan1'' upper_server =
      (Inr (), create_missing ref_api upper_lan [] (GetNADs (Spec upper_lan) ''default'') upper_server)"
    using ref_api.get_found [OF upper_server_obj] by (simp add: Reconcile_def branch_def upper_server_def)
  moreover have "Nads (create_missing ref_api upper_lan [] (GetNADs (Spec upper_lan) ''default'') upper_server) =
      [owned_by upper_lan (genNAD ''k8slan-mac-s1'' ''default''), owned_by upper_lan (genNAD ''k8slan-veth-s1'' ''default'')]"
    unfolding upper_nads
    by (simp add: upper_server_def ref_own_def ref_create_def name_admitted_def)
  ultimately show ?thesis by (auto simp: ref_held_def)
qed

theorem Reconcile_creates_missing_witness:
  "valid_spec (Spec upper_lan) \<and>
   (\<exists>w'. Reconcile ref_api ''default'' ''lan1'' upper_server = (Inr (), w') \<and>
      nad_name ` ref_held w' = {''k8slan-veth-s1'', ''k8slan-mac-s1''} \<and>
      refused ref_api ref_held upper_lan upper_server w' (genNAD ''k8slan-mac-S2'' ''default''))"
proof
  show "valid_spec (Spec upper_lan)"
    using sample_valid by (simp add: upper_lan_def valid_spec_def sample_spec_def ifname_ok_def)
  let ?n = "genNAD ''k8slan-mac-S2'' ''default''"
  obtain w' where run: "Reconcile ref_api ''default'' ''lan1'' upper_server = (Inr (), w')"
    and names: "nad_name ` ref_held w' = {''k8slan-veth-s1'', ''k8slan-mac-s1''}" using upper_run by blast
  from Reconcile_creates_missing [where c = ref_api and held = ref_held and lans = ref_obj, OF ref_api.api_server_axioms upper_server_obj] run
  obtain made where made: "ref_held w' = ref_held upper_server \<union> owned_by upper_lan ` made"
    "\<forall>n \<in> missing upper_lan ''default'' (ref_held upper_server) - made. refused ref_api ref_held upper_lan upper_server w' n"
    by fastforce
  have "?n \<in> missing upper_lan ''default'' (ref_held upper_server)"
    by (simp add: missing_def upper_nads ref_held_def upper_server_def)
  moreover have "?n \<notin> made"
  proof
    assume "?n \<in> made"
    with made(1) have "nad_name (owned_by upper_lan ?n) \<in> nad_name ` ref_held w'" by blast
    with names show False by simp
  qed
  ultimately show "\<exists>w'. Reconcile ref_api ''default'' ''lan1'' upper_server = (Inr (), w') \<and>
      nad_name ` ref_held w' = {''k8slan-veth-s1'', ''k8slan-mac-s1''} \<and>
      refused ref_api ref_held upper_lan upper_server w' ?n"
    using run names made(2) by blast
qed

text \<open>C36: an attachment definition of the same name in another namespace keeps the operator from creating the one a LAN needs: after a reconciliation there still is none of that name in the LAN's namespace.\<close>

theorem foreign_NAD_suppresses:
  assumes "api_server c held lans" and "lans w ns name = Some obj"
    and "m \<in> held w" and "nad_name m = GetDPResouceName s k"
    and "\<not> taken (held w) (genNAD (GetDPResouceName s k) ns)"
  shows "\<exists>w'. Reconcile c ns name w = (Inr (), w') \<and> \<not> taken (held w') (genNAD (GetDPResouceName s k) ns)"
proof -
  from api_server.Reconcile_found [OF assms(1,2)] obtain w' made where
    w': "Reconcile c ns name w = (Inr (), w')" "held w' = held w \<union> owned_by obj ` made"
      "made \<subseteq> missing obj ns (held w)" by blast
  have "nad_name n \<noteq> GetDPResouceName s k" if "n \<in> made" for n
    using that w'(3) assms(4) imageI [OF assms(3), of nad_name] by (auto simp: missing_def)
  with assms(5) w'(1,2) show ?thesis by (fastforce simp: taken_def)
qed

theorem foreign_NAD_suppresses_witness:
  "\<exists>w'. Reconcile ref_api ''default'' ''lan1'' (fresh_server\<lparr>Nads := [genNAD ''k8slan-mac-s1'' ''other'']\<rparr>) =
      (Inr (), w') \<and> \<not> taken (ref_held w') (genNAD (GetDPResouceName ''s1'' False) ''default'')"
  by (rule foreign_NAD_suppresses [where c = ref_api and held = ref_held and lans = ref_obj, OF ref_api.api_server_axioms, of _ _ _ sample_lan "genNAD ''k8slan-mac-s1'' ''other''"])
    (simp_all add: ref_obj_def fresh_server_def sample_lan_def ref_held_def taken_def naming_defs)

section \<open>The node agent\<close>

text \<open>A LAN that is not going and has the node's finalizer is offered: its specification is put on the channel of additions, once per reconciliation; with 16 queued there the reconciliation waits; the server is left as it is.\<close>

lemma node_offers:
  assumes "lan_server c h obj" and "obj w ns n = Some l" and "IsZero (DeletionTimestamp (LANMeta l))"
    and "myFinalizerName node \<in> set (Finalizers (LANMeta l))"
  shows "Reconcile_node c (h node) node ns n q w =
    (if length (DPAddChan q) < 16 then Some (Inr (), q\<lparr>DPAddChan := DPAddChan q @ [Spec l]\<rparr>) else None, w)"
  using assms by (rule lan_server.Reconcile_offers)

lemma node_offers_witness:
  "Reconcile_node ref_server idle_host ''node1'' ''default'' ''lan1'' no_chans (one_lan None) =
     (Some (Inr (), no_chans\<lparr>DPAddChan := [sample_spec]\<rparr>), one_lan None) \<and>
   Reconcile_node ref_server idle_host ''node1'' ''default'' ''lan1'' (no_chans\<lparr>DPAddChan := replicate 16 sample_spec\<rparr>)
     (one_lan None) = (None, one_lan None)"
  using node_offers [where c = ref_server and h = "\<lambda>node. idle_host" and obj = ref_obj, OF ref_lan.lan_server_axioms one_lan_obj,
      of None "''node1''"]
  by (simp add: IsZero_def no_chans_def)

text \<open>C12: a LAN that is not going gets served: once its reconciliation has returned twice on a node, which registers the finalizer if it was missing and offers the LAN, and the lister has come to rest, with its channels drained in whatever order, the resource of every attachment definition of the LAN is in the lister's table with the LAN's specification and in the list last reported to the device-plugin manager, provided nothing else that was queued shares a spoke with the LAN. The lister always comes to rest, within two rounds for each specification queued and one for a list that waited.\<close>

theorem offered_LAN_served:
  assumes "lan_server c h obj" and "obj w ns n = Some l" and "IsZero (DeletionTimestamp (LANMeta l))"
    and "Reconcile_node c (h node) node ns n (chans_of s) w = (Some (Inr (), q1), w1)"
    and "Reconcile_node c (h node) node ns n q1 w1 = (Some (Inr (), q2), w2)"
    and "iterates keys_of" and "\<forall>lan \<in> set (AddChan s) \<union> set (RemovChan s). spokes_apart (Spec l) lan"
    and "nad \<in> set (GetNADs (Spec l) ns')"
  shows "\<exists>r. nad_resource nad = Some (GetResourceNamespace @ ''/'' @ r) \<and>
    (\<forall>k t. (discover_step keys_of ^^ k) (with_chans q2 s) t \<longrightarrow> k \<le> 2 * queued (with_chans q2 s) + 1) \<and>
    (\<exists>t. (discover_step keys_of)\<^sup>*\<^sup>* (with_chans q2 s) t \<and> resting t) \<and>
    (\<forall>t. (discover_step keys_of)\<^sup>*\<^sup>* (with_chans q2 s) t \<and> resting t \<longrightarrow>
       plugin_lookup (Lister t) r = Some (Spec l) \<and> Sent t \<noteq> [] \<and> r \<in> set (last (Sent t)))"
proof -
  from assms(8) obtain sp k where sp: "sp \<in> set (elems (SpokeList (Spec l)))" "nad = genNAD (GetDPResouceName sp k) ns'"
    unfolding GetNADs_in_iff by blast
  have r: "GetDPResouceName sp k \<in> set (lan_resources (Spec l))"
    unfolding naming.names_set using sp(1) by blast
  have q2: "DPRemoveChan q2 = RemovChan s"
    "DPAddChan q2 = AddChan s @ [Spec l] \<or> DPAddChan q2 = AddChan s @ [Spec l, Spec l]"
    using lan_server.Reconcile_offers_within_two [OF assms(1-5)] by (auto simp: chans_of_def)
  then have "offering (Spec l) (with_chans q2 s)" "Spec l \<in> set (AddChan (with_chans q2 s))"
    using assms(7) by (auto simp: offering_def with_chans_def)
  note drained = drained_offer [OF assms(6) this _ _ r]
  show ?thesis
  proof (intro exI [of _ "GetDPResouceName sp k"] conjI allI impI)
    show "nad_resource nad = Some (GetResourceNamespace @ ''/'' @ GetDPResouceName sp k)"
      by (simp add: sp(2) GetResourceNamespace_def)
    show "k \<le> 2 * queued (with_chans q2 s) + 1" if "(discover_step keys_of ^^ k) (with_chans q2 s) t" for k t
      using rounds_work [OF that] by (simp add: work_def split: if_splits)
  qed (use drained rest_reached in blast)+
qed

theorem offered_LAN_served_witness:
  "\<exists>q2 t. Reconcile_node ref_server idle_host ''node1'' ''default'' ''lan1'' no_chans (one_lan None) =
      (Some (Inr (), no_chans\<lparr>DPAddChan := [sample_spec]\<rparr>), one_lan None) \<and>
    (discover_step sorted_keys)\<^sup>*\<^sup>* (with_chans q2 (Node (agent_start ()))) t \<and> resting t \<and>
    ''k8slan-veth-s1'' \<in> set (last (Sent t))"
proof -
  let ?s = "Node (agent_start ())"
  have start: "chans_of ?s = no_chans" "AddChan ?s = []" "RemovChan ?s = []"
    by (simp_all add: agent_start_def chans_of_def no_chans_def)
  have offers: "reconcile_begin ref_server idle_host ''node1'' ''default'' ''lan1'' (one_lan None) =
      (Inr (SendAdd sample_spec), one_lan None)" by (rule one_lan_begin)
  then have round: "Reconcile_node ref_server idle_host ''node1'' ''default'' ''lan1'' q (one_lan None) =
      (Some (Inr (), q\<lparr>DPAddChan := DPAddChan q @ [sample_spec]\<rparr>), one_lan None)" if "length (DPAddChan q) < 16" for q
    using that by (simp add: Reconcile_node_def send_def chanDepth_def reconcile_end_def)
  let ?q1 = "no_chans\<lparr>DPAddChan := [sample_spec]\<rparr>" and ?q2 = "no_chans\<lparr>DPAddChan := [sample_spec, sample_spec]\<rparr>"
  have one: "Reconcile_node ref_server idle_host ''node1'' ''default'' ''lan1'' (chans_of ?s) (one_lan None) =
      (Some (Inr (), ?q1), one_lan None)" using round [of no_chans] start by (simp add: no_chans_def)
  have two: "Reconcile_node ref_server idle_host ''node1'' ''default'' ''lan1'' ?q1 (one_lan None) =
      (Some (Inr (), ?q2), one_lan None)" using round [of ?q1] by (simp add: no_chans_def)
  have nad: "genNAD ''k8slan-veth-s1'' ''default'' \<in> set (GetNADs sample_spec ''default'')"
    using sample_nads by simp
  have resource: "r = ''k8slan-veth-s1''"
    if "nad_resource (genNAD ''k8slan-veth-s1'' ''default'') = Some (GetResourceNamespace @ ''/'' @ r)" for r
    using that by (simp add: GetResourceNamespace_def)
  let ?l = "sample_lan\<lparr>LANMeta := (LANMeta sample_lan)\<lparr>Finalizers := [myFinalizerName ''node1''],
    DeletionTimestamp := None\<rparr>\<rparr>"
  have l: "Spec ?l = sample_spec" "IsZero (DeletionTimestamp (LANMeta ?l))" by (simp_all add: IsZero_def)
  have apart: "\<forall>lan \<in> set (AddChan ?s) \<union> set (RemovChan ?s). spokes_apart (Spec ?l) lan" by (simp add: start)
  have nad': "genNAD ''k8slan-veth-s1'' ''default'' \<in> set (GetNADs (Spec ?l) ''default'')" unfolding l by (rule nad)
  from offered_LAN_served [where c = ref_server and h = "\<lambda>node. idle_host" and obj = ref_obj,
      OF ref_lan.lan_server_axioms one_lan_obj [of None] l(2) one two sorted_keys_iterates apart nad', unfolded l(1)]
  obtain r where "nad_resource (genNAD ''k8slan-veth-s1'' ''default'') = Some (GetResourceNamespace @ ''/'' @ r)"
    and drained: "\<exists>t. (discover_step sorted_keys)\<^sup>*\<^sup>* (with_chans ?q2 ?s) t \<and> resting t"
      "\<forall>t. (discover_step sorted_keys)\<^sup>*\<^sup>* (with_chans ?q2 ?s) t \<and> resting t \<longrightarrow>
        plugin_lookup (Lister t) r = Some sample_spec \<and> Sent t \<noteq> [] \<and> r \<in> set (last (Sent t))"
    by blast
  with resource one start(1) show ?thesis by auto
qed

text \<open>C32: a LAN that is going is withdrawn: its specification goes to the lister's removal channel, and the node's finalizer, and no other, comes off; without any finalizer left the object is gone.\<close>

theorem node_withdraws:
  assumes "lan_server c h obj" and "obj w ns n = Some l" and "\<not> IsZero (DeletionTimestamp (LANMeta l))"
    and "myFinalizerName node \<in> set (Finalizers (LANMeta l))"
    and "Reconcile_node c (h node) node ns n q w = (Some (Inr (), q'), w')"
  shows "q' = q\<lparr>DPRemoveChan := DPRemoveChan q @ [Spec l]\<rparr> \<and>
    obj w' ns n = stored_as (with_finalizers l (removeAll (myFinalizerName node) (Finalizers (LANMeta l))))"
  using assms by (rule lan_server.Reconcile_withdraws)

text \<open>C11: a LAN that is going and carries the finalizers of some nodes, whose namespace is set, is gone from the server after a round of reconciliation on each of these nodes, provided updates go through.\<close>

theorem deletion_completes:
  assumes "lan_server c h obj" and "updates_go_through c obj"
    and "obj w ns n = Some l" and "\<not> IsZero (DeletionTimestamp (LANMeta l))" and "NS (Spec l) \<noteq> None"
    and "Finalizers (LANMeta l) \<noteq> []" and "set (Finalizers (LANMeta l)) \<subseteq> myFinalizerName ` set nodes"
  shows "\<exists>w'. each_node c h ns n nodes w = Some w' \<and> obj w' ns n = None"
proof (rule lan_server.each_node_collects [OF assms(1,2) _ assms(4,5,7)])
  show "obj w ns n = stored_as l" using assms(3,6) by (simp add: stored_as_def)
qed

definition going_lan :: LAN where
  "going_lan = sample_lan\<lparr>LANMeta := (LANMeta sample_lan)\<lparr>DeletionTimestamp := Some 7,
     Finalizers := [myFinalizerName ''node1'', myFinalizerName ''node2'']\<rparr>\<rparr>"

definition going_server :: server_world where
  "going_server = \<lparr>Nads = [], Lans = [(''default'', ''lan1'') \<mapsto> going_lan]\<rparr>"

lemma going_lan_simps [simp]:
  "Spec going_lan = sample_spec" "DeletionTimestamp (LANMeta going_lan) = Some 7"
  "Finalizers (LANMeta going_lan) = [myFinalizerName ''node1'', myFinalizerName ''node2'']"
  "Name (LANMeta going_lan) = ''lan1''" "Namespace (LANMeta going_lan) = ''default''"
  by (simp_all add: going_lan_def)

lemma going_server_obj: "ref_obj going_server ''default'' ''lan1'' = Some going_lan"
  by (simp add: ref_obj_def going_server_def)

lemma going_lan_goes:
  "\<not> IsZero (DeletionTimestamp (LANMeta going_lan))" "NS (Spec going_lan) \<noteq> None"
  "myFinalizerName ''node1'' \<in> set (Finalizers (LANMeta going_lan))"
  by (simp_all add: IsZero_def sample_spec_def)

theorem node_withdraws_witness:
  "\<exists>w'. Reconcile_node ref_server idle_host ''node1'' ''default'' ''lan1'' no_chans going_server =
      (Some (Inr (), no_chans\<lparr>DPRemoveChan := [sample_spec]\<rparr>), w') \<and>
    map_option (\<lambda>l. Finalizers (LANMeta l)) (ref_obj w' ''default'' ''lan1'') = Some [''finalizer.k8slan.io/node2'']"
proof -
  have left: "removeAll (myFinalizerName ''node1'') (Finalizers (LANMeta going_lan)) = [''finalizer.k8slan.io/node2'']"
    by (simp add: myFinalizerName_def FinalizerPrefix_def)
  have "length (DPRemoveChan no_chans) < 16" by (simp add: no_chans_def)
  from ref_lan.Reconcile_returns [OF ref_updates going_server_obj going_lan_goes(1,2) this, of "''node1''"]
  obtain q' w' where run: "Reconcile_node ref_server idle_host ''node1'' ''default'' ''lan1'' no_chans going_server =
      (Some (Inr (), q'), w')" by blast
  have "q' = no_chans\<lparr>DPRemoveChan := DPRemoveChan no_chans @ [Spec going_lan]\<rparr> \<and>
      ref_obj w' ''default'' ''lan1'' =
        stored_as (with_finalizers going_lan (removeAll (myFinalizerName ''node1'') (Finalizers (LANMeta going_lan))))"
    by (rule node_withdraws [where c = ref_server and h = "\<lambda>node. idle_host" and obj = ref_obj, OF ref_lan.lan_server_axioms going_server_obj going_lan_goes(1,3) run])
  with run left show ?thesis
    by (intro exI [of _ w']) (simp add: no_chans_def stored_as_def)
qed

theorem deletion_completes_witness:
  "\<exists>w'. each_node ref_server (\<lambda>node. idle_host) ''default'' ''lan1'' [''node2'', ''node1''] going_server = Some w' \<and>
     ref_obj w' ''default'' ''lan1'' = None"
  by (rule deletion_completes [where c = ref_server and h = "\<lambda>node. idle_host" and obj = ref_obj, OF ref_lan.lan_server_axioms ref_updates going_server_obj going_lan_goes(1,2)])
    simp_all

section \<open>The links of an attachment\<close>

text \<open>The reference host with one device, and a run of \<open>Ensure\<close> on it.\<close>

definition bare_host :: ref_world where
  "bare_host =
     \<lparr>RefTab = [((HostNS, ''eth0''), down_iface (no_attrs\<lparr>LName := ''eth0'', LIndex := 2, LMTU := 1500,
        LKind := OtherKind ''device''\<rparr>))],
      RefNext = 10, RefNS = Map.empty, RefNextNS = 7, RefBad = [], RefLeases = {#}\<rparr>"

text \<open>The same with a bridge port that cannot be attached.\<close>

definition bad_host :: ref_world where
  "bad_host = bare_host\<lparr>RefBad := [''vx0'']\<rparr>"

lemma bare_host_simps:
  "RefTab bare_host = [((HostNS, ''eth0''), down_iface (no_attrs\<lparr>LName := ''eth0'', LIndex := 2, LMTU := 1500,
        LKind := OtherKind ''device''\<rparr>))]"
  "RefNext bare_host = 10" "RefNS bare_host = Map.empty" "RefNextNS bare_host = 7" "RefBad bare_host = []"
  by (simp_all add: bare_host_def)

lemmas sequencing = give_def raise_def attempt_def branch_def calling_def running_def evaluating_def
  ignoring_error_def reading_def deferred_def do_in_def

lemmas ref_calls = ref_by_name_def ref_add_def ref_vni_used_def ref_del_def ref_set_master_def ref_set_ns_def ref_get_ns_def
  ref_mount_def ref_stat_def ref_unmount_def nop_def set_iface_def on_link_def put_link_def drop_link_def prune_def ref_index_def down_iface_def
  loopback_def ref_links_def relabel_def no_attrs_def

lemmas ensure_defs = Ensure_def lo_up_def vx_dev_name_def setup_lan_ns_def ensure_bridge_def check_vxlan_def
  MustParseAddr_def drop_vxlan_def LinkDelete_def make_spoke_def getPeerVethName_def BRSlaveGrpFwdMask_def
  maxVxLANEncapOverhead_def add_vxlan_def CreateVXLANIF_def ensureVXLANIf_def vxlan_link_def attach_vxlan_def
  spoke_up_def make_macvtap_def RecreateMacvtap_def CreateMacvtap_def ModeFromString_def

lemma open_bare:
  "open_lan_ns ref_net ''lab'' (bare_host\<lparr>RefBad := bad\<rparr>) = (Inr (NS_FD 7),
     bare_host\<lparr>RefBad := bad, RefNS := [''/var/run/netns/lab'' \<mapsto> 7], RefNextNS := 8,
       RefTab := RefTab bare_host @ [((NS_FD 7, ''lo''), down_iface loopback)]\<rparr>)"
  by (simp add: open_lan_ns_def nsPath_plain plain_name_def getNsRunDir_def sequencing NewNS_def create_mounted_ns_def
      bind_new_ns_def getCurrentThreadNetNSPath_def ref_stat_def ref_get_ns_def ref_mount_def nop_def HasPrefix_def
      bare_host_simps)

lemma ensure_bare:
  "fst (Ensure ref_net ''s1M0'' ''s1'' sample_spec ''node1'' ''passthru'' False (bare_host\<lparr>RefBad := []\<rparr>)) = Inr 16"
  by (simp add: open_bare comp_def Let_def sequencing sample_spec_def bare_host_simps ref_calls parse_ff02_14
      ref_group_def ensure_defs)

lemma bare_bad: "bare_host\<lparr>RefBad := []\<rparr> = bare_host"
  by (simp add: bare_host_def)

lemma sample_apart: "names_apart sample_spec ''s1''"
  by (simp add: names_apart_def sample_spec_def getPeerVethName_def)

text \<open>C1: when \<open>Ensure\<close> returns no error, the namespace of the LAN is open and holds its bridge, the port of the spoke is up on that bridge with the forward mask, the spoke is in the host namespace, up, with that port as its peer, and the macvtap asked for sits on the spoke or, for a veth attachment, on the dummy link, up, with the index that is returned.\<close>

theorem Ensure_builds:
  assumes "kernel h links" and "Ensure h name spoke spec hostname mode dummy w = (Inr idx, w')"
    and "names_apart spec spoke" and "name \<noteq> spoke" and "name \<noteq> getPeerVethName spoke"
  shows "\<exists>n ns bridge bidx. NS spec = Some n \<and> (\<exists>w0 w1. GetNS h (nsPath n) w0 = (Inr ns, w1)) \<and>
    BridgeName spec = Some bridge \<and> attached (links w') ns bridge bidx spoke \<and>
    (if dummy then macvtap_at (links w') name dummyIfName MODE_PRIVATE idx
     else \<exists>md. ModeFromString mode = Inr md \<and> macvtap_at (links w') name spoke md idx)"
  using assms by (rule kernel.Ensure_effect)

theorem Ensure_builds_witness:
  "\<exists>w' ns bidx. Ensure ref_net ''s1M0'' ''s1'' sample_spec ''node1'' ''passthru'' False bare_host = (Inr 16, w') \<and>
     attached (ref_links w') ns ''br0'' bidx ''s1'' \<and>
     macvtap_at (ref_links w') ''s1M0'' ''s1'' MODE_PASSTHRU 16"
proof -
  obtain w' where run: "Ensure ref_net ''s1M0'' ''s1'' sample_spec ''node1'' ''passthru'' False bare_host = (Inr 16, w')"
    using ensure_bare unfolding bare_bad by (metis prod.collapse)
  show ?thesis
    using Ensure_builds [where h = ref_net and links = ref_links, OF ref.kernel_axioms run sample_apart] run
    by (auto simp: getPeerVethName_def sample_spec_def ModeFromString_def)
qed

text \<open>C15: on the specification of a LAN the API server holds, \<open>Ensure\<close> panics in two cases and in no other. Once namespace, loopback and underlay device are there and the bridge was found or made, either the VxLAN link that is there has a group whose text is not an address, as that of a link without a group; or the bridge was just made and brought up, is not found by the next lookup, and the check of the VxLAN link returns no error, so that its nil link is used.\<close>

theorem Ensure_panics_iff:
  assumes "stored d (Some obj)"
  shows "panics (fst (Ensure h name spoke (Spec obj) hostname mode dummy w)) \<longleftrightarrow>
    (\<exists>n b v ns w1 w2 dev w3 w4 br w5. NS (Spec obj) = Some n \<and> BridgeName (Spec obj) = Some b \<and> VxLANName (Spec obj) = Some v \<and>
       open_lan_ns h n w = (Inr ns, w1) \<and> lo_up h ns w1 = (Inr (), w2) \<and>
       LinkByName h HostNS (vx_dev_name (Spec obj) hostname) w2 = (Inr dev, w3) \<and> EnterNS h ns w3 = (Inr (), w4) \<and>
       ensure_bridge h ns (Spec obj) (LMTU dev - maxVxLANEncapOverhead) w4 = (Inr br, w5) \<and>
       (group_unreadable h ns v w5 \<or>
        bridge_lost h ns b (LMTU dev - maxVxLANEncapOverhead) w4 w5 \<and>
          (\<exists>x w6. check_vxlan h ns (Spec obj) (LIndex dev) w5 = (Inr x, w6))))"
proof -
  from stored_invariant [OF assms] have usable: "usable (Spec obj)" by (simp add: stored_ok_def stored_usable)
  then obtain n b v where "NS (Spec obj) = Some n" "BridgeName (Spec obj) = Some b" "VxLANName (Spec obj) = Some v"
    by (auto simp: usable_def)
  with Ensure_crashes [OF usable, of n b v h name spoke hostname mode dummy w] show ?thesis by (simp add: crashes_def)
qed

text \<open>A host where the VxLAN link of the sample LAN exists without a group, and lookups show it.\<close>

definition groupless_host :: ref_world where
  "groupless_host = bare_host\<lparr>RefNS := [''/var/run/netns/lab'' \<mapsto> 7], RefTab := RefTab bare_host @
     [((NS_FD 7, ''lo''), down_iface loopback),
      ((NS_FD 7, ''br0''), down_iface (no_attrs\<lparr>LName := ''br0'', LIndex := 3, LKind := Bridge\<rparr>)),
      ((NS_FD 7, ''vx0''), down_iface (no_attrs\<lparr>LName := ''vx0'', LIndex := 4, LKind := Vxlan
        \<lparr>VxlanId = 100, VtepDevIndex = 2, Group = [], Learning = True, Proxy = False, Age = 3600, Port = 4789\<rparr>\<rparr>))]\<rparr>"

definition raw_net :: "ref_world host" where
  "raw_net = ref_net\<lparr>LinkByName := \<lambda>ns n w. case ref_links w (ns, n) of None \<Rightarrow> (Inl LinkNotFound, w) | Some i \<Rightarrow> (Inr (IfLink i), w)\<rparr>"

lemma raw_net_simps:
  "LinkByName raw_net ns n w = (case ref_links w (ns, n) of None \<Rightarrow> (Inl LinkNotFound, w) | Some i \<Rightarrow> (Inr (IfLink i), w))"
  "Stat raw_net = Stat ref_net" "GetNS raw_net = GetNS ref_net" "EnterNS raw_net = EnterNS ref_net"
  "LinkAdd raw_net = LinkAdd ref_net" "LinkSetUp raw_net = LinkSetUp ref_net"
  by (simp_all add: raw_net_def)

lemma groupless_lo:
  "case lo_up raw_net (NS_FD 7) groupless_host of (r, w) \<Rightarrow> r = Inr () \<and>
     (\<forall>n. n \<noteq> ''lo'' \<longrightarrow> ref_links w (NS_FD 7, n) = ref_links groupless_host (NS_FD 7, n)) \<and>
     ref_links w (HostNS, ''eth0'') \<noteq> None"
  by (simp add: lo_up_def sequencing raw_net_simps groupless_host_def bare_host_simps ref_calls)

lemma nil_group_unreadable: "\<exists>e. ParseAddr (IP_String []) = Inl e"
proof -
  have "isl (ParseAddr (IP_String []))" by code_simp
  then show ?thesis by (simp add: isl_def)
qed

theorem Ensure_panics_iff_witness:
  "panics (fst (Ensure raw_net ''s1M0'' ''s1'' (Spec sample_lan) ''node1'' ''passthru'' False groupless_host))"
proof -
  have opened: "open_lan_ns raw_net ''lab'' groupless_host = (Inr (NS_FD 7), groupless_host)"
    by (simp add: open_lan_ns_def nsPath_plain plain_name_def getNsRunDir_def sequencing raw_net_simps ref_stat_def ref_get_ns_def
        groupless_host_def bare_host_simps nop_def HasPrefix_def)
  obtain w dev where lo: "lo_up raw_net (NS_FD 7) groupless_host = (Inr (), w)"
    and same: "\<forall>n. n \<noteq> ''lo'' \<longrightarrow> ref_links w (NS_FD 7, n) = ref_links groupless_host (NS_FD 7, n)"
    and dev: "ref_links w (HostNS, ''eth0'') = Some dev"
    using groupless_lo by (auto split: prod.splits)
  have look: "LinkByName raw_net HostNS (vx_dev_name (Spec sample_lan) ''node1'') w = (Inr (IfLink dev), w)"
    by (simp add: raw_net_simps dev vx_dev_name_def sample_lan_def sample_spec_def)
  have enter: "EnterNS raw_net (NS_FD 7) w = (Inr (), w)" by (simp add: raw_net_simps nop_def)
  obtain br where br: "ensure_bridge raw_net (NS_FD 7) (Spec sample_lan) (LMTU (IfLink dev) - maxVxLANEncapOverhead) w = (Inr br, w)"
    by (simp add: ensure_bridge_def sequencing raw_net_simps same sample_lan_def sample_spec_def)
      (simp add: groupless_host_def bare_host_simps ref_calls)
  have "group_unreadable raw_net (NS_FD 7) ''vx0'' w"
    by (simp add: group_unreadable_def raw_net_simps same) (simp add: groupless_host_def bare_host_simps ref_calls nil_group_unreadable)
  moreover have "NS (Spec sample_lan) = Some ''lab''" "BridgeName (Spec sample_lan) = Some ''br0''" "VxLANName (Spec sample_lan) = Some ''vx0''"
    by (simp_all add: sample_lan_def sample_spec_def)
  ultimately show ?thesis
    unfolding Ensure_panics_iff [OF sample_stored] using opened lo look enter br
    by - (rule exI [of _ "''lab''"], rule exI [of _ "''br0''"], rule exI [of _ "''vx0''"], blast)
qed

text \<open>C25: when the VxLAN link of a stored LAN has been made and the attaching that follows returns an error, whichever call failed, the stretch of \<open>Ensure\<close> they belong to reports success all the same, and the VxLAN link is down.\<close>

theorem attach_failure_hidden:
  assumes "kernel h links" and "stored s (Some obj)" and "lan = Spec obj"
    and "VxLANName lan = Some v" and "VxLANGrp lan = Some g" and "ParseAddr g = Inr grp" and "VNI lan = Some vni"
    and "VxPort lan = Some port"
    and "LinkAdd h HostNS (vxlan_link v dev (sint vni) grp (word_of_int mtu) (sint port)) (Some ns) w = (Inr l, w1)"
    and "do_in h ns (attach_vxlan h ns lan) w1 = (Inl (Error e), w')"
  shows "add_vxlan h ns lan dev mtu True w = (Inr (), w') \<and> (\<exists>i. links w' (ns, v) = Some i \<and> \<not> IfUp i)"
proof -
  from stored_invariant [OF assms(2)] assms(3) have spec: "valid_spec lan" by (simp add: stored_ok_def)
  then obtain b where b: "BridgeName lan = Some b" by (auto simp: valid_spec_def)
  from spec assms(5,6) have multi: "IsMulticast grp" by (auto simp: valid_spec_def)
  have create: "CreateVXLANIF h lan dev ns mtu (sint port) w = (Inr (), w1)"
    using assms(4-7,9) multi
    by (simp add: CreateVXLANIF_def ensureVXLANIf_def MustParseAddr_def branch_def calling_def attempt_def)
  from kernel.add_into [OF assms(1,9)] obtain i where i: "links w1 (ns, v) = Some i" "\<not> IfUp i"
    by (auto simp: vxlan_link_def fresh_iface_def)
  from create assms(8,10) have "add_vxlan h ns lan dev mtu True w = (Inr (), w')"
    by (simp add: add_vxlan_def running_def attempt_def ignoring_error_def)
  with kernel.attach_error [OF assms(1,10,4) b i] show ?thesis by blast
qed

text \<open>On the host with the bad bridge port the whole of \<open>Ensure\<close> returns the index of its macvtap.\<close>

lemma bad_host_Ensure:
  "\<exists>w'. Ensure ref_net ''s1M0'' ''s1'' sample_spec ''node1'' ''passthru'' False bad_host = (Inr 16, w') \<and>
     map_option IfMaster (ref_links w' (NS_FD 7, ''vx0'')) = Some None"
proof -
  have "case Ensure ref_net ''s1M0'' ''s1'' sample_spec ''node1'' ''passthru'' False (bare_host\<lparr>RefBad := [''vx0'']\<rparr>) of
      (r, w') \<Rightarrow> r = Inr 16 \<and> map_option IfMaster (ref_links w' (NS_FD 7, ''vx0'')) = Some None"
    by (simp add: open_bare comp_def Let_def sequencing sample_spec_def bare_host_simps ref_calls parse_ff02_14
        ref_group_def ensure_defs)
  then show ?thesis unfolding bad_host_def by (auto split: prod.splits)
qed

text \<open>The namespace of the sample LAN on that host, with its bridge.\<close>

definition bad_lab :: ref_world where
  "bad_lab = bad_host\<lparr>RefTab := RefTab bare_host @ [((NS_FD 7, ''br0''), down_iface (no_attrs\<lparr>LName := ''br0'', LIndex := 3, LKind := Bridge\<rparr>))]\<rparr>"

theorem attach_failure_hidden_witness:
  "(\<exists>w'. add_vxlan ref_net (NS_FD 7) (Spec sample_lan) 2 1426 True bad_lab = (Inr (), w') \<and>
      (\<exists>i. ref_links w' (NS_FD 7, ''vx0'') = Some i \<and> \<not> IfUp i)) \<and>
   (\<exists>w'. Ensure ref_net ''s1M0'' ''s1'' sample_spec ''node1'' ''passthru'' False bad_host = (Inr 16, w'))"
proof
  let ?l = "vxlan_link ''vx0'' 2 (sint (100 :: int32)) (Addr6 ref_group []) (word_of_int 1426) (sint (4789 :: int32))"
  obtain l w1 where add: "LinkAdd ref_net HostNS ?l (Some (NS_FD 7)) bad_lab = (Inr l, w1)"
    and att: "\<exists>e w'. do_in ref_net (NS_FD 7) (attach_vxlan ref_net (NS_FD 7) (Spec sample_lan)) w1 = (Inl (Error e), w')"
    by (simp add: bad_lab_def bad_host_def bare_host_simps sample_lan_def sample_spec_def attach_vxlan_def sequencing comp_def Let_def
        vxlan_link_def ref_calls)
  from att obtain e w' where failed: "do_in ref_net (NS_FD 7) (attach_vxlan ref_net (NS_FD 7) (Spec sample_lan)) w1 = (Inl (Error e), w')"
    by blast
  from attach_failure_hidden [where h = ref_net and links = ref_links, OF ref.kernel_axioms sample_stored refl _ _ _ _ _ add failed, of "''ff02::14''"]
  show "\<exists>w'. add_vxlan ref_net (NS_FD 7) (Spec sample_lan) 2 1426 True bad_lab = (Inr (), w') \<and>
      (\<exists>i. ref_links w' (NS_FD 7, ''vx0'') = Some i \<and> \<not> IfUp i)"
    by (auto simp: sample_lan_def sample_spec_def parse_ff02_14 ref_group_def)
qed (use bad_host_Ensure in blast)

text \<open>C28: while the attachment of a spoke \<open>s\<close> is there, a spoke called \<open>s\<close> followed by \<open>p\<close>, which a valid LAN may list, cannot be set up in the namespace: its name is that of the port of \<open>s\<close>.\<close>

theorem spoke_names_collide:
  assumes "kernel h links" and "attached (links w) ns bridge bidx s"
    and "VxLANName spec \<noteq> Some s" and "VxLANName spec \<noteq> Some (s @ ''p'')"
  shows "setup_lan_ns h ns spec (s @ ''p'') mtu idx w \<noteq> (Inr y, w')"
  using kernel.spoke_collision [OF assms(1,2,3)] assms(4) by (simp add: getPeerVethName_def)

theorem spoke_names_collide_witness:
  "\<exists>w ns. \<forall>y w'. setup_lan_ns ref_net ns sample_spec ''s1p'' 1426 2 w \<noteq> (Inr y, w')"
proof -
  obtain w where run: "Ensure ref_net ''s1M0'' ''s1'' sample_spec ''node1'' ''passthru'' False bare_host = (Inr 16, w)"
    using ensure_bare unfolding bare_bad by (metis prod.collapse)
  have "\<exists>ns bridge bidx. attached (ref_links w) ns bridge bidx ''s1''"
    using ref.Ensure_effect [OF run sample_apart] by (auto simp: getPeerVethName_def)
  then obtain ns bridge bidx where "attached (ref_links w) ns bridge bidx ''s1''" by blast
  moreover have "VxLANName sample_spec \<noteq> Some ''s1''" "VxLANName sample_spec \<noteq> Some (''s1'' @ ''p'')"
    by (simp_all add: sample_spec_def)
  ultimately have "setup_lan_ns ref_net ns sample_spec (''s1'' @ ''p'') 1426 2 w \<noteq> (Inr y, w')" for y w'
    using spoke_names_collide [where h = ref_net and links = ref_links, OF ref.kernel_axioms] by blast
  then show ?thesis by auto
qed

text \<open>The host with the attachment of a spoke on it.\<close>

definition busy_host :: ref_world where
  "busy_host = bare_host\<lparr>RefNext := 20, RefNS := [''/var/run/netns/lab'' \<mapsto> 7], RefNextNS := 8,
     RefTab := RefTab bare_host @ [
       ((NS_FD 7, ''lo''), down_iface loopback),
       ((NS_FD 7, ''br0''), \<lparr>IfLink = no_attrs\<lparr>LName := ''br0'', LIndex := 10, LKind := Bridge\<rparr>,
          IfUp = True, IfMaster = None, IfMask = 0\<rparr>),
       ((NS_FD 7, ''s1p''), \<lparr>IfLink = no_attrs\<lparr>LName := ''s1p'', LIndex := 13, LKind := Veth ''s1''\<rparr>,
          IfUp = True, IfMaster = Some 10, IfMask = BRSlaveGrpFwdMask\<rparr>),
       ((HostNS, ''s1''), \<lparr>IfLink = no_attrs\<lparr>LName := ''s1'', LIndex := 12, LKind := Veth ''s1p''\<rparr>,
          IfUp = True, IfMaster = None, IfMask = 0\<rparr>)]\<rparr>"

lemma busy_attached: "attached (ref_links busy_host) (NS_FD 7) ''br0'' 10 ''s1''"
  by (simp add: attached_def bridge_at_def veth_port_at_def veth_up_at_def port_of_def getPeerVethName_def
      busy_host_def bare_host_simps ref_links_def relabel_def no_attrs_def)

lemma ensure_busy:
  "fst (Ensure ref_net ''s2M0'' ''s2'' sample_spec ''node1'' ''passthru'' False busy_host) = Inr 24"
  "fst (Ensure ref_net ''s2M0'' ''s2'' sample_spec ''node1'' ''mesh'' False busy_host) = Inl (Error (UnknownMode ''mesh''))"
  by (simp_all add: busy_host_def open_lan_ns_def nsPath_plain plain_name_def getNsRunDir_def ref_stat_def ref_get_ns_def HasPrefix_def
      comp_def Let_def sequencing sample_spec_def bare_host_simps ref_calls parse_ff02_14
      ref_group_def ensure_defs)

text \<open>C3: however \<open>Ensure\<close> for one spoke ends, with a link, an error or a panic, in a namespace that is there already, the attachment of another spoke stays in place: its bridge, its port up on that bridge, and the spoke up in the host namespace.\<close>

theorem attachments_coexist:
  assumes "kernel h links" and "NS lan = Some n"
    and "Stat h (nsPath n) w = (Inr (), w0)" and "GetNS h (nsPath n) w0 = (Inr ns, w1)"
    and "attached (links w) m bridge bidx s" and "m \<noteq> HostNS"
    and "VxLANName lan = Some vx" and "{vx, getPeerVethName t} \<inter> {s, getPeerVethName s, bridge} = {}"
    and "name \<notin> {s, getPeerVethName s}"
  shows "attached (links (snd (Ensure h name t lan hostname mode dummy w))) m bridge bidx s"
  using kernel.Ensure_attached [OF assms] .

theorem attachments_coexist_witness:
  "(\<exists>w'. Ensure ref_net ''s2M0'' ''s2'' sample_spec ''node1'' ''passthru'' False busy_host = (Inr 24, w') \<and>
     attached (ref_links w') (NS_FD 7) ''br0'' 10 ''s1'') \<and>
   (\<exists>w'. Ensure ref_net ''s2M0'' ''s2'' sample_spec ''node1'' ''mesh'' False busy_host =
       (Inl (Error (UnknownMode ''mesh'')), w') \<and> attached (ref_links w') (NS_FD 7) ''br0'' 10 ''s1'')"
proof -
  have path: "nsPath ''lab'' = ''/var/run/netns/lab''"
    by (simp add: nsPath_plain plain_name_def getNsRunDir_def)
  have there: "Stat ref_net (nsPath ''lab'') busy_host = (Inr (), busy_host)"
    "GetNS ref_net (nsPath ''lab'') busy_host = (Inr (NS_FD 7), busy_host)"
    by (simp_all add: path busy_host_def ref_stat_def ref_get_ns_def HasPrefix_def)
  have "attached (ref_links (snd (Ensure ref_net ''s2M0'' ''s2'' sample_spec ''node1'' mode False busy_host)))
      (NS_FD 7) ''br0'' 10 ''s1''" for mode
    using attachments_coexist [where h = ref_net and links = ref_links, OF ref.kernel_axioms _ there busy_attached,
      of sample_spec "''vx0''" "''s2''" "''s2M0''" "''node1''" mode False]
    by (simp add: sample_spec_def getPeerVethName_def)
  with ensure_busy show ?thesis by (metis prod.collapse)
qed

text \<open>C6: two spokes of one LAN end up on one network: when \<open>Ensure\<close> succeeds for one and then for the other, in a namespace that stays where it is mounted, the ports of both are up on one and the same bridge of that namespace, and both spokes are up on the host.\<close>

theorem spokes_share_bridge:
  assumes "kernel h links" and "NS lan = Some n" and "open_lan_ns h n w = (Inr ns, w0)"
    and "Ensure h name s lan hostname mode dummy w = (Inr i1, w1)"
    and "Stat h (nsPath n) w1 = (Inr (), v0)" and "GetNS h (nsPath n) v0 = (Inr ns, v1)"
    and "Ensure h name' t lan hostname mode' dummy' w1 = (Inr i2, w2)"
    and "names_apart lan s" and "names_apart lan t" and "s \<noteq> t" and "getPeerVethName t \<noteq> s"
    and "name \<notin> {s, getPeerVethName s}" and "name' \<notin> {s, getPeerVethName s, t, getPeerVethName t}"
  shows "\<exists>bridge bidx. BridgeName lan = Some bridge \<and>
    attached (links w2) ns bridge bidx s \<and> attached (links w2) ns bridge bidx t"
  using kernel.Ensure_twice [OF assms(1,4,8,12,2,3,5,6,7,9)] assms(10,11,13) by blast

text \<open>The reference host with the namespaces of the LAN and of a pod.\<close>

definition ready_host :: ref_world where
  "ready_host = bare_host\<lparr>RefNS := [''/var/run/netns/lab'' \<mapsto> 7, ''/var/run/netns/pod'' \<mapsto> 3],
     RefTab := RefTab bare_host @ [((NS_FD 7, ''lo''), down_iface loopback), ((NS_FD 3, ''lo''), down_iface loopback)]\<rparr>"

lemma lab_path: "nsPath ''lab'' = ''/var/run/netns/lab''"
  by (simp add: nsPath_plain plain_name_def getNsRunDir_def)

lemma text_ff02_14:
  "ParseAddr (IP_String [255, 2, 0, 0, 0, 0, 0, 0, 0, 0, 0, 0, 0, 0, 0, 20]) =
     Inr (Addr6 [255, 2, 0, 0, 0, 0, 0, 0, 0, 0, 0, 0, 0, 0, 0, 20] [])"
  using print_parse [of "Addr6 [255, 2, 0, 0, 0, 0, 0, 0, 0, 0, 0, 0, 0, 0, 0, 20] []"]
  by (simp add: wf_addr_def)

lemma two_runs:
  "case Ensure ref_net ''s1M0'' ''s1'' sample_spec ''node1'' ''passthru'' False ready_host of (r, w) \<Rightarrow>
     r = Inr 16 \<and> ref_stat ''/var/run/netns/lab'' w = (Inr (), w) \<and> ref_get_ns ''/var/run/netns/lab'' w = (Inr (NS_FD 7), w) \<and>
     fst (Ensure ref_net ''s2M0'' ''s2'' sample_spec ''node1'' ''passthru'' False w) = Inr 20"
  by (simp add: ready_host_def open_lan_ns_def lab_path HasPrefix_def comp_def Let_def
      sequencing sample_spec_def bare_host_simps ref_calls parse_ff02_14 ref_group_def ensure_defs vxlan_differs_def
      MustParseAddr_def text_ff02_14)

theorem spokes_share_bridge_witness:
  "\<exists>w1 w2 bidx. Ensure ref_net ''s1M0'' ''s1'' sample_spec ''node1'' ''passthru'' False ready_host = (Inr 16, w1) \<and>
     Ensure ref_net ''s2M0'' ''s2'' sample_spec ''node1'' ''passthru'' False w1 = (Inr 20, w2) \<and>
     attached (ref_links w2) (NS_FD 7) ''br0'' bidx ''s1'' \<and> attached (ref_links w2) (NS_FD 7) ''br0'' bidx ''s2''"
proof -
  obtain w1 where one: "Ensure ref_net ''s1M0'' ''s1'' sample_spec ''node1'' ''passthru'' False ready_host = (Inr 16, w1)"
    and there: "Stat ref_net (nsPath ''lab'') w1 = (Inr (), w1)" "GetNS ref_net (nsPath ''lab'') w1 = (Inr (NS_FD 7), w1)"
    and ok: "fst (Ensure ref_net ''s2M0'' ''s2'' sample_spec ''node1'' ''passthru'' False w1) = Inr 20"
    using two_runs by (auto simp: lab_path split: prod.splits)
  then obtain w2 where two: "Ensure ref_net ''s2M0'' ''s2'' sample_spec ''node1'' ''passthru'' False w1 = (Inr 20, w2)"
    by (metis prod.collapse)
  have first: "open_lan_ns ref_net ''lab'' ready_host = (Inr (NS_FD 7), ready_host)"
    by (simp add: open_lan_ns_def lab_path ref_stat_def ref_get_ns_def HasPrefix_def ready_host_def sequencing)
  have "NS sample_spec = Some ''lab''" "names_apart sample_spec ''s2''" "BridgeName sample_spec = Some ''br0''"
    by (simp_all add: names_apart_def sample_spec_def getPeerVethName_def)
  then show ?thesis
    using spokes_share_bridge [where h = ref_net and links = ref_links, OF ref.kernel_axioms _ first one there two sample_apart]
      one two by (simp add: getPeerVethName_def)
qed

text \<open>C5: a node joins the LAN: when \<open>Ensure\<close> succeeds on a host that takes VxLAN links as ports of a bridge, and no other VxLAN link there has the LAN's identifier, the VxLAN link that the specification describes, on the underlay of this node, is up on the very bridge that the port of the spoke is up on; provided a VxLAN link that was in order already was up on the bridge.\<close>

theorem Ensure_joins_underlay:
  assumes "joining_kernel h links well busy" and "Ensure h name t lan hostname mode dummy w = (Inr idx, w')"
    and "NS lan = Some n" and "open_lan_ns h n w = (Inr ns, w1)" and "well w1"
    and "BridgeName lan = Some b" and "VxLANName lan = Some v" and "VNI lan = Some vni" and "names_apart lan t"
    and "name \<notin> {t, getPeerVethName t, dummyIfName}"
    and "links w1 (HostNS, vx_dev_name lan hostname) = Some d"
    and "underlay_ready (links w1) ns lan b v vni (LIndex (IfLink d)) t name"
  shows "\<exists>bidx. attached (links w') ns b bidx t \<and> vxlan_port_at (links w') ns lan (LIndex (IfLink d)) v bidx"
  using joining_kernel.Ensure_vxlan [OF assms(1-11) refl assms(12)] .

lemma ready_opens: "open_lan_ns ref_net ''lab'' ready_host = (Inr (NS_FD 7), ready_host)"
  by (simp add: open_lan_ns_def lab_path ref_stat_def ref_get_ns_def HasPrefix_def ready_host_def sequencing)

theorem Ensure_joins_underlay_witness:
  "\<exists>w' bidx. Ensure ref_net ''s1M0'' ''s1'' sample_spec ''node1'' ''passthru'' False ready_host = (Inr 16, w') \<and>
     attached (ref_links w') (NS_FD 7) ''br0'' bidx ''s1'' \<and>
     vxlan_port_at (ref_links w') (NS_FD 7) sample_spec 2 ''vx0'' bidx"
proof -
  obtain w' where run: "Ensure ref_net ''s1M0'' ''s1'' sample_spec ''node1'' ''passthru'' False ready_host = (Inr 16, w')"
    using two_runs by (auto split: prod.splits)
  let ?d = "down_iface (no_attrs\<lparr>LName := ''eth0'', LIndex := 2, LMTU := 1500, LKind := OtherKind ''device''\<rparr>)"
  have "ref_links ready_host (HostNS, ''eth0'') = Some ?d"
    by (simp add: ready_host_def bare_host_simps ref_links_def down_iface_def)
  moreover have "underlay_ready (ref_links ready_host) (NS_FD 7) sample_spec ''br0'' ''vx0'' 100 2 ''s1'' ''s1M0''"
    by (auto simp: underlay_ready_def vni_free_def ready_host_def bare_host_simps ref_links_def relabel_def down_iface_def
        loopback_def no_attrs_def split: if_splits)
  moreover have "LIndex (IfLink ?d) = 2" "vx_dev_name sample_spec ''node1'' = ''eth0''"
    by (simp_all add: down_iface_def vx_dev_name_def sample_spec_def)
  moreover have "ref_well ready_host" "NS sample_spec = Some ''lab''" "BridgeName sample_spec = Some ''br0''"
    "VxLANName sample_spec = Some ''vx0''" "VNI sample_spec = Some 100"
    by (simp_all add: ref_well_def ready_host_def bare_host_simps sample_spec_def)
  ultimately show ?thesis
    using Ensure_joins_underlay [where h = ref_net and links = ref_links, OF ref_joining.joining_kernel_axioms run _ ready_opens, of "''br0''" "''vx0''" 100 ?d]
      sample_apart run by (auto simp: getPeerVethName_def dummyIfName_def)
qed

text \<open>C26: when the kernel refuses the VxLAN link because one of its identifier exists, in another LAN's namespace, the stretch of \<open>Ensure\<close> that adds it reports success and leaves no VxLAN link in the namespace.\<close>

theorem vni_conflict_hidden:
  assumes "kernel h links" and "stored s (Some obj)" and "lan = Spec obj"
    and "VxLANName lan = Some v" and "VxLANGrp lan = Some g" and "ParseAddr g = Inr grp" and "VNI lan = Some vni"
    and "VxPort lan = Some port" and "links w (ns, v) = None" and "is_EEXIST e"
    and "LinkAdd h HostNS (vxlan_link v dev (sint vni) grp (word_of_int mtu) (sint port)) (Some ns) w = (Inl e, w1)"
  shows "\<exists>w'. add_vxlan h ns lan dev mtu True w = (Inr (), w') \<and> links w' (ns, v) = None"
proof -
  from stored_invariant [OF assms(2)] assms(3) have spec: "valid_spec lan" by (simp add: stored_ok_def)
  have usable: "usable lan" using stored_usable [OF spec] assms(8) by simp
  from spec assms(5,6) have multi: "IsMulticast grp" by (auto simp: valid_spec_def)
  have create: "CreateVXLANIF h lan dev ns mtu (sint port) w = (Inr (), w1)"
    using assms(4-7,10,11) multi
    by (simp add: CreateVXLANIF_def ensureVXLANIf_def MustParseAddr_def branch_def calling_def attempt_def)
  have L1: "links w1 (ns, v) = None" using kernel.add_err [OF assms(1,11)] assms(9) by simp
  obtain r w' where att: "do_in h ns (attach_vxlan h ns lan) w1 = (r, w')" by fastforce
  have "\<not> panics r"
    using attach_vxlan_no_crash [OF usable, of h ns] att crashes_do_in [of h ns "attach_vxlan h ns lan" w1]
    by (auto simp: crashes_def)
  moreover have "links w' (ns, v) = None"
    using kernel.attach_missing [OF assms(1) att assms(4) L1] L1 by simp
  ultimately show ?thesis
    using create att assms(8) by (cases r) (auto simp: add_vxlan_def running_def attempt_def ignoring_error_def split: fault.splits)
qed

text \<open>The host with the VxLAN link of another LAN, of the same identifier.\<close>

definition clash_host :: ref_world where
  "clash_host = ready_host\<lparr>RefTab := RefTab ready_host @
     [((NS_FD 8, ''vx9''), down_iface (vxlan_link ''vx9'' 2 100 (Addr6 ref_group []) 1426 4789))]\<rparr>"

theorem vni_conflict_hidden_witness:
  "\<exists>w'. add_vxlan ref_net (NS_FD 7) (Spec sample_lan) 2 1426 True clash_host = (Inr (), w') \<and>
     ref_links w' (NS_FD 7, ''vx0'') = None"
proof -
  have none: "ref_links clash_host (NS_FD 7, ''vx0'') = None"
    by (simp add: clash_host_def ready_host_def bare_host_simps ref_links_def)
  have "ref_vni_used clash_host 100"
    by (simp add: ref_vni_used_def clash_host_def ready_host_def bare_host_simps ref_links_def relabel_def down_iface_def
        vxlan_link_def no_attrs_def)
  then have refused: "LinkAdd ref_net HostNS (vxlan_link ''vx0'' 2 (sint (100 :: int32)) (Addr6 ref_group []) (word_of_int 1426)
      (sint (4789 :: int32))) (Some (NS_FD 7)) clash_host = (Inl EEXIST, clash_host)"
    using none by (simp add: ref_add_def vxlan_link_def no_attrs_def Let_def)
  show ?thesis
    by (rule vni_conflict_hidden [where h = ref_net and links = ref_links, OF ref.kernel_axioms sample_stored refl _ _ _ _ _ none _ refused, of "''ff02::14''"])
      (simp_all add: sample_lan_def sample_spec_def parse_ff02_14 ref_group_def)
qed

text \<open>C9: on a host that refuses nothing but unacceptable links and names that are taken, \<open>Ensure\<close> returns a result for a stored LAN once its namespace is open, when the underlay is there, the names fit and are free or those of links of the right kind, and there is room for the spoke: its name is free, or its old pair is in place and is made anew. The attachment is then in place.\<close>

theorem Ensure_succeeds:
  assumes "willing_kernel h links well busy" and "stored d (Some obj)" and "lan = Spec obj" and "NS lan = Some n"
    and "open_lan_ns h n w = (Inr ns, w1)" and "well w1" and "names_fit lan t name"
    and "site_ready (view (links w1)) ns lan (vx_dev_name lan hostname) t name" and "ModeFromString mode = Inr md"
    and "dummy \<longrightarrow> (\<forall>l. view (links w1) (HostNS, dummyIfName) = Some l \<longrightarrow> \<not> busy w1 HostNS (LIndex l) MODE_PRIVATE)"
  shows "\<exists>idx w' m bridge bidx. Ensure h name t lan hostname mode dummy w = (Inr idx, w') \<and>
    BridgeName lan = Some bridge \<and> attached (links w') m bridge bidx t"
proof -
  note kernel = willing_kernel.axioms(1) [OF assms(1)]
  from stored_invariant [OF assms(2)] assms(3) obtain port where spec: "valid_spec lan" "VxPort lan = Some port"
    by (auto simp: stored_ok_def)
  obtain idx w' where run: "Ensure h name t lan hostname mode dummy w = (Inr idx, w')"
    using willing_kernel.Ensure_gives [OF assms(1,4-6) spec assms(7-9)] assms(10) by blast
  from assms(7) have "names_apart lan t" "name \<noteq> t" "name \<noteq> getPeerVethName t" by (simp_all add: names_fit_def)
  from kernel.Ensure_effect [OF kernel run this] run show ?thesis by blast
qed

lemma busy_ready: "site_ready (view (ref_links busy_host)) (NS_FD 7) sample_spec ''eth0'' ''s1'' ''s1M0''"
proof -
  have "other_end (view (ref_links busy_host)) ''s1p'' ''s1'' (HostNS, ''s1'')"
    by (auto simp: other_end_def busy_host_def bare_host_simps ref_links_def relabel_def no_attrs_def down_iface_def
        loopback_def split: if_splits)
  then show ?thesis
    by (auto simp: site_ready_def spoke_room_def removable_def apart_def busy_host_def bare_host_simps ref_links_def
        relabel_def no_attrs_def down_iface_def loopback_def sample_spec_def getPeerVethName_def dummyIfName_def
        split: if_splits)
qed

lemma busy_opens: "open_lan_ns ref_net ''lab'' busy_host = (Inr (NS_FD 7), busy_host)"
  by (simp add: open_lan_ns_def nsPath_plain plain_name_def getNsRunDir_def ref_stat_def ref_get_ns_def HasPrefix_def
      busy_host_def sequencing)

lemma busy_fits: "names_fit sample_spec ''s1'' ''s1M0''"
  using sample_apart by (auto simp: names_fit_def name_fits_def sample_spec_def getPeerVethName_def dummyIfName_def)

theorem Ensure_succeeds_witness:
  "\<exists>idx w' m bidx. Ensure ref_net ''s1M0'' ''s1'' sample_spec ''node1'' ''passthru'' False busy_host = (Inr idx, w') \<and>
    attached (ref_links w') m ''br0'' bidx ''s1''"
proof -
  have "names_fit sample_spec ''s1'' ''s1M0''" by (rule busy_fits)
  moreover have "vx_dev_name sample_spec ''node1'' = ''eth0''" by (simp add: vx_dev_name_def sample_spec_def)
  ultimately show ?thesis
    using Ensure_succeeds [where h = ref_net and links = ref_links and lan = sample_spec and n = "''lab''",
        OF ref_willing.willing_kernel_axioms sample_stored _ _ busy_opens _ _ _, of "''s1''" "''s1M0''" "''node1''" "''passthru''" MODE_PASSTHRU False]
      busy_ready
    by (simp add: sample_spec_def ref_well_def busy_host_def bare_host_simps ModeFromString_def)
qed

text \<open>C16: when the VxLAN link of the LAN is there as \<open>CreateVXLANIF\<close> made it, on the same device, the comparison in \<open>Ensure\<close> finds it in order, except for a group with a zone or an IPv4 group written inside IPv6: such a link is found to differ, so that \<open>needToAdd\<close> is set on every call.\<close>

theorem vxlan_rebuilt_iff:
  assumes "kernel h links" and "VxLANGrp lan = Some g" and "ParseAddr g = Inr grp"
    and "VNI lan = Some vni" and "VxPort lan = Some port"
    and "VxLANName lan = Some vxname" and "links w (ns, vxname) = Some i"
    and "LKind (IfLink i) = LKind (vxlan_link vxname dev (sint vni) grp mtu (sint port))"
    and "LinkByName h ns vxname w = (Inr l, w1)"
  shows "check_vxlan h ns lan dev w = (Inr (\<not> plain_addr grp), w1)"
  using kernel.check_vxlan_again [OF assms] .

lemma parse_ff02_14_eth0:
  "ParseAddr ''ff02::14%eth0'' = Inr (Addr6 [255, 2, 0, 0, 0, 0, 0, 0, 0, 0, 0, 0, 0, 0, 0, 20] ''eth0'')"
proof -
  have "replicate 12 (0 :: byte) = [0, 0, 0, 0, 0, 0, 0, 0, 0, 0, 0, 0]"
    by (simp add: eval_nat_numeral)
  then show ?thesis
    by (simp add: ParseAddr_def parse_ipv6_def ipv6_loop.simps hex_digit_def ipv6_finish_def
        HasPrefix_def dec_digit_def)
qed

definition vxlan_host :: ref_world where
  "vxlan_host = bare_host\<lparr>RefTab := [((NS_FD 7, ''vx0''),
     down_iface (vxlan_link ''vx0'' 2 100 (Addr6 ref_group []) 1426 4789))]\<rparr>"

theorem vxlan_rebuilt_iff_witness:
  "check_vxlan ref_net (NS_FD 7) sample_spec 2 vxlan_host = (Inr False, vxlan_host) \<and>
   check_vxlan ref_net (NS_FD 7) (sample_spec\<lparr>VxLANGrp := Some ''ff02::14%eth0''\<rparr>) 2 vxlan_host = (Inr True, vxlan_host)"
proof -
  have i: "ref_links vxlan_host (NS_FD 7, ''vx0'') = Some (down_iface (vxlan_link ''vx0'' 2 100 (Addr6 ref_group []) 1426 4789))"
    by (simp add: vxlan_host_def ref_links_def down_iface_def vxlan_link_def)
  have l: "LinkByName ref_net (NS_FD 7) ''vx0'' vxlan_host =
      (Inr (vxlan_link ''vx0'' 2 100 (Addr6 ref_group []) 1426 4789), vxlan_host)"
    by (simp add: ref_by_name_def i) (simp add: down_iface_def vxlan_link_def ref_group_def)
  have zoned: "ParseAddr ''ff02::14%eth0'' = Inr (Addr6 ref_group ''eth0'')"
    by (simp add: parse_ff02_14_eth0 ref_group_def)
  have same: "LKind (vxlan_link ''vx0'' 2 100 (Addr6 ref_group z) 1426 4789) =
      LKind (IfLink (down_iface (vxlan_link ''vx0'' 2 100 (Addr6 ref_group []) 1426 4789)))" for z
    by (simp add: down_iface_def vxlan_link_def)
  note at = vxlan_rebuilt_iff [where h = ref_net and links = ref_links, OF ref.kernel_axioms _ _ _ _ _ i _ l]
  show ?thesis
    using at [of sample_spec "''ff02::14''" "Addr6 ref_group []" 100 4789 2 1426]
      at [of "sample_spec\<lparr>VxLANGrp := Some ''ff02::14%eth0''\<rparr>" "''ff02::14%eth0''" "Addr6 ref_group ''eth0''" 100 4789 2 1426]
      same zoned
    by (simp add: sample_spec_def parse_ff02_14 plain_addr_def ref_group_def)
qed

lemma Allocate_effect:
  assumes "kernel h links" and "names_apart (Lan p) (PluginName p)" and "PluginMode p = DefaultMode"
    and "Allocate h p [map ID (generateMacvtapDevices p)] w = (Inr answer, w')"
  shows "\<exists>ns bridge bidx idx. ns \<noteq> HostNS \<and> BridgeName (Lan p) = Some bridge \<and>
    attached (links w') ns bridge bidx (PluginName p) \<and>
    macvtap_at (links w') (device_id (PluginName p) (dummyMACVTAP p))
      (if dummyMACVTAP p then dummyIfName else PluginName p)
      (if dummyMACVTAP p then MODE_PRIVATE else MODE_PASSTHRU) idx \<and>
    answer = [[\<lparr>HostPath = ''/dev/tap'' @ show_int idx, ContainerPath = ''/dev/tap'' @ show_int idx,
                Permissions = ''rw''\<rparr>]]"
proof -
  let ?id = "device_id (PluginName p) (dummyMACVTAP p)"
  have ids: "map ID (generateMacvtapDevices p) = [?id]"
    by (simp add: generateMacvtapDevices_eq device_id_def)
  from assms(4) obtain idx where
    run: "Ensure h ?id (PluginName p) (Lan p) (PluginHost p) DefaultMode (dummyMACVTAP p) w = (Inr idx, w')"
    and answer: "answer = [[\<lparr>HostPath = ''/dev/tap'' @ show_int idx, ContainerPath = ''/dev/tap'' @ show_int idx,
                Permissions = ''rw''\<rparr>]]"
    by (auto simp: ids effect Let_def tapPath_def assms(3))
  from kernel.Ensure_effect [OF assms(1) run assms(2) device_id_apart] kernel.get_ns [OF assms(1)]
  obtain ns bridge bidx where "ns \<noteq> HostNS" "BridgeName (Lan p) = Some bridge" "attached (links w') ns bridge bidx (PluginName p)"
    "macvtap_at (links w') ?id (if dummyMACVTAP p then dummyIfName else PluginName p)
      (if dummyMACVTAP p then MODE_PRIVATE else MODE_PASSTHRU) idx"
    by (fastforce simp: ModeFromString_def DefaultMode_def split: if_splits)
  with answer show ?thesis by blast
qed

text \<open>C2: an allocation of the device a plugin advertises answers with one device file, \<open>/dev/tap\<close> and the index of a macvtap that is up under the device's name, on the spoke in passthru mode or on the dummy link in private mode, with the attachment of the spoke in place.\<close>

theorem Allocate_provides:
  assumes "kernel h links" and "names_apart (Lan p) (PluginName p)" and "PluginMode p = DefaultMode"
    and "Allocate h p [map ID (generateMacvtapDevices p)] w = (Inr answer, w')"
  shows "\<exists>ns bridge bidx idx. attached (links w') ns bridge bidx (PluginName p) \<and>
    macvtap_at (links w') (device_id (PluginName p) (dummyMACVTAP p))
      (if dummyMACVTAP p then dummyIfName else PluginName p)
      (if dummyMACVTAP p then MODE_PRIVATE else MODE_PASSTHRU) idx \<and>
    answer = [[\<lparr>HostPath = ''/dev/tap'' @ show_int idx, ContainerPath = ''/dev/tap'' @ show_int idx,
                Permissions = ''rw''\<rparr>]]"
  using Allocate_effect [OF assms] by blast

definition sample_plugin :: macvtapDevicePlugin where
  "sample_plugin = \<lparr>PluginName = ''s1'', PluginHost = ''node1'', Lan = sample_spec, Capacity = 0,
     PluginMode = DefaultMode, stopped = False, dummyMACVTAP = False\<rparr>"

theorem Allocate_provides_witness:
  "\<exists>w' ns bridge bidx idx. attached (ref_links w') ns bridge bidx ''s1'' \<and>
    macvtap_at (ref_links w') ''s1M0'' ''s1'' MODE_PASSTHRU idx \<and>
    Allocate ref_net sample_plugin [[''s1M0'']] bare_host =
      (Inr [[\<lparr>HostPath = ''/dev/tap'' @ show_int idx, ContainerPath = ''/dev/tap'' @ show_int idx,
              Permissions = ''rw''\<rparr>]], w')"
proof -
  have ids: "map ID (generateMacvtapDevices sample_plugin) = [''s1M0'']"
    by (simp add: generateMacvtapDevices_eq sample_plugin_def)
  obtain w' where "Ensure ref_net ''s1M0'' ''s1'' sample_spec ''node1'' DefaultMode False bare_host = (Inr 16, w')"
    using ensure_bare unfolding bare_bad DefaultMode_def by (metis prod.collapse)
  then obtain answer where run: "Allocate ref_net sample_plugin [[''s1M0'']] bare_host = (Inr answer, w')"
    by (simp add: sample_plugin_def running_def Let_def)
  have "names_apart (Lan sample_plugin) (PluginName sample_plugin)"
    using sample_apart by (simp add: sample_plugin_def)
  from Allocate_provides [where h = ref_net and links = ref_links, OF ref.kernel_axioms this _ run [folded ids]] run
  show ?thesis by (simp add: sample_plugin_def device_id_def) blast
qed

text \<open>C10: from the stored resource to the container: when the lister's table holds a stored LAN under the resource of one of its spokes, which is the one its attachment definition names, the plugin made for that resource answers an allocation of the device it advertises, on a host that refuses nothing but unacceptable links and names that are taken, has the underlay and room for the spoke. The answer is one device file, that of a macvtap that is up under the device's name, and the attachment of the spoke is in place.\<close>

theorem stored_LAN_allocates:
  assumes "willing_kernel h links well busy" and "stored d (Some obj)" and "lan = Spec obj"
    and "s \<in> set (elems (SpokeList lan))" and "readable_spoke s k"
    and "plugin_lookup ml (GetDPResouceName s k) = Some lan"
    and "NS lan = Some n" and "open_lan_ns h n w = (Inr ns, w1)" and "well w1" and "names_fit lan s (device_id s k)"
    and "site_ready (view (links w1)) ns lan (vx_dev_name lan hostname) s (device_id s k)"
    and "k \<longrightarrow> (\<forall>l. view (links w1) (HostNS, dummyIfName) = Some l \<longrightarrow> \<not> busy w1 HostNS (LIndex l) MODE_PRIVATE)"
  shows "\<exists>nad \<in> set (GetNADs lan ns'). nad_resource nad = Some (GetResourceNamespace @ ''/'' @ GetDPResouceName s k) \<and>
    (\<exists>p answer w' m bridge bidx idx. NewPlugin (Inr hostname) ml (GetDPResouceName s k) = Inr (Some p) \<and>
      Allocate h p [map ID (generateMacvtapDevices p)] w = (Inr answer, w') \<and>
      answer = [[\<lparr>HostPath = ''/dev/tap'' @ show_int idx, ContainerPath = ''/dev/tap'' @ show_int idx,
                  Permissions = ''rw''\<rparr>]] \<and>
      macvtap_at (links w') (device_id s k) (if k then dummyIfName else s) (if k then MODE_PRIVATE else MODE_PASSTHRU) idx \<and>
      BridgeName lan = Some bridge \<and> attached (links w') m bridge bidx s)"
proof (rule bexI, rule conjI)
  show "genNAD (GetDPResouceName s k) ns' \<in> set (GetNADs lan ns')" unfolding GetNADs_in_iff using assms(4) by blast
  show "nad_resource (genNAD (GetDPResouceName s k) ns') = Some (GetResourceNamespace @ ''/'' @ GetDPResouceName s k)"
    by (simp add: GetResourceNamespace_def)
  let ?p = "\<lparr>PluginName = s, PluginHost = hostname, Lan = lan, Capacity = 0, PluginMode = DefaultMode,
    stopped = False, dummyMACVTAP = k\<rparr>"
  have plugin: "NewPlugin (Inr hostname) ml (GetDPResouceName s k) = Inr (Some ?p)"
    using assms(6) NewMacvtapDevicePlugin_resource [OF assms(5)] by (simp add: NewPlugin_def plugin_lookup_def)
  from stored_invariant [OF assms(2)] assms(3) obtain port where spec: "valid_spec lan" "VxPort lan = Some port"
    by (auto simp: stored_ok_def)
  have mode: "ModeFromString DefaultMode = Inr MODE_PASSTHRU" by (simp add: ModeFromString_def DefaultMode_def)
  obtain idx w' where run: "Ensure h (device_id s k) s lan hostname DefaultMode k w = (Inr idx, w')"
    using willing_kernel.Ensure_gives [OF assms(1,7-9) spec assms(10,11) mode] assms(12) by blast
  have ids: "map ID (generateMacvtapDevices ?p) = [device_id s k]"
    by (simp add: generateMacvtapDevices_eq device_id_def)
  from run obtain answer where alloc: "Allocate h ?p [map ID (generateMacvtapDevices ?p)] w = (Inr answer, w')"
    by (simp add: ids running_def Let_def)
  have "names_apart (Lan ?p) (PluginName ?p)" using assms(10) by (simp add: names_fit_def)
  from Allocate_effect [OF willing_kernel.axioms(1) [OF assms(1)] this _ alloc] plugin alloc
  show "\<exists>p answer w' m bridge bidx idx. NewPlugin (Inr hostname) ml (GetDPResouceName s k) = Inr (Some p) \<and>
      Allocate h p [map ID (generateMacvtapDevices p)] w = (Inr answer, w') \<and>
      answer = [[\<lparr>HostPath = ''/dev/tap'' @ show_int idx, ContainerPath = ''/dev/tap'' @ show_int idx,
                  Permissions = ''rw''\<rparr>]] \<and>
      macvtap_at (links w') (device_id s k) (if k then dummyIfName else s) (if k then MODE_PRIVATE else MODE_PASSTHRU) idx \<and>
      BridgeName lan = Some bridge \<and> attached (links w') m bridge bidx s"
    by (fastforce simp del: Allocate.simps)
qed

theorem stored_LAN_allocates_witness:
  "\<exists>p idx w' m bidx. NewPlugin (Inr ''node1'') (add_lan sample_spec NewMacvtapLister) ''k8slan-mac-s1'' = Inr (Some p) \<and>
    Allocate ref_net p [map ID (generateMacvtapDevices p)] busy_host =
      (Inr [[\<lparr>HostPath = ''/dev/tap'' @ show_int idx, ContainerPath = ''/dev/tap'' @ show_int idx, Permissions = ''rw''\<rparr>]], w') \<and>
    attached (ref_links w') m ''br0'' bidx ''s1''"
proof -
  have spoke: "''s1'' \<in> set (elems (SpokeList sample_spec))" by (simp add: sample_spec_def)
  have readable: "readable_spoke ''s1'' False" by (auto simp: readable_spoke_def naming_defs dest!: sublist_length_le)
  have name: "GetDPResouceName ''s1'' False = ''k8slan-mac-s1''" by (simp add: naming_defs)
  have id: "device_id ''s1'' False = ''s1M0''" by (simp add: device_id_def)
  have "''k8slan-mac-s1'' \<in> set (lan_resources sample_spec)" by (simp add: sample_spec_def naming_defs)
  then have table: "plugin_lookup (add_lan sample_spec NewMacvtapLister) (GetDPResouceName ''s1'' False) = Some sample_spec"
    unfolding name registry.lookup_add by simp
  have ns: "NS sample_spec = Some ''lab''" and bridge: "BridgeName sample_spec = Some ''br0''" by (simp_all add: sample_spec_def)
  have well: "ref_well busy_host" by (simp add: ref_well_def busy_host_def bare_host_simps)
  have spec: "sample_spec = Spec sample_lan" by simp
  have "vx_dev_name sample_spec ''node1'' = ''eth0''" by (simp add: vx_dev_name_def sample_spec_def)
  with busy_ready have ready: "site_ready (view (ref_links busy_host)) (NS_FD 7) sample_spec
      (vx_dev_name sample_spec ''node1'') ''s1'' (device_id ''s1'' False)" by (simp add: id)
  from stored_LAN_allocates [where h = ref_net and links = ref_links and ns' = "[]", OF ref_willing.willing_kernel_axioms sample_stored spec
      spoke readable table ns busy_opens well busy_fits [folded id] ready]
  obtain p answer w' m b bidx idx where "NewPlugin (Inr ''node1'') (add_lan sample_spec NewMacvtapLister) ''k8slan-mac-s1'' = Inr (Some p)"
      "Allocate ref_net p [map ID (generateMacvtapDevices p)] busy_host = (Inr answer, w')"
      "answer = [[\<lparr>HostPath = ''/dev/tap'' @ show_int idx, ContainerPath = ''/dev/tap'' @ show_int idx, Permissions = ''rw''\<rparr>]]"
      "BridgeName sample_spec = Some b" "attached (ref_links w') m b bidx ''s1''"
    unfolding name by blast
  with bridge show ?thesis by (metis option.inject)
qed

text \<open>C39: the namespace name of a valid LAN can lead to any file of the host: for every absolute path there is a name that \<open>Validate\<close> accepts in any valid specification and that is opened at that path. \<open>NewNS\<close> then creates its mount point at that path, and when the LAN goes what is mounted there is unmounted and the file is removed.\<close>

theorem nsPath_escapes:
  assumes "valid_spec spec" and "cs \<noteq> []" and "\<forall>c \<in> set cs. plain_name c"
  shows "\<exists>name. valid_spec (spec\<lparr>NS := Some name\<rparr>) \<and> nsPath name = absolute_path cs \<and>
    (\<forall>w w1 w2. MkdirAll h getNsRunDir w = (Inr (), w1) \<and> Mount h MakeShared [] getNsRunDir w1 = (Inr (), w2) \<longrightarrow>
       NewNS h name w = create_mounted_ns h (absolute_path cs) w2) \<and>
    (\<forall>w w1. Unmount h (absolute_path cs) UmountDetach w = (Inr (), w1) \<longrightarrow>
       Remove h name w = snd (RemoveFile h (absolute_path cs) w1))"
proof -
  have "leading_space (''../../..'' @ absolute_path cs) = 0"
    by (simp add: leading_space_def is_space_rune_def space_rune_def)
  with nsPath_upwards [OF assms(2,3)] not_blankI obtain name where
    path: "nsPath name = absolute_path cs" and name: "\<not> blank name" by blast
  with assms(1) have "valid_spec (spec\<lparr>NS := Some name\<rparr>)" by (simp add: valid_spec_def)
  moreover have "NewNS h name w = create_mounted_ns h (absolute_path cs) w2"
    if "MkdirAll h getNsRunDir w = (Inr (), w1)" "Mount h MakeShared [] getNsRunDir w1 = (Inr (), w2)" for w w1 w2
    using that by (simp add: NewNS_def path calling_def attempt_def branch_def)
  moreover have "Remove h name w = snd (RemoveFile h (absolute_path cs) w1)"
    if "Unmount h (absolute_path cs) UmountDetach w = (Inr (), w1)" for w w1
    using that by (simp add: Remove_def DeleteNamed_def path calling_def attempt_def split: prod.split sum.split)
  ultimately show ?thesis using path by blast
qed

theorem nsPath_escapes_witness:
  "\<exists>name. valid_spec (sample_spec\<lparr>NS := Some name\<rparr>) \<and> nsPath name = ''/etc/passwd''"
proof -
  have "absolute_path [''etc'', ''passwd''] = ''/etc/passwd''" by (simp add: absolute_path_def)
  with nsPath_escapes [where h = ref_net, OF sample_valid, of "[''etc'', ''passwd'']"] show ?thesis by (auto simp: plain_name_def)
qed

section \<open>The CNI plugin\<close>


text \<open>A host with a pod and the spoke \<open>s1\<close>, and a request to move it there with an IPAM plugin.\<close>

definition pod_host :: ref_world where
  "pod_host = bare_host\<lparr>RefNS := [''/var/run/netns/pod'' \<mapsto> 3],
     RefTab := [((HostNS, ''s1''), down_iface (no_attrs\<lparr>LName := ''s1'', LIndex := 12, LKind := Veth ''s1p''\<rparr>))]\<rparr>"

definition pod_args :: "string \<Rightarrow> CmdArgs" where
  "pod_args ipam = \<lparr>Netns = ''/var/run/netns/pod'', IfName = ''net1'', Args = [], StdinData = ''s1/'' @ ipam\<rparr>"

lemma pod_conf:
  "ref_conf ''s1/'' = Inr \<lparr>CNIVersion = ''1.0.0'', IPAMType = [], ConfDNS = no_dns, VethName = ''s1'', EnableDad = False\<rparr>"
  "ref_conf ''s1/static'' = Inr \<lparr>CNIVersion = ''1.0.0'', IPAMType = ''static'', ConfDNS = no_dns, VethName = ''s1'', EnableDad = False\<rparr>"
  "ref_conf ''s1/host-local'' = Inr \<lparr>CNIVersion = ''1.0.0'', IPAMType = ''host-local'', ConfDNS = no_dns, VethName = ''s1'', EnableDad = False\<rparr>"
  by (simp_all add: ref_conf_def)

lemmas cni_calls = ref_by_name_def ref_get_ns_def ref_set_ns_def ref_set_name_def nop_def on_link_def put_link_def drop_link_def prune_def ref_index_def
  down_iface_def ref_links_def relabel_def no_attrs_def ref_exec_add_def ref_exec_del_def no_dns_def ref_configure_def

lemmas cni_defs = cmdAdd_def parseConfig_def rename_in_pod_def finish_add_def apply_ipam_def configure_pod_def
  set_sysctl_def release_on_failure_def dnsConfSet_def

lemma add_without_address:
  "fst (cmdAdd ref_host (pod_args ''host-local'') pod_host) = Inl (Error (OtherErr ''IPAM plugin returned missing IP config''))"
  by (simp add: pod_host_def pod_args_def pod_conf ref_host_simps sequencing bare_host_simps HasPrefix_def Let_def comp_def
      cni_calls cni_defs)

lemma add_with_address: "fst (cmdAdd ref_host (pod_args ''static'') pod_host) = Inr ()"
  by (simp add: pod_host_def pod_args_def pod_conf ref_host_simps sequencing bare_host_simps HasPrefix_def Let_def comp_def
      cni_calls cni_defs)

lemma ref_prints: "PrintResult ref_host res v w1 \<noteq> (Inl e, w')"
  by (simp add: ref_host_simps nop_def)

lemma pod_leases: "RefLeases pod_host = {#}"
  by (simp add: pod_host_def bare_host_def)


text \<open>C21: DEL releases nothing: the allocation that a successful ADD made with an IPAM plugin is still there after the DEL of the same attachment.\<close>

theorem cmdDel_leaks:
  assumes "ipam_leases H leases" and "cmdAdd H args w = (Inr (), w1)" and "cmdDel H args w1 = (r, w2)"
    and "parseConfig H (StdinData args) = Inr conf" and "IPAMType conf \<noteq> ''''"
  shows "r = Inr () \<and> (IPAMType conf, StdinData args) \<in># leases w2"
proof -
  from ipam_leases.cmdAdd_leases [OF assms(1,2)] assms(4) have "leases w1 = leases w + leased conf args"
    by auto
  with assms(3-5) show ?thesis by (auto simp: cmdDel_def leased_def)
qed

theorem cmdDel_leaks_witness:
  "\<exists>w1 w2. cmdAdd ref_host (pod_args ''static'') pod_host = (Inr (), w1) \<and>
     cmdDel ref_host (pod_args ''static'') w1 = (Inr (), w2) \<and> (''static'', ''s1/static'') \<in># RefLeases w2"
proof -
  obtain w1 where add: "cmdAdd ref_host (pod_args ''static'') pod_host = (Inr (), w1)"
    using add_with_address by (metis prod.collapse)
  obtain r w2 where del: "cmdDel ref_host (pod_args ''static'') w1 = (r, w2)" by fastforce
  have conf: "parseConfig ref_host (StdinData (pod_args ''static'')) =
      Inr \<lparr>CNIVersion = ''1.0.0'', IPAMType = ''static'', ConfDNS = no_dns, VethName = ''s1'', EnableDad = False\<rparr>"
    by (simp add: parseConfig_def ref_host_simps pod_args_def pod_conf)
  from cmdDel_leaks [where H = ref_host and leases = RefLeases, OF ref_ipam.ipam_leases_axioms add del conf] add del
  show ?thesis by (simp add: pod_args_def)
qed

subsection \<open>From an allocation into the pod\<close>

text \<open>C7: a veth spoke reaches its pod: after an allocation of its device and an ADD that is given its name, in a pod where the spoke's index is free, the port of the spoke is up on the LAN's bridge and its other end is in the pod under the name asked for and no longer on the host; it is up exactly when an IPAM plugin is named; the device file that the allocation answered with is still that of the macvtap.\<close>

theorem spoke_joins_pod:
  assumes "pod_kernel H links" and "dummyMACVTAP p" and "names_apart (Lan p) (PluginName p)"
    and "PluginMode p = DefaultMode" and "PluginName p \<noteq> dummyIfName"
    and "Allocate (host.truncate H) p [map ID (generateMacvtapDevices p)] w = (Inr answer, w1)"
    and "parseConfig H (StdinData args) = Inr conf" and "VethName conf = PluginName p"
    and "GetNS H (Netns args) w1 = (Inr pod, w0)" and "cmdAdd H args w1 = (Inr (), w2)"
    and "BridgeName (Lan p) = Some bridge" and "links w1 (pod, bridge) = None"
    and "\<forall>i. links w1 (HostNS, PluginName p) = Some i \<longrightarrow> \<not> index_used (links w1) pod (LIndex (IfLink i))"
  shows "\<exists>ns bidx idx. pod_attached (links w2) ns bridge bidx (PluginName p) pod (IfName args) (IPAMType conf \<noteq> '''') \<and>
    macvtap_at (links w2) (device_id (PluginName p) True) dummyIfName MODE_PRIVATE idx \<and>
    answer = [[\<lparr>HostPath = ''/dev/tap'' @ show_int idx, ContainerPath = ''/dev/tap'' @ show_int idx,
                Permissions = ''rw''\<rparr>]]"
proof -
  note pod = assms(1) and add = assms(10,7,9)
  note kernel = pod_kernel.axioms(1) [OF pod]
  from Allocate_effect [OF kernel assms(3,4,6)] assms(2,11) obtain ns bidx idx where ns: "ns \<noteq> HostNS"
    and at: "attached (links w1) ns bridge bidx (PluginName p)"
    and tap: "macvtap_at (links w1) (device_id (PluginName p) True) dummyIfName MODE_PRIVATE idx"
    and answer: "answer = [[\<lparr>HostPath = ''/dev/tap'' @ show_int idx, ContainerPath = ''/dev/tap'' @ show_int idx,
                Permissions = ''rw''\<rparr>]]" by auto
  have "pod \<noteq> ns" using at assms(12) by (auto simp: attached_def bridge_at_def)
  with pod_kernel.cmdAdd_joins [OF pod add] at ns assms(8,13)
  have joined: "pod_attached (links w2) ns bridge bidx (PluginName p) pod (IfName args) (IPAMType conf \<noteq> '''')"
    by simp
  from at assms(8) obtain i where i: "links w1 (HostNS, VethName conf) = Some i"
    by (auto simp: attached_def veth_up_at_def)
  have "pod \<noteq> HostNS"
    using kernel.get_ns [OF kernel, of "Netns args" w1 pod w0] assms(9) by simp
  then have "links w2 (HostNS, n) = links w1 (HostNS, n)" if "n \<noteq> PluginName p" for n
    using pod_kernel.cmdAdd_elsewhere [OF pod add i] that assms(8) by simp
  with tap assms(5) have "macvtap_at (links w2) (device_id (PluginName p) True) dummyIfName MODE_PRIVATE idx"
    by (simp add: macvtap_at_def device_id_def)
  with joined answer show ?thesis by blast
qed

definition veth_plugin :: macvtapDevicePlugin where
  "veth_plugin = sample_plugin\<lparr>dummyMACVTAP := True\<rparr>"

lemma ready_run:
  "case Ensure ref_net ''s1V0'' ''s1'' sample_spec ''node1'' ''passthru'' True ready_host of (r, w) \<Rightarrow>
     r = Inr 18 \<and> ref_get_ns ''/var/run/netns/pod'' w = (Inr (NS_FD 3), w) \<and> ref_links w (NS_FD 3, ''br0'') = None \<and>
     map_option (\<lambda>i. LIndex (IfLink i)) (ref_links w (HostNS, ''s1'')) = Some 12 \<and> ref_index w (NS_FD 3) 12 = None \<and>
     fst (cmdAdd ref_host (pod_args ''static'') w) = Inr ()"
  by (simp add: ready_host_def open_lan_ns_def nsPath_plain plain_name_def getNsRunDir_def HasPrefix_def comp_def Let_def
      sequencing sample_spec_def bare_host_simps ref_calls parse_ff02_14 ref_group_def ensure_defs ensure_dummy_def
      dummyIfName_def ref_host_simps pod_args_def pod_conf cni_calls cni_defs)

theorem spoke_joins_pod_witness:
  "\<exists>answer w1 w2 ns bidx. Allocate ref_net veth_plugin [[''s1V0'']] ready_host = (Inr answer, w1) \<and>
     cmdAdd ref_host (pod_args ''static'') w1 = (Inr (), w2) \<and>
     pod_attached (ref_links w2) ns ''br0'' bidx ''s1'' (NS_FD 3) ''net1'' True"
proof -
  obtain w1 where ensure: "Ensure ref_net ''s1V0'' ''s1'' sample_spec ''node1'' DefaultMode True ready_host = (Inr 18, w1)"
    and pod: "ref_get_ns ''/var/run/netns/pod'' w1 = (Inr (NS_FD 3), w1)" and none: "ref_links w1 (NS_FD 3, ''br0'') = None"
    and s1: "map_option (\<lambda>i. LIndex (IfLink i)) (ref_links w1 (HostNS, ''s1'')) = Some 12"
    and free: "ref_index w1 (NS_FD 3) 12 = None" and ok: "fst (cmdAdd ref_host (pod_args ''static'') w1) = Inr ()"
    using ready_run by (auto simp: DefaultMode_def split: prod.splits)
  obtain w2 where add: "cmdAdd ref_host (pod_args ''static'') w1 = (Inr (), w2)"
    using ok by (metis prod.collapse)
  have ids: "map ID (generateMacvtapDevices veth_plugin) = [''s1V0'']"
    by (simp add: generateMacvtapDevices_eq veth_plugin_def sample_plugin_def)
  obtain answer where run: "Allocate ref_net veth_plugin [[''s1V0'']] ready_host = (Inr answer, w1)"
    using ensure by (simp add: veth_plugin_def sample_plugin_def running_def Let_def)
  have conf: "parseConfig ref_host (StdinData (pod_args ''static'')) =
      Inr \<lparr>CNIVersion = ''1.0.0'', IPAMType = ''static'', ConfDNS = no_dns, VethName = ''s1'', EnableDad = False\<rparr>"
    by (simp add: parseConfig_def ref_host_simps pod_args_def pod_conf)
  have get: "GetNS ref_host (Netns (pod_args ''static'')) w1 = (Inr (NS_FD 3), w1)"
    using pod by (simp add: ref_host_simps pod_args_def)
  have index: "\<forall>i. ref_links w1 (HostNS, ''s1'') = Some i \<longrightarrow> \<not> index_used (ref_links w1) (NS_FD 3) (LIndex (IfLink i))"
    using s1 free ref_index_None [of w1 "NS_FD 3" 12] by auto
  have plugin [simp]: "dummyMACVTAP veth_plugin" "PluginName veth_plugin = ''s1''" "Lan veth_plugin = sample_spec"
    "PluginMode veth_plugin = DefaultMode" "BridgeName sample_spec = Some ''br0''"
    by (simp_all add: veth_plugin_def sample_plugin_def sample_spec_def)
  have "\<exists>ns bidx. pod_attached (ref_links w2) ns ''br0'' bidx ''s1'' (NS_FD 3) ''net1'' True"
    using spoke_joins_pod [where H = ref_host and links = ref_links, OF ref_pod.pod_kernel_axioms,
        of veth_plugin ready_host answer w1 "pod_args ''static''" _ "NS_FD 3" w1 w2 "''br0''", OF _ _ _ _ _ conf _ get add _ none]
      run sample_apart index
    by (simp add: ids ref_net_def [symmetric] dummyIfName_def) (auto simp: pod_args_def)
  with run add show ?thesis by blast
qed

text \<open>C8: an ADD gets its spoke into the pod: with the attachment of the spoke in place, its names and its index free in the pod, an address for it when an IPAM plugin is named, and a system that refuses nothing else, \<open>cmdAdd\<close> succeeds; the spoke is then in the pod under the name asked for, its port still on the LAN's bridge, and it is up exactly when an IPAM plugin is named.\<close>

theorem spoke_reaches_pod:
  assumes "willing_pod H links ready grants valid_ips speaks" and "ready w"
    and "parseConfig H (StdinData args) = Inr conf" and "GetNS H (Netns args) w = (Inr pod, w0)"
    and "attached (links w) ns bridge bidx (VethName conf)" and "ns \<noteq> HostNS" and "pod \<noteq> ns"
    and "links w (pod, VethName conf) = None" and "links w (pod, IfName args) = None"
    and "\<forall>i. links w (HostNS, VethName conf) = Some i \<longrightarrow> \<not> index_used (links w) pod (LIndex (IfLink i))"
    and "name_fits (IfName args)" and "speaks (CNIVersion conf)"
    and "IPAMType conf = '''' \<or> grants (IPAMType conf) (StdinData args)"
  shows "\<exists>w'. cmdAdd H args w = (Inr (), w') \<and>
    pod_attached (links w') ns bridge bidx (VethName conf) pod (IfName args) (IPAMType conf \<noteq> '''')"
proof -
  note pod = willing_pod.axioms(1) [OF assms(1)]
  from assms(5) obtain i where i: "links w (HostNS, VethName conf) = Some i" "LKind (IfLink i) = Veth (getPeerVethName (VethName conf))"
    by (auto simp: attached_def veth_up_at_def)
  with willing_pod.cmdAdd_gives [OF assms(1-4) i assms(8,9) _ assms(11,12)] assms(10,13)
  obtain w' where add: "cmdAdd H args w = (Inr (), w')" by blast
  with pod_kernel.cmdAdd_joins [OF pod add assms(3-7)] assms(10) show ?thesis by blast
qed

text \<open>The host with the attachment of \<open>s1\<close>, and the namespace of a pod.\<close>

definition busy_pod_host :: ref_world where
  "busy_pod_host = busy_host\<lparr>RefNS := (RefNS busy_host)(''/var/run/netns/pod'' \<mapsto> 3)\<rparr>"

lemma busy_pod_links: "ref_links busy_pod_host = ref_links busy_host"
  by (simp add: busy_pod_host_def ref_links_def)

theorem spoke_reaches_pod_witness:
  "\<exists>w'. cmdAdd ref_host (pod_args ''static'') busy_pod_host = (Inr (), w') \<and>
    pod_attached (ref_links w') (NS_FD 7) ''br0'' 10 ''s1'' (NS_FD 3) ''net1'' True"
proof -
  let ?args = "pod_args ''static''"
  have conf: "parseConfig ref_host (StdinData ?args) =
      Inr \<lparr>CNIVersion = ''1.0.0'', IPAMType = ''static'', ConfDNS = no_dns, VethName = ''s1'', EnableDad = False\<rparr>"
    by (simp add: parseConfig_def ref_host_simps pod_args_def pod_conf)
  have well: "ref_well busy_pod_host" by (simp add: ref_well_def busy_pod_host_def busy_host_def bare_host_simps)
  have get: "GetNS ref_host (Netns ?args) busy_pod_host = (Inr (NS_FD 3), busy_pod_host)"
    by (simp add: ref_host_simps ref_get_ns_def pod_args_def busy_pod_host_def HasPrefix_def)
  have empty: "ref_links busy_pod_host (NS_FD 3, n) = None" for n
    unfolding busy_pod_links by (simp add: busy_host_def bare_host_simps ref_links_def)
  have fits: "name_fits (IfName ?args)" by (auto simp: name_fits_def pod_args_def)
  note reached = spoke_reaches_pod [where H = ref_host and links = ref_links, OF ref_ready.willing_pod_axioms well conf get, unfolded busy_pod_links]
  show ?thesis
    using reached [of "NS_FD 7" "''br0''" 10] busy_attached empty [unfolded busy_pod_links] fits
    by (simp add: index_used_def pod_args_def)
qed

text \<open>C27: when a link of the pod has the spoke's index already, an ADD that reports success has renamed that link of the pod to the name asked for, and the spoke is in the pod under the name it had on the host.\<close>

theorem stale_index_renames:
  assumes "pod_kernel H links" and "cmdAdd H args w = (Inr (), w')" and "parseConfig H (StdinData args) = Inr conf"
    and "GetNS H (Netns args) w = (Inr pod, w0)" and "links w (HostNS, VethName conf) = Some i"
    and "index_used (links w) pod (LIndex (IfLink i))"
  shows "\<exists>n0 k k' j. links w (pod, n0) = Some k \<and> LIndex (IfLink k) = LIndex (IfLink i) \<and>
    links w' (pod, IfName args) = Some k' \<and> IfLink k' = (IfLink k)\<lparr>LName := IfName args\<rparr> \<and>
    (n0 \<noteq> IfName args \<longrightarrow> links w' (pod, n0) = None) \<and>
    VethName conf \<noteq> IfName args \<and> links w' (pod, VethName conf) = Some j \<and> LKind (IfLink j) = LKind (IfLink i)"
  using pod_kernel.cmdAdd_renames_other [OF assms] .

definition crowded_host :: ref_world where
  "crowded_host = pod_host\<lparr>RefTab := RefTab pod_host @
     [((NS_FD 3, ''eth0''), down_iface (no_attrs\<lparr>LName := ''eth0'', LIndex := 12, LKind := OtherKind ''device''\<rparr>))]\<rparr>"

theorem stale_index_renames_witness:
  "\<exists>w' k j. cmdAdd ref_host (pod_args []) crowded_host = (Inr (), w') \<and>
     ref_links w' (NS_FD 3, ''net1'') = Some k \<and> LKind (IfLink k) = OtherKind ''device'' \<and>
     ref_links w' (NS_FD 3, ''s1'') = Some j \<and> LKind (IfLink j) = Veth ''s1p''"
proof -
  have "fst (cmdAdd ref_host (pod_args []) crowded_host) = Inr ()"
    by (simp add: crowded_host_def pod_host_def pod_args_def pod_conf ref_host_simps sequencing bare_host_simps HasPrefix_def
        Let_def comp_def cni_calls cni_defs new_index_def)
  then obtain w' where run: "cmdAdd ref_host (pod_args []) crowded_host = (Inr (), w')"
    by (metis prod.collapse)
  have conf: "parseConfig ref_host (StdinData (pod_args [])) =
      Inr \<lparr>CNIVersion = ''1.0.0'', IPAMType = [], ConfDNS = no_dns, VethName = ''s1'', EnableDad = False\<rparr>"
    by (simp add: parseConfig_def ref_host_simps pod_args_def pod_conf)
  have pod: "GetNS ref_host (Netns (pod_args [])) crowded_host = (Inr (NS_FD 3), crowded_host)"
    by (simp add: ref_host_simps pod_args_def ref_get_ns_def crowded_host_def pod_host_def HasPrefix_def)
  let ?i = "down_iface (no_attrs\<lparr>LName := ''s1'', LIndex := 12, LKind := Veth ''s1p''\<rparr>)"
  let ?e = "down_iface (no_attrs\<lparr>LName := ''eth0'', LIndex := 12, LKind := OtherKind ''device''\<rparr>)"
  have links: "ref_links crowded_host = [(HostNS, ''s1'') \<mapsto> ?i, (NS_FD 3, ''eth0'') \<mapsto> ?e]"
    by (auto simp: ref_links_def crowded_host_def pod_host_def down_iface_def fun_eq_iff)
  have used: "index_used (ref_links crowded_host) (NS_FD 3) 12"
    unfolding index_used_def links by (intro exI [of _ "''eth0''"] exI [of _ ?e]) (simp add: down_iface_def)
  from stale_index_renames [where H = ref_host and links = ref_links, OF ref_pod.pod_kernel_axioms run conf pod, of ?i] links used
  show ?thesis
    using run by (fastforce simp: down_iface_def pod_args_def split: if_splits)
qed

end
